(* ===== verification/Chat_Prelude.thy ===== *)
theory Chat_Prelude
  imports Main "HOL-Library.Word"
begin

text \<open>
  Shared vocabulary of the development of the IPK24-CHAT client.

  \<^item> The machine: bytes are \<open>8 word\<close>, a memory cell is a byte or indeterminate
    (\<open>None\<close>, what \<open>malloc\<close> and \<open>realloc\<close> hand out), a \<open>char*\<close> is \<open>None\<close>
    (\<open>NULL\<close>) or an object together with an offset into it, and \<open>size_t\<close> is a natural
    number below \<open>2 ^ 64\<close> whose wrap-around is written out where the code can reach it.
  \<^item> Results: \<open>'a res\<close> separates a normal return, a call of \<open>errHandling\<close> (which never
    returns) and undefined behaviour; \<open>('a, 's) outcome\<close> adds the state of the program and
    the possibility that the thread is suspended.
  \<^item> The generic lemmas on those types that the component theories share, in the collections
    \<open>res_simps\<close>, \<open>mem_simps\<close> and \<open>prog_simps\<close>.
\<close>

unbundle bit_operations_syntax

named_theorems res_simps \<open>evaluation of results\<close>
named_theorems mem_simps \<open>reads and writes of memory objects\<close>
named_theorems prog_simps \<open>evaluation of stateful programs\<close>

section \<open>Bytes, sizes and pointers\<close>

type_synonym byte = "8 word"
type_synonym cell = "byte option"
type_synonym ptr = "(cell list \<times> nat) option"

text \<open>\<open>size_t\<close> arithmetic: the unsigned 64-bit wrap-around, and the conversion of a \<open>long\<close>.\<close>

definition size_add :: "nat \<Rightarrow> nat \<Rightarrow> nat" where
  "size_add a b = (a + b) mod 2 ^ 64"

definition size_sub :: "nat \<Rightarrow> nat \<Rightarrow> nat" where
  "size_sub a b = nat ((int a - int b) mod 2 ^ 64)"

definition size_of_long :: "int \<Rightarrow> nat" where
  "size_of_long i = nat (i mod 2 ^ 64)"

lemma size_add_small [mem_simps]: "a + b < 2 ^ 64 \<Longrightarrow> size_add a b = a + b"
  by (simp add: size_add_def)

lemma size_sub_le [mem_simps]: "b \<le> a \<Longrightarrow> a < 2 ^ 64 \<Longrightarrow> size_sub a b = a - b"
  by (simp add: size_sub_def flip: of_nat_diff)

lemma size_sub_underflow:
  assumes "a < b" "b < 2 ^ 64"
  shows "size_sub a b = 2 ^ 64 + a - b"
proof -
  have "(int a - int b) mod 2 ^ 64 = (int a - int b + 2 ^ 64) mod 2 ^ 64"
    by simp
  also have "\<dots> = int a - int b + 2 ^ 64"
    using assms by (intro mod_pos_pos_trivial) auto
  finally show ?thesis
    using assms by (simp add: size_sub_def)
qed

lemma size_of_long_nat [mem_simps]: "n < 2 ^ 64 \<Longrightarrow> size_of_long (int n) = n"
  by (simp add: size_of_long_def)

lemma size_of_long_minus_one [simp]: "size_of_long (- 1) = 2 ^ 64 - 1"
  by (simp add: size_of_long_def)

section \<open>Results of code without shared state\<close>

text \<open>
  The exit codes of \<open>utils.h\<close>. Calls such as \<open>errHandling("...", 1)\<close> use the number of
  \<open>err_MISING_PROGRAM_ARG\<close>.
\<close>

datatype err_code =
    err_NO_ERR
  | err_MISING_PROGRAM_ARG
  | err_NETWORK_INIT
  | err_COMMUNICATION
  | err_INTERNAL_UNEXPECTED_RESULT
  | err_INTERNAL_BAD_ARG
  | err_MEMORY_FAIL

text \<open>Undefined behaviour the code can run into, by cause.\<close>

datatype fault =
    Null_Deref
  | Out_Of_Bounds
  | Uninit_Read
  | Use_After_Free

datatype 'a res = Ok 'a | Err err_code | Fault fault

primrec res_bind :: "'a res \<Rightarrow> ('a \<Rightarrow> 'b res) \<Rightarrow> 'b res" where
  "res_bind (Ok x) f = f x"
| "res_bind (Err c) f = Err c"
| "res_bind (Fault e) f = Fault e"

lemmas [res_simps] = res_bind.simps

lemma res_bind_cong [fundef_cong]:
  "m = m' \<Longrightarrow> (\<And>x. m' = Ok x \<Longrightarrow> f x = g x) \<Longrightarrow> res_bind m f = res_bind m' g"
  by (cases m') auto

lemma res_bind_eq_Ok:
  "res_bind m f = Ok y \<longleftrightarrow> (\<exists>x. m = Ok x \<and> f x = Ok y)"
  by (cases m) auto

lemma res_bind_Ok_right [res_simps]: "res_bind m Ok = m"
  by (cases m) auto

lemma res_bind_assoc: "res_bind (res_bind m f) g = res_bind m (\<lambda>x. res_bind (f x) g)"
  by (cases m) auto

text \<open>Running an operation once for every element of a list.\<close>

fun res_fold :: "('x \<Rightarrow> 'a \<Rightarrow> 'a res) \<Rightarrow> 'x list \<Rightarrow> 'a \<Rightarrow> 'a res" where
  "res_fold f [] a = Ok a"
| "res_fold f (x # xs) a = res_bind (f x a) (res_fold f xs)"

section \<open>Memory objects\<close>

text \<open>\<open>p[i]\<close> as a value: the address wraps modulo \<open>2 ^ 64\<close>, so index \<open>2 ^ 64 - 1\<close> is the
  byte before \<open>p\<close>.\<close>

definition ptr_read :: "ptr \<Rightarrow> nat \<Rightarrow> byte res" where
  "ptr_read p i =
     (case p of
        None \<Rightarrow> Fault Null_Deref
      | Some (m, off) \<Rightarrow>
          let k = (off + i) mod 2 ^ 64 in
          if k < length m
          then (case m ! k of None \<Rightarrow> Fault Uninit_Read | Some b \<Rightarrow> Ok b)
          else Fault Out_Of_Bounds)"

text \<open>\<open>&(p[i])\<close>.\<close>

definition ptr_add :: "ptr \<Rightarrow> nat \<Rightarrow> ptr" where
  "ptr_add p i = map_option (\<lambda>(m, off). (m, (off + i) mod 2 ^ 64)) p"

text \<open>The bytes of a string literal, without and with its terminator, and a pointer to it.\<close>

definition bytes_of :: "string \<Rightarrow> byte list" where
  "bytes_of s = map of_char s"

definition literal :: "string \<Rightarrow> ptr" where
  "literal s = Some (map Some (bytes_of s @ [0]), 0)"

text \<open>The object with \<open>xs\<close> written over it from offset \<open>d\<close> on.\<close>

definition overlay :: "'a list \<Rightarrow> nat \<Rightarrow> 'a list \<Rightarrow> 'a list" where
  "overlay m d xs = take d m @ xs @ drop (d + length xs) m"

text \<open>
  \<open>for(i = 0; i < n; i++) dst[i] = src[i]\<close>, with \<open>dst\<close> at offset \<open>d\<close> and \<open>src\<close> at
  offset \<open>s\<close>; copying an indeterminate byte is allowed.
\<close>

fun copy_bytes :: "cell list \<Rightarrow> nat \<Rightarrow> cell list \<Rightarrow> nat \<Rightarrow> nat \<Rightarrow> cell list res" where
  "copy_bytes dst d src s 0 = Ok dst"
| "copy_bytes dst d src s (Suc n) =
     (if s < length src \<and> d < length dst
      then copy_bytes (dst[d := src ! s]) (Suc d) src (Suc s) n
      else Fault Out_Of_Bounds)"

text \<open>\<open>p\<close> points at the determinate bytes \<open>bs\<close> (inside one object).\<close>

definition points_to :: "ptr \<Rightarrow> byte list \<Rightarrow> bool" where
  "points_to p bs =
     (case p of
        None \<Rightarrow> False
      | Some (m, off) \<Rightarrow>
          length m < 2 ^ 64 \<and> off + length bs \<le> length m \<and>
          take (length bs) (drop off m) = map Some bs)"

subsection \<open>Overlaying\<close>

lemma length_overlay [simp]: "d + length xs \<le> length m \<Longrightarrow> length (overlay m d xs) = length m"
  by (simp add: overlay_def)

lemma overlay_Nil [simp]: "overlay m d [] = m"
  by (simp add: overlay_def)

lemma take_overlay [mem_simps]:
  "d \<le> length m \<Longrightarrow> take (d + length xs) (overlay m d xs) = take d m @ xs"
  by (simp add: overlay_def)

lemma take_overlay_before [mem_simps]:
  "k \<le> d \<Longrightarrow> d \<le> length m \<Longrightarrow> take k (overlay m d xs) = take k m"
  by (simp add: overlay_def min_def)

lemma drop_overlay [mem_simps]:
  "d \<le> length m \<Longrightarrow> drop (d + length xs) (overlay m d xs) = drop (d + length xs) m"
  by (simp add: overlay_def)

lemma overlay_Cons:
  "d < length m \<Longrightarrow> overlay (m[d := x]) (Suc d) xs = overlay m d (x # xs)"
  by (simp add: overlay_def take_Suc_conv_app_nth drop_update_cancel take_update_cancel)

lemma overlay_append:
  "d + length xs \<le> length m \<Longrightarrow>
     overlay (overlay m d xs) (d + length xs) ys = overlay m d (xs @ ys)"
  by (cases xs) (auto simp: overlay_def min_def add.commute add.left_commute)

lemma overlay_single [mem_simps]: "d < length m \<Longrightarrow> overlay m d [x] = m[d := x]"
  using overlay_Cons[of d m x "[]"] by simp

lemma copy_bytes_ok [mem_simps]:
  "s + n \<le> length src \<Longrightarrow> d + n \<le> length dst \<Longrightarrow>
     copy_bytes dst d src s n = Ok (overlay dst d (take n (drop s src)))"
proof (induction n arbitrary: dst d s)
  case 0
  then show ?case by simp
next
  case (Suc n)
  then have "copy_bytes dst d src s (Suc n)
      = Ok (overlay (dst[d := src ! s]) (Suc d) (take n (drop (Suc s) src)))"
    by simp
  also have "\<dots> = Ok (overlay dst d (take (Suc n) (drop s src)))"
    using Suc.prems by (simp add: overlay_Cons flip: Cons_nth_drop_Suc)
  finally show ?case .
qed

lemma copy_bytes_fault:
  "\<not> (s + n \<le> length src \<and> d + n \<le> length dst) \<Longrightarrow> n \<noteq> 0 \<Longrightarrow>
     copy_bytes dst d src s n = Fault Out_Of_Bounds"
proof (induction n arbitrary: dst d s)
  case 0
  then show ?case by simp
next
  case (Suc n)
  show ?case
  proof (cases "s < length src \<and> d < length dst \<and> n \<noteq> 0")
    case True
    with Suc.prems have "\<not> (Suc s + n \<le> length src \<and> Suc d + n \<le> length (dst[d := src ! s]))"
      by auto
    with True show ?thesis
      using Suc.IH by simp
  next
    case False
    with Suc.prems show ?thesis by auto
  qed
qed

subsection \<open>Pointers\<close>

lemma points_toD:
  assumes "points_to p bs"
  obtains m off where "p = Some (m, off)" "length m < 2 ^ 64" "off + length bs \<le> length m"
    "take (length bs) (drop off m) = map Some bs"
  using assms by (auto simp: points_to_def split: option.splits prod.splits)

lemma points_to_read [mem_simps]:
  assumes "points_to p bs" "i < length bs"
  shows "ptr_read p i = Ok (bs ! i)"
  using assms(1)
proof (cases rule: points_toD)
  case (1 m off)
  have "m ! (off + i) = take (length bs) (drop off m) ! i"
    using assms(2) 1(3) by simp
  also have "\<dots> = Some (bs ! i)"
    using assms(2) 1(4) by simp
  finally show ?thesis
    using 1 assms(2) by (simp add: ptr_read_def)
qed

lemma points_to_prefix:
  assumes "points_to p (xs @ ys)"
  shows "points_to p xs"
  using assms
proof (cases rule: points_toD)
  case (1 m off)
  have "take (length xs) (drop off m) = take (length xs) (take (length (xs @ ys)) (drop off m))"
    by (simp add: min_def)
  also have "\<dots> = map Some xs"
    using 1(4) by simp
  finally show ?thesis
    using 1 by (simp add: points_to_def)
qed

lemma points_to_add:
  assumes "points_to p (xs @ ys)"
  shows "points_to (ptr_add p (length xs)) ys"
  using assms
proof (cases rule: points_toD)
  case (1 m off)
  have "take (length ys) (drop (off + length xs) m)
      = drop (length xs) (take (length (xs @ ys)) (drop off m))"
    by (simp add: drop_take add.commute)
  also have "\<dots> = map Some ys"
    using 1(4) by simp
  finally show ?thesis
    using 1 by (simp add: points_to_def ptr_add_def)
qed

lemma points_to_object:
  "length m + length bs + length post < 2 ^ 64 \<Longrightarrow>
     points_to (Some (m @ map Some bs @ post, length m)) bs"
  by (simp add: points_to_def)

lemma points_to_start:
  "length bs + length post < 2 ^ 64 \<Longrightarrow> points_to (Some (map Some bs @ post, 0)) bs"
  by (simp add: points_to_def)

lemma points_to_literal:
  "length s < 2 ^ 64 - 1 \<Longrightarrow> points_to (literal s) (bytes_of s @ [0])"
  by (simp add: points_to_def literal_def bytes_of_def)

section \<open>Stateful programs\<close>

text \<open>
  What running a piece of a thread on the shared state ends in: it returns, it calls
  \<open>errHandling\<close> (which does not return; the state is the one at the call), it runs into
  undefined behaviour, or the thread is suspended for good in the observed run (it waits on a
  condition nobody signals, or locks a mutex it holds itself).
\<close>

datatype ('a, 's) outcome =
    Done 'a 's
  | Exits err_code 's
  | Crashes fault
  | Blocked 's

type_synonym ('a, 's) prog = "'s \<Rightarrow> ('a, 's) outcome"

definition ret :: "'a \<Rightarrow> ('a, 's) prog" where
  "ret a s = Done a s"

definition bind_prog :: "('a, 's) prog \<Rightarrow> ('a \<Rightarrow> ('b, 's) prog) \<Rightarrow> ('b, 's) prog" where
  "bind_prog m f s =
     (case m s of
        Done a s' \<Rightarrow> f a s'
      | Exits c s' \<Rightarrow> Exits c s'
      | Crashes e \<Rightarrow> Crashes e
      | Blocked s' \<Rightarrow> Blocked s')"

definition modify :: "('s \<Rightarrow> 's) \<Rightarrow> (unit, 's) prog" where
  "modify f s = Done () (f s)"

definition asks :: "('s \<Rightarrow> 'a) \<Rightarrow> ('a, 's) prog" where
  "asks f s = Done (f s) s"

text \<open>Code without shared state, run inside a thread.\<close>

definition lift_res :: "'a res \<Rightarrow> ('a, 's) prog" where
  "lift_res r s = (case r of Ok a \<Rightarrow> Done a s | Err c \<Rightarrow> Exits c s | Fault e \<Rightarrow> Crashes e)"

lemma ret_run [prog_simps]: "ret a s = Done a s"
  by (simp add: ret_def)

lemma bind_prog_run [prog_simps]:
  "m s = Done a s' \<Longrightarrow> bind_prog m f s = f a s'"
  "m s = Exits c s' \<Longrightarrow> bind_prog m f s = Exits c s'"
  "m s = Crashes e \<Longrightarrow> bind_prog m f s = Crashes e"
  "m s = Blocked s' \<Longrightarrow> bind_prog m f s = Blocked s'"
  by (simp_all add: bind_prog_def)

lemma modify_run [prog_simps]: "modify f s = Done () (f s)"
  by (simp add: modify_def)

lemma asks_run [prog_simps]: "asks f s = Done (f s) s"
  by (simp add: asks_def)

lemma lift_res_run [prog_simps]:
  "lift_res (Ok a) s = Done a s"
  "lift_res (Err c) s = Exits c s"
  "lift_res (Fault e) s = Crashes e"
  by (simp_all add: lift_res_def)

lemma bind_prog_ret [prog_simps]: "bind_prog (ret a) f = f a"
  by (rule ext) (simp add: bind_prog_def ret_def)

lemma bind_prog_assoc: "bind_prog (bind_prog m f) g = bind_prog m (\<lambda>a. bind_prog (f a) g)"
  by (rule ext) (simp add: bind_prog_def split: outcome.splits)

subsection \<open>Predicates that hold whatever way a program ends\<close>

text \<open>\<open>ensures Q o\<close>: the state \<open>o\<close> leaves behind, if it leaves one, satisfies \<open>Q\<close>.\<close>

primrec ensures :: "('s \<Rightarrow> bool) \<Rightarrow> ('a, 's) outcome \<Rightarrow> bool" where
  "ensures Q (Done a s) = Q s"
| "ensures Q (Exits c s) = Q s"
| "ensures Q (Crashes e) = True"
| "ensures Q (Blocked s) = Q s"

text \<open>\<open>keeps I m\<close>: the program \<open>m\<close> keeps the invariant \<open>I\<close>.\<close>

definition keeps :: "('s \<Rightarrow> bool) \<Rightarrow> ('a, 's) prog \<Rightarrow> bool" where
  "keeps I m \<longleftrightarrow> (\<forall>s. I s \<longrightarrow> ensures I (m s))"

named_theorems keeps_intros \<open>programs that keep an invariant\<close>

lemma keepsI: "(\<And>s. I s \<Longrightarrow> ensures I (m s)) \<Longrightarrow> keeps I m"
  by (simp add: keeps_def)

lemma keepsD: "keeps I m \<Longrightarrow> I s \<Longrightarrow> ensures I (m s)"
  by (simp add: keeps_def)

lemma keeps_ret [keeps_intros]: "keeps I (ret a)"
  by (simp add: keeps_def ret_def)

lemma keeps_asks [keeps_intros]: "keeps I (asks f)"
  by (simp add: keeps_def asks_def)

lemma keeps_lift_res [keeps_intros]: "keeps I (lift_res r)"
  by (cases r) (simp_all add: keeps_def lift_res_def)

lemma keeps_modify: "(\<And>s. I s \<Longrightarrow> I (f s)) \<Longrightarrow> keeps I (modify f)"
  by (simp add: keeps_def modify_def)

lemma keeps_bind [keeps_intros]:
  assumes "keeps I m" "\<And>a. keeps I (f a)"
  shows "keeps I (bind_prog m f)"
proof (rule keepsI)
  fix s assume "I s"
  with assms(1) have "ensures I (m s)" by (rule keepsD)
  then show "ensures I (bind_prog m f s)"
    using assms(2) by (cases "m s") (simp_all add: bind_prog_def keepsD)
qed

lemma keeps_if [keeps_intros]:
  "(b \<Longrightarrow> keeps I m) \<Longrightarrow> (\<not> b \<Longrightarrow> keeps I m') \<Longrightarrow> keeps I (if b then m else m')"
  by simp

end
