(* ===== verification/Chat_Utils.thy ===== *)
theory Chat_Utils
  imports Chat_Prelude
begin

text \<open>
  The helpers of \<open>libs/utils.c\<close> and the enumerations of \<open>libs/utils.h\<close>: the states of the
  program, the command types, the scanning functions every parser is built from, the byte copy,
  and the conversions between message identifiers and bytes.

  A \<open>char\<close> is signed on the platforms the client is built for, so an ordering or an arithmetic
  use of a \<open>char\<close> reads the byte with \<^const>\<open>sint\<close>.
\<close>

section \<open>Enumerations\<close>

datatype fsm_t =
    fsm_START
  | fsm_AUTH_W82_BE_SENDED
  | fsm_AUTH_SENDED
  | fsm_W84_REPLY
  | fsm_W84_REPLY_CONF
  | fsm_OPEN
  | fsm_JOIN_ATEMPT
  | fsm_EMPTY_Q_BYE
  | fsm_ERR
  | fsm_ERR_W84_CONF
  | fsm_SIGINT_BYE
  | fsm_END_W84_CONF
  | fsm_END

text \<open>The position of a state in the enumeration, which the code compares with \<open><\<close> and \<open><=\<close>.\<close>

fun fsm_rank :: "fsm_t \<Rightarrow> nat" where
  "fsm_rank fsm_START = 0"
| "fsm_rank fsm_AUTH_W82_BE_SENDED = 1"
| "fsm_rank fsm_AUTH_SENDED = 2"
| "fsm_rank fsm_W84_REPLY = 3"
| "fsm_rank fsm_W84_REPLY_CONF = 4"
| "fsm_rank fsm_OPEN = 5"
| "fsm_rank fsm_JOIN_ATEMPT = 6"
| "fsm_rank fsm_EMPTY_Q_BYE = 7"
| "fsm_rank fsm_ERR = 8"
| "fsm_rank fsm_ERR_W84_CONF = 9"
| "fsm_rank fsm_SIGINT_BYE = 10"
| "fsm_rank fsm_END_W84_CONF = 11"
| "fsm_rank fsm_END = 12"

lemma fsm_rank_inj: "fsm_rank a = fsm_rank b \<Longrightarrow> a = b"
  by (cases a; cases b) simp_all

instantiation fsm_t :: linorder
begin

definition less_eq_fsm_t :: "fsm_t \<Rightarrow> fsm_t \<Rightarrow> bool" where
  "less_eq_fsm_t a b \<longleftrightarrow> fsm_rank a \<le> fsm_rank b"

definition less_fsm_t :: "fsm_t \<Rightarrow> fsm_t \<Rightarrow> bool" where
  "less_fsm_t a b \<longleftrightarrow> fsm_rank a < fsm_rank b"

instance
  by standard (auto simp: less_eq_fsm_t_def less_fsm_t_def dest: fsm_rank_inj)

end

datatype cmd_t =
    cmd_AUTH
  | cmd_JOIN
  | cmd_RENAME
  | cmd_HELP
  | cmd_CONF
  | cmd_MSG
  | cmd_ERR
  | cmd_EXIT
  | cmd_MISSING
  | cmd_NONE
  | cmd_CONVERSION_ERR

text \<open>The number of a command type, as it is stored in the \<open>unsigned char\<close> field \<open>type\<close>.\<close>

fun cmd_byte :: "cmd_t \<Rightarrow> byte" where
  "cmd_byte cmd_AUTH = 0"
| "cmd_byte cmd_JOIN = 1"
| "cmd_byte cmd_RENAME = 2"
| "cmd_byte cmd_HELP = 3"
| "cmd_byte cmd_CONF = 4"
| "cmd_byte cmd_MSG = 5"
| "cmd_byte cmd_ERR = 6"
| "cmd_byte cmd_EXIT = 7"
| "cmd_byte cmd_MISSING = 8"
| "cmd_byte cmd_NONE = 9"
| "cmd_byte cmd_CONVERSION_ERR = 10"

text \<open>A block of bytes it does not own: \<open>struct BytesBlock\<close>.\<close>

record BytesBlock =
  bb_start :: ptr
  bb_len :: nat

section \<open>Scanning\<close>

text \<open>
  The loop \<open>for(; index <= len; index++) if(stop(string[index])) return index; return -1;\<close>
  shared by \<open>findBlankCharInString\<close> and \<open>findNewLineInString\<close>.
\<close>

function scan :: "(byte \<Rightarrow> bool) \<Rightarrow> ptr \<Rightarrow> nat \<Rightarrow> nat \<Rightarrow> int res" where
  "scan stop string len index =
     (if index \<le> len
      then res_bind (ptr_read string index) (\<lambda>c.
             if stop c then Ok (int index) else scan stop string len (Suc index))
      else Ok (- 1))"
  by pat_completeness auto
termination
  by (relation "measure (\<lambda>(stop, string, len, index). Suc len - index)") auto

declare scan.simps [simp del]

definition is_blank :: "byte \<Rightarrow> bool" where
  "is_blank c \<longleftrightarrow> c = 32 \<or> c = 9 \<or> c = 0 \<or> c = 10 \<or> c = 13"

definition is_line_end :: "byte \<Rightarrow> bool" where
  "is_line_end c \<longleftrightarrow> c = 0 \<or> c = 10 \<or> c = 13"

definition findBlankCharInString :: "ptr \<Rightarrow> nat \<Rightarrow> int res" where
  "findBlankCharInString string len = scan is_blank string len 0"

definition findNewLineInString :: "ptr \<Rightarrow> nat \<Rightarrow> int res" where
  "findNewLineInString string len = scan is_line_end string len 0"

text \<open>The second test of the loop body is never reached with a true condition.\<close>

function skip_from :: "ptr \<Rightarrow> nat \<Rightarrow> nat \<Rightarrow> int res" where
  "skip_from string len index =
     (if index < len
      then res_bind (ptr_read string index) (\<lambda>c.
             if \<not> (c = 32 \<or> c = 9) then Ok (int index)
             else if c = 0 \<or> c = 10 then Ok (- 1)
             else skip_from string len (Suc index))
      else Ok (- 1))"
  by pat_completeness auto
termination
  by (relation "measure (\<lambda>(string, len, index). len - index)") auto

declare skip_from.simps [simp del]

definition skipBlankCharsInString :: "ptr \<Rightarrow> nat \<Rightarrow> int res" where
  "skipBlankCharsInString string len = skip_from string len 0"

text \<open>
  \<open>getWord\<close>: the block is an in/out argument (its old \<open>len\<close> is read). The block is the address
  of a local variable in every call, so only \<open>startOfLastWord\<close> can be \<open>NULL\<close>.
\<close>

definition getWord :: "BytesBlock \<Rightarrow> ptr \<Rightarrow> nat \<Rightarrow> (bool \<times> BytesBlock) res" where
  "getWord block startOfLastWord bufferSize =
     (if startOfLastWord = None \<or> bufferSize \<le> 0 then Ok (False, block)
      else
        res_bind (skipBlankCharsInString startOfLastWord bufferSize) (\<lambda>index.
        let block = block\<lparr>bb_start := ptr_add startOfLastWord (size_of_long index)\<rparr> in
        res_bind (findBlankCharInString (bb_start block) (size_sub bufferSize (bb_len block)))
          (\<lambda>index.
        let block = block\<lparr>bb_len := size_of_long index\<rparr> in
        Ok (bb_len block \<noteq> 0, block))))"

function zero_from :: "ptr \<Rightarrow> nat \<Rightarrow> nat \<Rightarrow> nat res" where
  "zero_from string len index =
     (if index < len
      then res_bind (ptr_read string index) (\<lambda>c.
             if c \<noteq> 0 then zero_from string len (Suc index) else Ok index)
      else Ok index)"
  by pat_completeness auto
termination
  by (relation "measure (\<lambda>(string, len, index). len - index)") auto

declare zero_from.simps [simp del]

definition findZeroInString :: "ptr \<Rightarrow> nat \<Rightarrow> int res" where
  "findZeroInString string len =
     res_bind (zero_from string len 0) (\<lambda>index.
       if index \<le> 0 then Err err_INTERNAL_BAD_ARG else Ok (int index))"

text \<open>The result is 0 for an ending character and 1 for any other; \<open>EOF\<close> is \<open>-1\<close>.\<close>

definition isEndingCharacter :: "byte \<Rightarrow> int" where
  "isEndingCharacter input =
     (if sint input = - 1 \<or> input = 10 \<or> input = 3 \<or> input = 4 then 0 else 1)"

section \<open>Copying\<close>

text \<open>\<open>stringReplace(&dst[d], src, len)\<close>, returning the object \<open>dst\<close> points into.\<close>

definition stringReplace :: "cell list option \<Rightarrow> nat \<Rightarrow> ptr \<Rightarrow> nat \<Rightarrow> cell list option res" where
  "stringReplace dst d src len =
     (case (dst, src) of
        (Some m, Some (m', s)) \<Rightarrow> res_bind (copy_bytes m d m' s len) (\<lambda>m. Ok (Some m))
      | _ \<Rightarrow> Ok dst)"

section \<open>Conversions\<close>

definition uchar2CommandType :: "byte \<Rightarrow> cmd_t" where
  "uchar2CommandType input =
     (let tmp = uint input in
      if 0 \<le> tmp \<and> tmp \<le> 9
      then [cmd_AUTH, cmd_JOIN, cmd_RENAME, cmd_HELP, cmd_CONF, cmd_MSG, cmd_ERR, cmd_EXIT,
            cmd_MISSING, cmd_NONE] ! nat tmp
      else cmd_CONVERSION_ERR)"

text \<open>The pair of the high and the low byte.\<close>

definition breakU16IntToBytes :: "16 word \<Rightarrow> byte \<times> byte" where
  "breakU16IntToBytes msgCounter =
     (ucast (drop_bit 8 msgCounter), ucast (msgCounter AND 0xff))"

text \<open>Both \<open>char\<close>s are promoted to \<open>int\<close> with their sign before the addition.\<close>

definition convert2BytesToU16Int :: "byte \<Rightarrow> byte \<Rightarrow> 16 word" where
  "convert2BytesToU16Int low high = word_of_int (sint low + sint high * 2 ^ 8)"

definition IS_LOWERCASE :: "byte \<Rightarrow> bool" where
  "IS_LOWERCASE c \<longleftrightarrow> sint c \<ge> 97 \<and> sint c \<le> 122"

definition IS_UPPERCASE :: "byte \<Rightarrow> bool" where
  "IS_UPPERCASE c \<longleftrightarrow> sint c \<ge> 65 \<and> sint c \<le> 90"

fun cmp_from :: "ptr \<Rightarrow> ptr \<Rightarrow> nat \<Rightarrow> nat \<Rightarrow> bool res" where
  "cmp_from str1 str2 i 0 = Ok True"
| "cmp_from str1 str2 i (Suc n) =
     res_bind (ptr_read str1 i) (\<lambda>c1.
     res_bind (ptr_read str2 i) (\<lambda>c2.
       if c1 \<noteq> c2
       then
         if IS_LOWERCASE c1 \<and> IS_UPPERCASE c2
         then (if sint c2 + 32 \<noteq> sint c1 then Ok False else cmp_from str1 str2 (Suc i) n)
         else if IS_UPPERCASE c1 \<and> IS_LOWERCASE c2
         then (if sint c1 + 32 \<noteq> sint c2 then Ok False else cmp_from str1 str2 (Suc i) n)
         else Ok False
       else cmp_from str1 str2 (Suc i) n))"

definition strcmpCaseIns :: "ptr \<Rightarrow> ptr \<Rightarrow> nat \<Rightarrow> bool res" where
  "strcmpCaseIns str1 str2 len = cmp_from str1 str2 0 len"

text \<open>
  \<open>strncmp\<close> of the C library, which the parsers call: bytes are compared as \<open>unsigned char\<close> up
  to \<open>n\<close> of them, stopping after a common terminator.
\<close>

fun strncmp_from :: "ptr \<Rightarrow> ptr \<Rightarrow> nat \<Rightarrow> nat \<Rightarrow> int res" where
  "strncmp_from s1 s2 i 0 = Ok 0"
| "strncmp_from s1 s2 i (Suc n) =
     res_bind (ptr_read s1 i) (\<lambda>c1.
     res_bind (ptr_read s2 i) (\<lambda>c2.
       if c1 \<noteq> c2 then Ok (uint c1 - uint c2)
       else if c1 = 0 then Ok 0
       else strncmp_from s1 s2 (Suc i) n))"

definition strncmp :: "ptr \<Rightarrow> ptr \<Rightarrow> nat \<Rightarrow> int res" where
  "strncmp s1 s2 n = strncmp_from s1 s2 0 n"

section \<open>Properties of the scanning functions\<close>

lemma scan_at:
  assumes "points_to string bs" "k < length bs" "k \<le> len" "stop (bs ! k)"
    and "index \<le> k" "\<And>j. index \<le> j \<Longrightarrow> j < k \<Longrightarrow> \<not> stop (bs ! j)"
  shows "scan stop string len index = Ok (int k)"
  using assms(5,6)
proof (induction "k - index" arbitrary: index)
  case 0
  then show ?case
    using assms(1-4) by (simp add: scan.simps[of _ _ _ index] points_to_read)
next
  case (Suc d)
  then have "index < k" by simp
  with Suc.prems(2) have "\<not> stop (bs ! index)" by simp
  moreover have "scan stop string len (Suc index) = Ok (int k)"
    using Suc.hyps Suc.prems \<open>index < k\<close> by simp
  ultimately show ?case
    using assms(1-3) \<open>index < k\<close> by (simp add: scan.simps[of _ _ _ index] points_to_read)
qed

lemma scan_none:
  assumes "points_to string bs" "len < length bs"
    and "\<And>j. index \<le> j \<Longrightarrow> j \<le> len \<Longrightarrow> \<not> stop (bs ! j)"
  shows "scan stop string len index = Ok (- 1)"
  using assms(3)
proof (induction "Suc len - index" arbitrary: index)
  case 0
  then show ?case by (simp add: scan.simps[of _ _ _ index])
next
  case (Suc d)
  then have le: "index \<le> len" by simp
  with Suc.prems have "\<not> stop (bs ! index)" by simp
  moreover have "scan stop string len (Suc index) = Ok (- 1)"
    using Suc.hyps Suc.prems le by simp
  ultimately show ?case
    using assms(1,2) le by (simp add: scan.simps[of _ _ _ index] points_to_read)
qed

text \<open>What the scan computes on a readable region, in one equation.\<close>

definition scan_index :: "(byte \<Rightarrow> bool) \<Rightarrow> byte list \<Rightarrow> int" where
  "scan_index stop bs =
     (let n = length (takeWhile (\<lambda>c. \<not> stop c) bs) in if n = length bs then - 1 else int n)"

lemma takeWhile_length_nth:
  "length (takeWhile P bs) < length bs \<Longrightarrow> \<not> P (bs ! length (takeWhile P bs))"
  by (rule nth_length_takeWhile)

lemma takeWhile_nth_holds: "j < length (takeWhile P bs) \<Longrightarrow> P (bs ! j)"
  by (metis nth_mem set_takeWhileD takeWhile_nth)

lemma scan_scan_index:
  assumes "points_to string bs" "length bs = Suc len"
  shows "scan stop string len 0 = Ok (scan_index stop bs)"
proof -
  let ?n = "length (takeWhile (\<lambda>c. \<not> stop c) bs)"
  have le: "?n \<le> length bs" by (rule length_takeWhile_le)
  have free: "\<not> stop (bs ! j)" if "j < ?n" for j
    using takeWhile_nth_holds[OF that] by simp
  show ?thesis
  proof (cases "?n = length bs")
    case True
    then show ?thesis
      using assms free by (simp add: scan_index_def scan_none[OF assms(1)])
  next
    case False
    then have lt: "?n < length bs" using le by simp
    from takeWhile_length_nth[OF lt] have "stop (bs ! ?n)" by simp
    with lt show ?thesis
      using assms free False by (simp add: scan_index_def scan_at[OF assms(1) lt])
  qed
qed

lemma scan_split:
  assumes "points_to string (xs @ c # ys)" "stop c" "\<forall>x \<in> set xs. \<not> stop x" "length xs \<le> len"
  shows "scan stop string len 0 = Ok (int (length xs))"
proof -
  have "\<not> stop ((xs @ c # ys) ! j)" if "j < length xs" for j
    using that assms(3) by (simp add: nth_append)
  then show ?thesis
    using assms by (intro scan_at[OF assms(1)]) simp_all
qed

lemma skip_from_at:
  assumes "points_to string bs" "k < length bs" "k < len" "bs ! k \<noteq> 32" "bs ! k \<noteq> 9"
    and "index \<le> k" "\<And>j. index \<le> j \<Longrightarrow> j < k \<Longrightarrow> bs ! j = 32 \<or> bs ! j = 9"
  shows "skip_from string len index = Ok (int k)"
  using assms(6,7)
proof (induction "k - index" arbitrary: index)
  case 0
  then show ?case
    using assms(1-5) by (simp add: skip_from.simps[of _ _ index] points_to_read)
next
  case (Suc d)
  then have lt: "index < k" by simp
  with Suc.prems(2) have "bs ! index = 32 \<or> bs ! index = 9" by simp
  moreover have "skip_from string len (Suc index) = Ok (int k)"
    using Suc.hyps Suc.prems lt by simp
  ultimately show ?case
    using assms(1-3) lt by (auto simp: skip_from.simps[of _ _ index] points_to_read)
qed

lemma skip_split:
  assumes "points_to string (xs @ c # ys)" "c \<noteq> 32" "c \<noteq> 9"
    and "\<forall>x \<in> set xs. x = 32 \<or> x = 9" "length xs < len"
  shows "skipBlankCharsInString string len = Ok (int (length xs))"
proof -
  have "(xs @ c # ys) ! j = 32 \<or> (xs @ c # ys) ! j = 9" if "j < length xs" for j
    using that assms(4) by (simp add: nth_append)
  then show ?thesis
    unfolding skipBlankCharsInString_def
    using assms by (intro skip_from_at[OF assms(1)]) simp_all
qed

lemma zero_from_at:
  assumes "points_to string bs" "k \<le> length bs" "k \<le> len"
    and "k < len \<Longrightarrow> k < length bs \<and> bs ! k = 0"
    and "index \<le> k" "\<And>j. index \<le> j \<Longrightarrow> j < k \<Longrightarrow> bs ! j \<noteq> 0"
  shows "zero_from string len index = Ok k"
  using assms(5,6)
proof (induction "k - index" arbitrary: index)
  case 0
  then have "index = k" by simp
  then show ?case
    using assms(1-4) by (simp add: zero_from.simps[of _ _ k] points_to_read)
next
  case (Suc d)
  then have lt: "index < k" by simp
  moreover have "zero_from string len (Suc index) = Ok k"
    using Suc.hyps Suc.prems lt by simp
  ultimately show ?case
    using assms(1-3) Suc.prems(2)[of index]
    by (simp add: zero_from.simps[of _ _ index] points_to_read)
qed

lemma findZero_split:
  assumes "points_to string (xs @ 0 # ys)" "0 \<notin> set xs" "xs \<noteq> []" "length xs \<le> len"
  shows "findZeroInString string len = Ok (int (length xs))"
proof -
  have "(xs @ 0 # ys) ! j \<noteq> 0" if "j < length xs" for j
    using that assms(2) by (metis nth_append nth_mem)
  then have "zero_from string len 0 = Ok (length xs)"
    using assms by (intro zero_from_at[OF assms(1)]) simp_all
  then show ?thesis
    using assms(3) by (simp add: findZeroInString_def)
qed

lemma findZero_empty:
  assumes "points_to string (0 # ys)"
  shows "findZeroInString string len = Err err_INTERNAL_BAD_ARG"
proof -
  have "zero_from string len 0 = Ok 0"
    using assms by (intro zero_from_at[OF assms]) simp_all
  then show ?thesis
    by (simp add: findZeroInString_def)
qed

section \<open>Message identifiers as bytes\<close>

lemma byte_sint: "sint (b :: byte) = (if uint b < 128 then uint b else uint b - 256)"
proof -
  have m: "uint b = sint b mod 256"
    by (simp add: uint_sint take_bit_eq_mod)
  have r: "- 128 \<le> sint b" "sint b < 128"
    using sint_ge[of b] sint_lt[of b] by simp_all
  show ?thesis
  proof (cases "0 \<le> sint b")
    case True
    with r have "sint b mod 256 = sint b" by (intro mod_pos_pos_trivial) simp_all
    with m r show ?thesis by simp
  next
    case False
    have "sint b mod 256 = (sint b + 256) mod 256" by simp
    also have "\<dots> = sint b + 256"
      using r False by (intro mod_pos_pos_trivial) simp_all
    finally show ?thesis using m r False by simp
  qed
qed

lemma uint_breakU16:
  "uint (fst (breakU16IntToBytes n)) = uint n div 256"
  "uint (snd (breakU16IntToBytes n)) = uint n mod 256"
proof -
  have "uint n div 256 < 256"
    using uint_lt2p[of n] by (simp add: div_less_iff_less_mult)
  then show "uint (fst (breakU16IntToBytes n)) = uint n div 256"
    by (simp add: breakU16IntToBytes_def unsigned_ucast_eq unsigned_drop_bit_eq
        take_bit_eq_mod drop_bit_eq_div uint_div mod_pos_pos_trivial pos_imp_zdiv_nonneg_iff)
  have "n AND 0xff = take_bit 8 n"
    by (simp add: take_bit_eq_mask mask_eq_exp_minus_1)
  then show "uint (snd (breakU16IntToBytes n)) = uint n mod 256"
    by (simp add: breakU16IntToBytes_def unsigned_ucast_eq unsigned_take_bit_eq take_bit_eq_mod
        uint_mod)
qed

lemma word16_of_int_cong: "a mod 65536 = b mod 65536 \<Longrightarrow> (word_of_int a :: 16 word) = word_of_int b"
  by (simp add: word_of_int_eq_iff take_bit_eq_mod)

lemma convert2Bytes_value:
  "convert2BytesToU16Int low high = word_of_int (sint low + 256 * uint high)"
  unfolding convert2BytesToU16Int_def
proof (rule word16_of_int_cong)
  have "\<exists>k. sint high = uint high + 256 * k"
    by (rule exI[of _ "if uint high < 128 then 0 else - 1"]) (simp add: byte_sint)
  then obtain k where "sint high = uint high + 256 * k" ..
  then have "sint low + sint high * 2 ^ 8 = sint low + 256 * uint high + 65536 * k"
    by simp
  then show "(sint low + sint high * 2 ^ 8) mod 65536 = (sint low + 256 * uint high) mod 65536"
    by (simp only: mod_mult_self2)
qed

lemma word_of_int_uint16 [simp]: "(word_of_int (uint (n :: 16 word)) :: 16 word) = n"
  by simp

lemma convert2Bytes_inject:
  "convert2BytesToU16Int low high = convert2BytesToU16Int low' high' \<longleftrightarrow> low = low' \<and> high = high'"
proof
  assume "convert2BytesToU16Int low high = convert2BytesToU16Int low' high'"
  then have "(word_of_int (sint low + 256 * uint high) :: 16 word)
      = word_of_int (sint low' + 256 * uint high')"
    by (simp only: convert2Bytes_value)
  then have *: "(sint low + 256 * uint high) mod 65536 = (sint low' + 256 * uint high') mod 65536"
    by (simp only: word_of_int_eq_iff take_bit_eq_mod) simp
  have b: "0 \<le> uint x" "uint x < 256" for x :: byte
    using uint_lt2p[of x] by simp_all
  have "(sint x + 256 * uint y) mod 65536 mod 256 = sint x mod 256" for x y :: byte
    by (simp add: mod_mod_cancel)
  with * have "sint low mod 256 = sint low' mod 256" by metis
  then have "uint low = uint low'"
    by (simp add: uint_sint take_bit_eq_mod)
  then have low: "low = low'" by (simp add: word_uint_eq_iff)
  with * have "65536 dvd (sint low + 256 * uint high) - (sint low + 256 * uint high')"
    by (simp only: mod_eq_dvd_iff)
  then obtain k where "256 * uint high - 256 * uint high' = 65536 * k"
    by (auto simp: dvd_def)
  then have "uint high - uint high' = 256 * k" by simp
  moreover from this b[of high] b[of high'] have "k < 1" "- 1 < k" by linarith+
  ultimately have "uint high = uint high'" by simp
  then have "high = high'" by (simp add: word_uint_eq_iff)
  with low show "low = low' \<and> high = high'" by simp
qed simp

section \<open>String comparison\<close>

lemma uint_eq_uint [simp]: "uint (a :: byte) = uint b \<longleftrightarrow> a = b"
  by (simp add: word_uint_eq_iff)

lemma sint_minus_one: "sint (e :: byte) = - 1 \<longleftrightarrow> e = 255"
proof -
  have "0 \<le> uint e" by simp
  then have "sint e = - 1 \<longleftrightarrow> uint e = 255" unfolding byte_sint by arith
  then show ?thesis using uint_eq_uint[of e 255] by simp
qed

text \<open>The part of a string that \<open>strncmp\<close> with bound \<open>n\<close> compares.\<close>

definition cstr :: "nat \<Rightarrow> byte list \<Rightarrow> byte list" where
  "cstr n xs = takeWhile (\<lambda>c. c \<noteq> 0) (take n xs)"

lemma strncmp_from_value:
  assumes "points_to s1 xs" "points_to s2 ys" "i + n \<le> length xs" "i + n \<le> length ys"
  shows "\<exists>r. strncmp_from s1 s2 i n = Ok r \<and>
             (r = 0 \<longleftrightarrow> cstr n (drop i xs) = cstr n (drop i ys))"
  using assms(3,4)
proof (induction n arbitrary: i)
  case 0
  then show ?case by (simp add: cstr_def)
next
  case (Suc n)
  then have i: "i < length xs" "i < length ys" by auto
  have "drop i xs = xs ! i # drop (Suc i) xs" "drop i ys = ys ! i # drop (Suc i) ys"
    using i by (simp_all add: Cons_nth_drop_Suc)
  moreover have "\<exists>r. strncmp_from s1 s2 (Suc i) n = Ok r \<and>
      (r = 0 \<longleftrightarrow> cstr n (drop (Suc i) xs) = cstr n (drop (Suc i) ys))"
    using Suc by simp
  ultimately show ?case
    using i assms(1,2) by (auto simp: points_to_read cstr_def uint_0_iff)
qed

lemma strncmp_value:
  assumes "points_to s1 xs" "points_to s2 ys" "n \<le> length xs" "n \<le> length ys"
  obtains r where "strncmp s1 s2 n = Ok r" "r = 0 \<longleftrightarrow> cstr n xs = cstr n ys"
  using strncmp_from_value[OF assms(1,2), of 0 n] assms(3,4) by (auto simp: strncmp_def)

lemma strncmp_eq:
  assumes "points_to s1 xs" "points_to s2 ys" "n \<le> length xs" "n \<le> length ys"
    and "take n xs = take n ys"
  shows "strncmp s1 s2 n = Ok 0"
  using strncmp_value[OF assms(1-4)] assms(5) by (metis cstr_def)

lemma strncmp_from_differ:
  assumes "points_to s1 xs" "points_to s2 ys" "i \<le> k" "k < length xs" "k < length ys" "k < i + n"
    and "\<And>j. i \<le> j \<Longrightarrow> j < k \<Longrightarrow> xs ! j = ys ! j"
    and "\<And>j. i \<le> j \<Longrightarrow> j < k \<Longrightarrow> ys ! j \<noteq> 0" "xs ! k \<noteq> ys ! k"
  shows "\<exists>r. strncmp_from s1 s2 i n = Ok r \<and> r \<noteq> 0"
  using assms(3,6,7,8)
proof (induction n arbitrary: i)
  case 0
  then show ?case by simp
next
  case (Suc n)
  show ?case
  proof (cases "i = k")
    case True
    then show ?thesis
      using assms(1,2,4,5,9) by (simp add: points_to_read)
  next
    case False
    then have "i < k" using Suc.prems by simp
    then have "\<exists>r. strncmp_from s1 s2 (Suc i) n = Ok r \<and> r \<noteq> 0"
      using Suc.prems by (intro Suc.IH) auto
    then show ?thesis
      using assms(1,2,4,5) \<open>i < k\<close> Suc.prems(3,4)[of i] by (simp add: points_to_read)
  qed
qed

lemma strncmp_differ:
  assumes "points_to s1 xs" "points_to s2 ys" "k < length xs" "k < length ys" "k < n"
    and "take k xs = take k ys" "0 \<notin> set (take k xs)" "xs ! k \<noteq> ys ! k"
  obtains r where "strncmp s1 s2 n = Ok r" "r \<noteq> 0"
proof -
  have eq: "xs ! j = ys ! j" if "j < k" for j
    using assms(6) that by (metis nth_take)
  have "ys ! j \<noteq> 0" if "j < k" for j
    using assms(3,7) that eq by (metis in_set_conv_nth length_take min.absorb4 nth_take)
  with eq have "\<exists>r. strncmp_from s1 s2 0 n = Ok r \<and> r \<noteq> 0"
    using assms(3-5,8) by (intro strncmp_from_differ[OF assms(1,2), of 0 k]) simp_all
  then show thesis
    using that by (auto simp: strncmp_def)
qed

definition to_lower :: "byte \<Rightarrow> byte" where
  "to_lower c = (if IS_UPPERCASE c then c + 32 else c)"

lemma IS_LOWERCASE_uint: "IS_LOWERCASE c \<longleftrightarrow> 97 \<le> uint c \<and> uint c \<le> 122"
  using uint_lt2p[of c] by (auto simp: IS_LOWERCASE_def byte_sint)

lemma IS_UPPERCASE_uint: "IS_UPPERCASE c \<longleftrightarrow> 65 \<le> uint c \<and> uint c \<le> 90"
  using uint_lt2p[of c] by (auto simp: IS_UPPERCASE_def byte_sint)

lemma uint_to_lower: "uint (to_lower c) = (if IS_UPPERCASE c then uint c + 32 else uint c)"
  by (simp add: to_lower_def IS_UPPERCASE_uint uint_word_ariths)

lemma to_lower_eq_iff:
  "to_lower c1 = to_lower c2 \<longleftrightarrow>
     c1 = c2 \<or> IS_LOWERCASE c1 \<and> IS_UPPERCASE c2 \<and> sint c2 + 32 = sint c1
             \<or> IS_UPPERCASE c1 \<and> IS_LOWERCASE c2 \<and> sint c1 + 32 = sint c2"
proof -
  have "to_lower c1 = to_lower c2 \<longleftrightarrow> uint (to_lower c1) = uint (to_lower c2)"
    by simp
  moreover have "c1 = c2 \<longleftrightarrow> uint c1 = uint c2" by simp
  moreover have "IS_LOWERCASE c \<or> IS_UPPERCASE c \<Longrightarrow> sint c = uint c" for c
    by (auto simp: byte_sint IS_LOWERCASE_uint IS_UPPERCASE_uint)
  ultimately show ?thesis
    unfolding uint_to_lower
    by (cases "IS_UPPERCASE c1"; cases "IS_UPPERCASE c2")
      (auto simp: IS_LOWERCASE_uint IS_UPPERCASE_uint simp del: uint_eq_uint)
qed

lemma not_lower_and_upper: "\<not> (IS_LOWERCASE c \<and> IS_UPPERCASE c)"
  by (auto simp: IS_LOWERCASE_def IS_UPPERCASE_def)

lemma cmp_from_value:
  assumes "points_to s1 xs" "points_to s2 ys" "i + n \<le> length xs" "i + n \<le> length ys"
  shows "cmp_from s1 s2 i n =
           Ok (map to_lower (take n (drop i xs)) = map to_lower (take n (drop i ys)))"
  using assms(3,4)
proof (induction n arbitrary: i)
  case 0
  then show ?case by simp
next
  case (Suc n)
  then have i: "i < length xs" "i < length ys" by auto
  then have "drop i xs = xs ! i # drop (Suc i) xs" "drop i ys = ys ! i # drop (Suc i) ys"
    by (simp_all add: Cons_nth_drop_Suc)
  then show ?case
    using Suc i assms(1,2) to_lower_eq_iff[of "xs ! i" "ys ! i"]
      not_lower_and_upper[of "xs ! i"]
    by (auto simp: points_to_read)
qed


section \<open>Words\<close>

text \<open>
  \<open>getWord\<close> on a line: blanks, a word, and a blank that ends it. The bound the scan for the end
  of the word uses is the size of the rest of the buffer.
\<close>

lemma ptr_add_points:
  "points_to p (xs @ ys) \<Longrightarrow> length xs < 2 ^ 64 \<Longrightarrow>
     points_to (ptr_add p (size_of_long (int (length xs)))) ys"
  by (simp add: size_of_long_nat points_to_add)

lemma getWord_ok:
  assumes "points_to p (xs @ w @ c # ys)" "\<forall>x \<in> set xs. x = 32 \<or> x = 9"
    and "w \<noteq> []" "\<forall>x \<in> set w. \<not> is_blank x" "is_blank c"
    and "length xs < n" "length w \<le> n" "n < 2 ^ 64" "bb_len block = 0"
  shows "getWord block p n
    = Ok (True, \<lparr>bb_start = ptr_add p (length xs), bb_len = length w\<rparr>)"
proof -
  obtain b w' where w: "w = b # w'" using assms(3) by (cases w) auto
  then have b: "b \<noteq> 32" "b \<noteq> 9" using assms(4) by (auto simp: is_blank_def)
  have "points_to p (xs @ b # (w' @ c # ys))"
    using assms(1) w by simp
  then have skip: "skipBlankCharsInString p n = Ok (int (length xs))"
    using b assms(2,6) by (rule skip_split)
  have sz: "size_of_long (int (length xs)) = length xs" "size_of_long (int (length w)) = length w"
    "size_sub n 0 = n"
    using assms(6-8) by (simp_all add: size_of_long_nat size_sub_le)
  have "points_to (ptr_add p (length xs)) (w @ c # ys)"
    using assms(1) by (rule points_to_add)
  then have "findBlankCharInString (ptr_add p (length xs)) n = Ok (int (length w))"
    unfolding findBlankCharInString_def using assms(4,5,7) by (intro scan_split) auto
  moreover have "p \<noteq> None" using assms(1) by (cases p) (simp_all add: points_to_def)
  ultimately show ?thesis
    using skip sz assms(3,6,9) by (cases block) (simp add: getWord_def)
qed

lemma message_id_value:
  "convert2BytesToU16Int (snd (breakU16IntToBytes n)) (fst (breakU16IntToBytes n))
     = (if uint n mod 256 < 128 then n else n - 256)"
proof -
  have "sint (snd (breakU16IntToBytes n)) + 256 * uint (fst (breakU16IntToBytes n))
      = (if uint n mod 256 < 128 then uint n else uint n - 256)"
    using mult_div_mod_eq[of 256 "uint n"] by (simp add: byte_sint uint_breakU16)
  then show ?thesis
    by (simp add: convert2Bytes_value)
qed

section \<open>Properties\<close>

text \<open>C32: a message identifier written by \<open>breakU16IntToBytes\<close> and read back by
  \<open>convert2BytesToU16Int\<close> is unchanged exactly when its low byte is below 128; otherwise the sign
  of the low byte makes the result 256 too small (modulo \<open>2 ^ 16\<close>).\<close>

theorem message_id_roundtrip:
  "convert2BytesToU16Int (snd (breakU16IntToBytes n)) (fst (breakU16IntToBytes n))
     = (if uint n mod 256 < 128 then n else n - 256)"
  by (rule message_id_value)

text \<open>C34: \<open>strcmpCaseIns\<close> decides equality of the two strings up to the case of ASCII letters,
  and of nothing else.\<close>

theorem strcmpCaseIns_spec:
  assumes "points_to s1 xs" "points_to s2 ys" "len \<le> length xs" "len \<le> length ys"
  shows "strcmpCaseIns s1 s2 len = Ok (map to_lower (take len xs) = map to_lower (take len ys))"
  using cmp_from_value[OF assms(1,2), of 0 len] assms(3,4) by (simp add: strcmpCaseIns_def)

theorem strcmpCaseIns_spec_witness:
  "strcmpCaseIns (literal ''aaa'') (literal ''aAA'') 3
     = Ok (map to_lower (take 3 (bytes_of ''aaa'' @ [0])) = map to_lower (take 3 (bytes_of ''aAA'' @ [0])))"
  by (rule strcmpCaseIns_spec) (simp_all add: points_to_def literal_def bytes_of_def)

text \<open>The two scans for an ending character return the index of the first blank (first
  line end) among the \<open>len + 1\<close> bytes they look at, and \<open>-1\<close> when there is none; they return
  on every such input.\<close>

theorem scans_find_first:
  assumes "points_to string bs" "length bs = Suc len"
  shows "findBlankCharInString string len = Ok (scan_index is_blank bs) \<and>
    findNewLineInString string len = Ok (scan_index is_line_end bs)"
  using scan_scan_index[OF assms] by (simp_all add: findBlankCharInString_def findNewLineInString_def)

theorem scans_find_first_witness:
  "findBlankCharInString (literal ''ab c'') 4 = Ok (scan_index is_blank (bytes_of ''ab c'' @ [0])) \<and>
   findNewLineInString (literal ''ab c'') 4 = Ok (scan_index is_line_end (bytes_of ''ab c'' @ [0]))"
  by (rule scans_find_first) (simp_all add: points_to_def literal_def bytes_of_def)

text \<open>\<open>getWord\<close> on a string that starts with blanks, then a word and a blank: it succeeds
  and the block is exactly the word.\<close>

theorem getWord_word:
  assumes "points_to p (xs @ w @ c # ys)" "\<forall>x \<in> set xs. x = 32 \<or> x = 9"
    and "w \<noteq> []" "\<forall>x \<in> set w. \<not> is_blank x" "is_blank c"
    and "length xs < n" "length w \<le> n" "n < 2 ^ 64" "bb_len block = 0"
  shows "\<exists>block'. getWord block p n = Ok (True, block') \<and> bb_len block' = length w \<and>
    points_to (bb_start block') (w @ c # ys)"
  using getWord_ok[OF assms] points_to_add[OF assms(1)] by simp

theorem getWord_word_witness:
  "\<exists>block'. getWord \<lparr>bb_start = None, bb_len = 0\<rparr> (literal '' xy z'') 5 = Ok (True, block') \<and>
     bb_len block' = length (bytes_of ''xy'') \<and>
     points_to (bb_start block') (bytes_of ''xy'' @ 32 # [122, 0])"
  by (rule getWord_word[of _ "[32]"])
    (use points_to_literal[of "'' xy z''"] in \<open>simp_all add: bytes_of_def is_blank_def\<close>)

end
