(* ===== verification/Chat_Buffer.thy ===== *)
theory Chat_Buffer
  imports Chat_Utils
begin

text \<open>
  The growable byte buffer of \<open>libs/buffer.c\<close>. A buffer owns one memory object
  (\<open>data\<close>, \<open>None\<close> for \<open>NULL\<close>) and records how many bytes are \<open>allocated\<close> and
  \<open>used\<close>. The allocator is a parameter: \<open>alloc n\<close> says whether a request for \<open>n\<close> bytes
  is granted.
\<close>

section \<open>Data and operations\<close>

type_synonym allocator = "nat \<Rightarrow> bool"

record Buffer =
  data :: "cell list option"
  allocated :: nat
  used :: nat

definition INITIAL_BUFFER_SIZE :: nat where
  "INITIAL_BUFFER_SIZE = 256"

definition bufferInit :: Buffer where
  "bufferInit = \<lparr>data = None, allocated = 0, used = 0\<rparr>"

text \<open>What \<open>realloc\<close> to a larger size leaves: the old bytes, then indeterminate ones.\<close>

definition realloc_mem :: "cell list option \<Rightarrow> nat \<Rightarrow> cell list" where
  "realloc_mem d n =
     (let old = (case d of None \<Rightarrow> [] | Some m \<Rightarrow> m)
      in take n old @ replicate (n - length old) None)"

definition bufferResize :: "allocator \<Rightarrow> Buffer \<Rightarrow> nat \<Rightarrow> Buffer res" where
  "bufferResize alloc buffer newSize =
     (if newSize \<le> allocated buffer then Ok buffer
      else if \<not> alloc newSize then Err err_MEMORY_FAIL
      else Ok (buffer\<lparr>data := Some (realloc_mem (data buffer) newSize), allocated := newSize\<rparr>))"

text \<open>\<open>buffer->data[i] = c\<close>, and the pointer \<open>buffer->data\<close> as a value.\<close>

definition buf_write :: "Buffer \<Rightarrow> nat \<Rightarrow> byte \<Rightarrow> Buffer res" where
  "buf_write buffer i c =
     (case data buffer of
        None \<Rightarrow> Fault Null_Deref
      | Some m \<Rightarrow> if i < length m then Ok (buffer\<lparr>data := Some (m[i := Some c])\<rparr>)
                   else Fault Out_Of_Bounds)"

definition buf_ptr :: "Buffer \<Rightarrow> ptr" where
  "buf_ptr buffer = map_option (\<lambda>m. (m, 0)) (data buffer)"

text \<open>The loop of \<open>bufferCopy\<close>; with nothing to copy no pointer is followed.\<close>

definition buf_copy_loop :: "Buffer \<Rightarrow> Buffer \<Rightarrow> Buffer res" where
  "buf_copy_loop dst src =
     (if used src = 0 then Ok dst
      else case (data dst, data src) of
        (Some m, Some m') \<Rightarrow>
          res_bind (copy_bytes m 0 m' 0 (used src)) (\<lambda>m. Ok (dst\<lparr>data := Some m\<rparr>))
      | _ \<Rightarrow> Fault Null_Deref)"

definition bufferCopy :: "allocator \<Rightarrow> Buffer option \<Rightarrow> Buffer option \<Rightarrow> Buffer res" where
  "bufferCopy alloc dst src =
     (case (dst, src) of
        (Some dst, Some src) \<Rightarrow>
          res_bind (if allocated dst < used src then bufferResize alloc dst (used src) else Ok dst)
            (\<lambda>dst.
          res_bind (buf_copy_loop dst src) (\<lambda>dst.
          Ok (dst\<lparr>used := used src\<rparr>)))
      | _ \<Rightarrow> Err err_INTERNAL_BAD_ARG)"

text \<open>
  \<open>char c = getc(stdin)\<close>: the input still to be read is a list of bytes, and the end of the
  input is \<open>EOF\<close>, which the conversion to \<open>char\<close> turns into the byte \<open>0xFF\<close>.
\<close>

fun getc_char :: "byte list \<Rightarrow> byte \<times> byte list" where
  "getc_char [] = (0xFF, [])"
| "getc_char (b # bs) = (b, bs)"

function load_loop ::
  "allocator \<Rightarrow> Buffer \<Rightarrow> byte \<Rightarrow> byte list \<Rightarrow> nat \<Rightarrow> (Buffer \<times> byte \<times> byte list \<times> nat) res"
where
  "load_loop alloc buffer c stdin i =
     (if isEndingCharacter c \<noteq> 0
      then
        res_bind
          (if data buffer = None \<or> allocated buffer \<le> 0
           then bufferResize alloc buffer INITIAL_BUFFER_SIZE
           else if allocated buffer - 1 < i
           then bufferResize alloc buffer (allocated buffer * 2)
           else Ok buffer) (\<lambda>buffer.
        res_bind (buf_write buffer i c) (\<lambda>buffer.
        load_loop alloc buffer (fst (getc_char stdin)) (snd (getc_char stdin)) (Suc i)))
      else Ok (buffer, c, stdin, i))"
  by pat_completeness auto

lemma isEndingCharacter_EOF [simp]: "isEndingCharacter 255 = 0"
  by (simp add: isEndingCharacter_def)

termination load_loop
proof (relation "measure (\<lambda>(alloc, buffer, c, stdin, i).
    length stdin + (if isEndingCharacter c \<noteq> 0 then 1 else 0))", simp)
  fix alloc buffer c stdin i b b'
  assume "isEndingCharacter c \<noteq> 0"
  then show "((alloc, b', fst (getc_char stdin), snd (getc_char stdin), Suc i),
      (alloc, buffer, c, stdin, i)) \<in> measure (\<lambda>(alloc, buffer, c, stdin, i).
    length stdin + (if isEndingCharacter c \<noteq> 0 then 1 else 0))"
    by (cases stdin) auto
qed

declare load_loop.simps [simp del]

text \<open>
  The result is the buffer, \<open>*eofDetected\<close>, the rest of the input and the returned length.
\<close>

definition loadBufferFromStdin ::
  "allocator \<Rightarrow> Buffer \<Rightarrow> bool \<Rightarrow> byte list \<Rightarrow> (Buffer \<times> bool \<times> byte list \<times> nat) res"
where
  "loadBufferFromStdin alloc buffer eofDetected stdin =
     res_bind (load_loop alloc buffer (fst (getc_char stdin)) (snd (getc_char stdin)) 0)
       (\<lambda>(buffer, c, stdin, i).
     let eofDetected = (if sint c = - 1 then True else eofDetected) in
     res_bind (buf_write buffer i 0) (\<lambda>buffer.
     Ok (buffer, eofDetected, stdin, i)))"

text \<open>
  \<open>bufferPrint\<close>: alphanumeric bytes as they are, every other byte as its number in
  parentheses; the result is what is printed.
\<close>

datatype printed = Printed_Char byte | Printed_Hex byte | Printed_Newline

fun print_from :: "ptr \<Rightarrow> nat \<Rightarrow> nat \<Rightarrow> printed list res" where
  "print_from p i 0 = Ok []"
| "print_from p i (Suc n) =
     res_bind (ptr_read p i) (\<lambda>c.
     res_bind (print_from p (Suc i) n) (\<lambda>out.
       Ok ((if (sint c \<ge> 97 \<and> sint c \<le> 122) \<or> (sint c \<ge> 65 \<and> sint c \<le> 90)
               \<or> (sint c \<ge> 48 \<and> sint c \<le> 57)
            then Printed_Char c else Printed_Hex c) # out)))"

definition bufferPrint :: "Buffer \<Rightarrow> printed list res" where
  "bufferPrint buffer =
     (if data buffer = None \<or> used buffer = 0 then Ok []
      else res_bind (print_from (buf_ptr buffer) 0 (used buffer)) (\<lambda>out.
             Ok (out @ [Printed_Newline])))"

text \<open>\<open>bufferDestroy\<close> frees the memory object if there is one; the fields keep their values, so
  the model only says whether \<open>free\<close> was called.\<close>

definition bufferDestroy :: "Buffer \<Rightarrow> bool" where
  "bufferDestroy buffer \<longleftrightarrow> data buffer \<noteq> None"

section \<open>Well-formed buffers\<close>

text \<open>\<open>allocated\<close> is the size of the object and \<open>used\<close> stays within it.\<close>

definition buffer_wf :: "Buffer \<Rightarrow> bool" where
  "buffer_wf b \<longleftrightarrow>
     (case data b of
        None \<Rightarrow> allocated b = 0
      | Some m \<Rightarrow> length m = allocated b \<and> 0 < allocated b) \<and>
     used b \<le> allocated b \<and> allocated b < 2 ^ 64"

lemma buffer_wf_init [simp]: "buffer_wf bufferInit"
  by (simp add: buffer_wf_def bufferInit_def)

lemma buffer_wf_cases:
  assumes "buffer_wf b"
  obtains (null) "data b = None" "allocated b = 0" "used b = 0"
    | (object) m where "data b = Some m" "length m = allocated b" "0 < allocated b"
        "used b \<le> allocated b" "allocated b < 2 ^ 64"
  using assms by (auto simp: buffer_wf_def split: option.splits)

lemma length_realloc_mem [simp]: "length (realloc_mem d n) = n"
  by (auto simp: realloc_mem_def Let_def split: option.splits)

lemma take_realloc_mem [mem_simps]:
  "k \<le> length m \<Longrightarrow> k \<le> n \<Longrightarrow> take k (realloc_mem (Some m) n) = take k m"
  by (simp add: realloc_mem_def min_def)

text \<open>A resize that is granted: its effect on the three fields.\<close>

lemma bufferResize_ok:
  assumes "buffer_wf b" "alloc n" "n < 2 ^ 64"
  obtains b' where "bufferResize alloc b n = Ok b'" "buffer_wf b'" "used b' = used b"
    "allocated b' = max (allocated b) n"
    "\<And>m. data b = Some m \<Longrightarrow> \<exists>m'. data b' = Some m' \<and> take (length m) m' = m"
proof (cases "n \<le> allocated b")
  case True
  then show thesis
    using assms that[of b] by (simp add: bufferResize_def)
next
  case False
  let ?b = "b\<lparr>data := Some (realloc_mem (data b) n), allocated := n\<rparr>"
  have "buffer_wf ?b"
    using assms(1,3) False by (auto simp: buffer_wf_def split: option.splits)
  moreover have "take (length m) (realloc_mem (data b) n) = m" if "data b = Some m" for m
    using that assms(1) False by (simp add: take_realloc_mem buffer_wf_def)
  ultimately show thesis
    using False assms(2) by (intro that[of ?b]) (auto simp: bufferResize_def)
qed

lemma bufferResize_wf:
  "buffer_wf b \<Longrightarrow> n < 2 ^ 64 \<Longrightarrow> bufferResize alloc b n = Ok b' \<Longrightarrow> buffer_wf b'"
  by (auto simp: bufferResize_def buffer_wf_def split: if_splits option.splits)

lemma bufferResize_no_fault: "bufferResize alloc b n \<noteq> Fault e"
  by (simp add: bufferResize_def)

section \<open>Copying a buffer\<close>

text \<open>The bytes in use.\<close>

definition contents :: "Buffer \<Rightarrow> cell list" where
  "contents b = (case data b of None \<Rightarrow> [] | Some m \<Rightarrow> take (used b) m)"

lemma length_contents [simp]: "buffer_wf b \<Longrightarrow> length (contents b) = used b"
  by (auto simp: contents_def buffer_wf_def split: option.splits)

lemma buf_copy_loop_ok:
  assumes "buffer_wf dst" "buffer_wf src" "used src \<le> allocated dst"
  obtains b where "buf_copy_loop dst src = Ok b" "allocated b = allocated dst"
    "buffer_wf (b\<lparr>used := used src\<rparr>)" "contents (b\<lparr>used := used src\<rparr>) = contents src"
proof (cases "used src = 0")
  case True
  have "contents (dst\<lparr>used := 0\<rparr>) = []" "contents src = []"
    using True by (simp_all add: contents_def split: option.splits)
  moreover have "buffer_wf (dst\<lparr>used := 0\<rparr>)"
    using assms(1) by (auto simp: buffer_wf_def split: option.splits)
  ultimately show thesis
    using True by (intro that[of dst]) (simp_all add: buf_copy_loop_def)
next
  case False
  with assms(2) obtain s where s: "data src = Some s" "used src \<le> length s"
    by (auto simp: buffer_wf_def split: option.splits)
  from False assms(1,3) obtain d where d: "data dst = Some d" "length d = allocated dst"
    by (auto simp: buffer_wf_def split: option.splits)
  let ?m = "overlay d 0 (take (used src) s)"
  have "buf_copy_loop dst src = Ok (dst\<lparr>data := Some ?m\<rparr>)"
    using s d assms(3) False by (simp add: buf_copy_loop_def copy_bytes_ok)
  moreover have "length ?m = allocated dst"
    using s d assms(3) by (simp add: min_def)
  moreover have "take (used src) ?m = take (used src) s"
    using s by (simp add: overlay_def min_def)
  ultimately show thesis
    using s d assms(1,3)
    by (intro that[of "dst\<lparr>data := Some ?m\<rparr>"]) (auto simp: contents_def buffer_wf_def)
qed

lemma bufferCopy_ok:
  assumes "buffer_wf dst" "buffer_wf src" "alloc (used src)"
  obtains b where "bufferCopy alloc (Some dst) (Some src) = Ok b" "buffer_wf b"
    "used b = used src" "contents b = contents src"
proof -
  have lt: "used src < 2 ^ 64"
    using assms(2) by (simp add: buffer_wf_def)
  obtain dst' where dst': "(if allocated dst < used src then bufferResize alloc dst (used src)
      else Ok dst) = Ok dst'" "buffer_wf dst'" "used src \<le> allocated dst'"
  proof (cases "allocated dst < used src")
    case True
    then show thesis
      using that by (cases rule: bufferResize_ok[of dst alloc "used src", OF assms(1,3) lt]) auto
  next
    case False
    then show thesis
      using that[of dst] assms(1) by simp
  qed
  obtain b where "buf_copy_loop dst' src = Ok b"
    "buffer_wf (b\<lparr>used := used src\<rparr>)" "contents (b\<lparr>used := used src\<rparr>) = contents src"
    using buf_copy_loop_ok[OF dst'(2) assms(2) dst'(3)] by blast
  then show thesis
    using dst'(1) by (intro that[of "b\<lparr>used := used src\<rparr>"]) (simp_all add: bufferCopy_def)
qed

section \<open>Reading a line\<close>

text \<open>
  The capacity of a buffer after \<open>n\<close> bytes of a line were stored, when it had \<open>a\<close> bytes
  before: it starts at \<^const>\<open>INITIAL_BUFFER_SIZE\<close> and doubles when it is full.
\<close>

fun capacity :: "nat \<Rightarrow> nat \<Rightarrow> nat" where
  "capacity a 0 = a"
| "capacity a (Suc n) =
     (let c = capacity a n in if c = 0 then INITIAL_BUFFER_SIZE else if c \<le> n then c * 2 else c)"

lemma capacity_ge: "n \<le> capacity a n"
  by (induction n) (auto simp: Let_def INITIAL_BUFFER_SIZE_def)

lemma capacity_le_Suc: "capacity a n \<le> capacity a (Suc n)"
  by (simp add: Let_def)

lemma capacity_mono: "m \<le> n \<Longrightarrow> capacity a m \<le> capacity a n"
  by (rule lift_Suc_mono_le[of "capacity a"]) (rule capacity_le_Suc)

text \<open>Storing one more byte of the line: the resize of the loop body, then the write.\<close>

definition load_grow :: "allocator \<Rightarrow> Buffer \<Rightarrow> nat \<Rightarrow> Buffer res" where
  "load_grow alloc b i =
     (if data b = None \<or> allocated b \<le> 0 then bufferResize alloc b INITIAL_BUFFER_SIZE
      else if allocated b - 1 < i then bufferResize alloc b (allocated b * 2)
      else Ok b)"

text \<open>The buffer after \<open>xs\<close> was stored, from a buffer of \<open>a\<close> bytes with \<open>u\<close> in use.\<close>

definition loaded :: "nat \<Rightarrow> nat \<Rightarrow> byte list \<Rightarrow> Buffer \<Rightarrow> bool" where
  "loaded a u xs b \<longleftrightarrow>
     buffer_wf b \<and> used b = u \<and> allocated b = capacity a (length xs) \<and>
     (xs \<noteq> [] \<longrightarrow> data b \<noteq> None) \<and>
     (case data b of None \<Rightarrow> True | Some m \<Rightarrow> take (length xs) m = map Some xs)"

lemma load_grow_ok:
  assumes "loaded a u xs b" "\<forall>n. alloc n" "capacity a (Suc (length xs)) < 2 ^ 64"
  obtains b' m where "load_grow alloc b (length xs) = Ok b'" "buffer_wf b'" "used b' = u"
    "allocated b' = capacity a (Suc (length xs))" "data b' = Some m"
    "take (length xs) m = map Some xs"
proof -
  have wf: "buffer_wf b" and cap: "allocated b = capacity a (length xs)"
    using assms(1) by (simp_all add: loaded_def)
  have ok: "alloc n" for n using assms(2) by simp
  from wf show thesis
  proof (cases rule: buffer_wf_cases)
    case null
    then have xs: "xs = []" using assms(1) by (auto simp: loaded_def)
    then have c: "capacity a (Suc (length xs)) = INITIAL_BUFFER_SIZE"
      using null cap by (simp add: Let_def)
    have g: "load_grow alloc b (length xs) = bufferResize alloc b INITIAL_BUFFER_SIZE"
      using null by (simp add: load_grow_def)
    show thesis
    proof (cases rule: bufferResize_ok[of b alloc "capacity a (Suc (length xs))", OF wf ok assms(3)])
      case (1 b')
      then have "allocated b' \<noteq> 0" using null c by (simp add: INITIAL_BUFFER_SIZE_def)
      then obtain m where "data b' = Some m"
        using 1(2) by (auto simp: buffer_wf_def split: option.splits)
      then show thesis
        using 1 g c xs null assms(1) by (intro that[of b' m]) (simp_all add: loaded_def)
    qed
  next
    case (object m)
    then have xs: "take (length xs) m = map Some xs"
      using assms(1) by (simp add: loaded_def)
    show thesis
    proof (cases "allocated b \<le> length xs")
      case True
      then have c: "capacity a (Suc (length xs)) = allocated b * 2"
        using cap object by (simp add: Let_def)
      have g: "load_grow alloc b (length xs) = bufferResize alloc b (allocated b * 2)"
        using True object by (auto simp: load_grow_def)
      have len: "length xs \<le> length m"
        using capacity_ge[of "length xs" a] cap object by simp
      show thesis
      proof (cases rule: bufferResize_ok[of b alloc "capacity a (Suc (length xs))", OF wf ok assms(3)])
        case (1 b')
        then obtain m' where m': "data b' = Some m'" "take (length m) m' = m"
          using object by blast
        then have "take (length xs) m' = take (length xs) m"
          using len by (metis min.absorb1 take_take)
        then show thesis
          using 1 g c xs m' assms(1) by (intro that[of b' m']) (simp_all add: loaded_def)
      qed
    next
      case False
      then have "load_grow alloc b (length xs) = Ok b" "capacity a (Suc (length xs)) = allocated b"
        using object cap by (auto simp: load_grow_def Let_def)
      then show thesis
        using that[of b m] wf object xs assms(1) by (simp add: loaded_def)
    qed
  qed
qed

lemma load_step:
  assumes "loaded a u xs b" "\<forall>n. alloc n" "capacity a (Suc (length xs)) < 2 ^ 64"
  obtains b' where
    "res_bind (load_grow alloc b (length xs)) (\<lambda>b. buf_write b (length xs) c) = Ok b'"
    "loaded a u (xs @ [c]) b'"
proof (cases rule: load_grow_ok[OF assms])
  case (1 b1 m)
  have i: "length xs < length m"
    using capacity_ge[of "Suc (length xs)" a] 1(2,4,5) by (simp add: buffer_wf_def)
  let ?b = "b1\<lparr>data := Some (m[length xs := Some c])\<rparr>"
  have "take (Suc (length xs)) (m[length xs := Some c]) = map Some (xs @ [c])"
    using i 1(6) by (simp add: take_Suc_conv_app_nth)
  then have "loaded a u (xs @ [c]) ?b"
    using 1 by (simp add: loaded_def buffer_wf_def)
  then show thesis
    using 1 i by (intro that[of ?b]) (simp_all add: buf_write_def)
qed

lemma load_loop_ok:
  assumes "loaded a u xs b" "\<forall>n. alloc n" "capacity a (length xs + length (c # line)) < 2 ^ 64"
    and "\<forall>x \<in> set (c # line). isEndingCharacter x \<noteq> 0" "isEndingCharacter e = 0"
    and "getc_char stdin = (e, rest)"
  obtains b' where "load_loop alloc b c (line @ stdin) (length xs)
      = Ok (b', e, rest, length xs + length (c # line))"
    "loaded a u (xs @ c # line) b'"
  using assms(1,3,4)
proof (induction line arbitrary: xs b c thesis)
  case Nil
  have "capacity a (Suc (length xs)) < 2 ^ 64"
    using Nil.prems(3) by simp
  with Nil.prems(2) assms(2) obtain b1 where
    "res_bind (load_grow alloc b (length xs)) (\<lambda>b. buf_write b (length xs) c) = Ok b1"
    "loaded a u (xs @ [c]) b1"
    by (rule load_step)
  then show ?case
    using Nil.prems(1,4) assms(5,6)
    by (auto simp: load_loop.simps[of _ _ c] load_loop.simps[of _ _ e] load_grow_def res_bind_eq_Ok)
next
  case (Cons d line)
  have "capacity a (Suc (length xs)) \<le> capacity a (length xs + length (c # d # line))"
    by (rule capacity_mono) simp
  then have "capacity a (Suc (length xs)) < 2 ^ 64"
    using Cons.prems(3) by simp
  with Cons.prems(2) assms(2) obtain b1 where b1:
    "res_bind (load_grow alloc b (length xs)) (\<lambda>b. buf_write b (length xs) c) = Ok b1"
    "loaded a u (xs @ [c]) b1"
    by (rule load_step)
  obtain b' where "load_loop alloc b1 d (line @ stdin) (length (xs @ [c]))
      = Ok (b', e, rest, length (xs @ [c]) + length (d # line))"
    "loaded a u ((xs @ [c]) @ d # line) b'"
    by (rule Cons.IH[OF _ b1(2)]) (use Cons.prems in auto)
  then show ?case
    using Cons.prems(1,4) b1(1)
    by (auto simp: load_loop.simps[of _ _ c] load_grow_def res_bind_eq_Ok)
qed

text \<open>The whole loop on a line, from the buffer the function is given.\<close>

lemma load_line_loop:
  assumes "buffer_wf b" "\<forall>n. alloc n" "capacity (allocated b) (length line) < 2 ^ 64"
    and "\<forall>x \<in> set line. isEndingCharacter x \<noteq> 0" "isEndingCharacter e = 0"
    and "getc_char stdin = (e, rest)"
  obtains b' where "load_loop alloc b (fst (getc_char (line @ stdin)))
      (snd (getc_char (line @ stdin))) 0 = Ok (b', e, rest, length line)"
    "loaded (allocated b) (used b) line b'" "line = [] \<Longrightarrow> b' = b"
proof -
  have start: "loaded (allocated b) (used b) [] b"
    using assms(1) by (simp add: loaded_def split: option.splits)
  show thesis
  proof (cases line)
    case Nil
    then show thesis
      using that[of b] start assms(5,6) by (simp add: load_loop.simps)
  next
    case (Cons c line')
    obtain b' where "load_loop alloc b c (line' @ stdin) (length ([] :: byte list))
        = Ok (b', e, rest, length ([] :: byte list) + length (c # line'))"
      "loaded (allocated b) (used b) ([] @ c # line') b'"
      by (rule load_loop_ok[OF start assms(2) _ _ assms(5,6), of c line'])
        (use Cons assms(3,4) in auto)
    then show thesis
      using Cons by (intro that[of b']) simp_all
  qed
qed

lemma load_line:
  assumes "buffer_wf b" "data b \<noteq> None \<or> line \<noteq> []" "\<forall>n. alloc n"
    and "capacity (allocated b) (length line) < 2 ^ 64"
    and "\<forall>x \<in> set line. isEndingCharacter x \<noteq> 0" "isEndingCharacter e = 0"
    and "getc_char stdin = (e, rest)"
    and "length line < capacity (allocated b) (length line)"
  shows "\<exists>b'. loadBufferFromStdin alloc b eof (line @ stdin)
              = Ok (b', eof \<or> e = 0xFF, rest, length line) \<and>
            points_to (buf_ptr b') (line @ [0]) \<and> buffer_wf b' \<and> used b' = used b \<and>
            allocated b' = capacity (allocated b) (length line)"
proof (cases rule: load_line_loop[OF assms(1,3,4,5,6,7)])
  case (1 b1)
  have "data b1 \<noteq> None"
    using 1(2,3) assms(2) by (cases line) (auto simp: loaded_def)
  then obtain m where m: "data b1 = Some m" by auto
  let ?b = "b1\<lparr>data := Some (m[length line := Some 0])\<rparr>"
  have len: "length line < length m" "length m < 2 ^ 64"
    using 1(2) m assms(4,8) by (simp_all add: loaded_def buffer_wf_def)
  then have "take (Suc (length line)) (m[length line := Some 0]) = map Some (line @ [0])"
    using 1(2) m by (simp add: take_Suc_conv_app_nth loaded_def)
  then have "points_to (buf_ptr ?b) (line @ [0])"
    using len by (simp add: points_to_def buf_ptr_def)
  moreover have "buffer_wf ?b" "used ?b = used b" "allocated ?b = capacity (allocated b) (length line)"
    using 1(2) m by (simp_all add: loaded_def buffer_wf_def)
  moreover have "sint e = - 1 \<longleftrightarrow> e = 255"
    by (rule sint_minus_one)
  then have "loadBufferFromStdin alloc b eof (line @ stdin)
      = Ok (?b, eof \<or> e = 255, rest, length line)"
    using 1(1) m len by (simp add: loadBufferFromStdin_def buf_write_def)
  ultimately show ?thesis by blast
qed

text \<open>Reading a line. If the line leaves room for the terminator in the capacity the buffer
  grows to, \<open>loadBufferFromStdin\<close> returns its length, the buffer holds the line and a
  terminating zero and is still well formed, the input after the ending character is left, and
  the end-of-input flag is set exactly when the ending character is the byte \<open>0xFF\<close>, which is
  what \<open>EOF\<close> becomes.\<close>

theorem loadBufferFromStdin_line:
  assumes "buffer_wf b" "data b \<noteq> None \<or> line \<noteq> []" "\<forall>n. alloc n"
    and "capacity (allocated b) (length line) < 2 ^ 64"
    and "\<forall>x \<in> set line. isEndingCharacter x \<noteq> 0" "isEndingCharacter e = 0"
    and "getc_char stdin = (e, rest)"
    and "length line < capacity (allocated b) (length line)"
  shows "\<exists>b'. loadBufferFromStdin alloc b eof (line @ stdin)
              = Ok (b', eof \<or> e = 0xFF, rest, length line) \<and>
            points_to (buf_ptr b') (line @ [0]) \<and> buffer_wf b' \<and> used b' = used b"
  using load_line[OF assms, of eof] by blast

definition greeting :: "byte list" where
  "greeting = bytes_of ''/help''"

theorem loadBufferFromStdin_line_witness:
  "\<exists>b'. loadBufferFromStdin (\<lambda>_. True) bufferInit False (greeting @ [10, 65])
        = Ok (b', False \<or> (10 :: byte) = 0xFF, [65], length greeting) \<and>
      points_to (buf_ptr b') (greeting @ [0]) \<and> buffer_wf b' \<and> used b' = used bufferInit"
  by (rule loadBufferFromStdin_line)
    (simp_all add: greeting_def bytes_of_def bufferInit_def buffer_wf_def isEndingCharacter_def
      INITIAL_BUFFER_SIZE_def Let_def)

text \<open>C33: the terminator of a line that fills the buffer. When the length of the line is exactly
  the capacity the buffer has grown to (256 bytes from an empty buffer, and its doublings), the
  final \<open>buffer->data[i] = '\\0'\<close> writes one byte past the object.\<close>

theorem loadBufferFromStdin_overflow:
  assumes "buffer_wf b" "data b \<noteq> None \<or> line \<noteq> []" "\<forall>n. alloc n"
    and "capacity (allocated b) (length line) < 2 ^ 64"
    and "\<forall>x \<in> set line. isEndingCharacter x \<noteq> 0" "isEndingCharacter e = 0"
    and "getc_char stdin = (e, rest)"
    and "length line = capacity (allocated b) (length line)"
  shows "loadBufferFromStdin alloc b eof (line @ stdin) = Fault Out_Of_Bounds"
proof (cases rule: load_line_loop[OF assms(1,3,4,5,6,7)])
  case (1 b1)
  have "data b1 \<noteq> None"
    using 1(2,3) assms(2) by (cases line) (auto simp: loaded_def)
  then obtain m where m: "data b1 = Some m" by auto
  then have "length m = length line"
    using 1(2) assms(8) by (simp add: loaded_def buffer_wf_def)
  then show ?thesis
    using 1(1) m by (simp add: loadBufferFromStdin_def buf_write_def)
qed

text \<open>The buffer \<open>main\<close> reads input into: it holds the server address given with \<open>-s\<close>, here
  \<open>::1\<close> and its terminator, so that its size is 4.\<close>

definition address_buffer :: Buffer where
  "address_buffer = \<lparr>data = Some (map Some (bytes_of ''::1'' @ [0])), allocated = 4, used = 4\<rparr>"

theorem loadBufferFromStdin_overflow_witness:
  "loadBufferFromStdin (\<lambda>_. True) address_buffer False (bytes_of ''hi u'' @ [10])
     = Fault Out_Of_Bounds"
  by (rule loadBufferFromStdin_overflow[where e = 10 and rest = "[]"])
    (simp_all add: address_buffer_def bytes_of_def buffer_wf_def isEndingCharacter_def
      INITIAL_BUFFER_SIZE_def Let_def)

text \<open>Copying a buffer. With the memory granted, \<open>bufferCopy\<close> gives a well-formed buffer
  with exactly the bytes in use of the source, whatever the destination held.\<close>

theorem bufferCopy_contents:
  assumes "buffer_wf dst" "buffer_wf src" "alloc (used src)"
  shows "\<exists>b. bufferCopy alloc (Some dst) (Some src) = Ok b \<and> buffer_wf b \<and>
             used b = used src \<and> contents b = contents src"
  by (cases rule: bufferCopy_ok[of dst src alloc, OF assms]) blast

theorem bufferCopy_contents_witness:
  "\<exists>b. bufferCopy (\<lambda>n. n < 100) (Some bufferInit) (Some address_buffer) = Ok b \<and> buffer_wf b \<and>
       used b = used address_buffer \<and> contents b = contents address_buffer"
  by (rule bufferCopy_contents)
    (simp_all add: bufferInit_def address_buffer_def bytes_of_def buffer_wf_def)

end
