(* ===== verification/Chat_Queue.thy ===== *)
theory Chat_Queue
  imports Chat_Buffer
begin

text \<open>
  The message queue of \<open>libs/msgQueue.c\<close>: a singly linked list of heap-allocated messages with
  pointers to its first and last message, a length and a mutex. The heap is explicit: an address
  holds a message until it is freed, addresses are never handed out twice, and following a pointer
  to a freed message is a fault.
\<close>

section \<open>Data\<close>

datatype msg_flags =
    msg_flag_NONE
  | msg_flag_DO_NOT_RESEND
  | msg_flag_NOK_REPLY
  | msg_flag_AUTH
  | msg_flag_REJECTED
  | msg_flag_CONFIRMED
  | msg_flag_ERR
  | msg_flag_CONFIRM
  | msg_flag_BYE

datatype msg_t =
    msg_CONF
  | msg_REPLY
  | msg_AUTH
  | msg_JOIN
  | msg_MSG
  | msg_ERR
  | msg_BYE
  | msg_UNKNOWN
  | msg_CORRUPTED

fun msg_byte :: "msg_t \<Rightarrow> byte" where
  "msg_byte msg_CONF = 0x00"
| "msg_byte msg_REPLY = 0x01"
| "msg_byte msg_AUTH = 0x02"
| "msg_byte msg_JOIN = 0x03"
| "msg_byte msg_MSG = 0x04"
| "msg_byte msg_ERR = 0xFE"
| "msg_byte msg_BYE = 0xFF"
| "msg_byte msg_UNKNOWN = 0xAA"
| "msg_byte msg_CORRUPTED = 0xAB"

type_synonym addr = nat

text \<open>
  \<open>struct Message\<close>. Its two unions are one byte each: \<open>u_high\<close> is \<open>sendCount\<close> and
  \<open>highMsgId\<close>, \<open>u_low\<close> is \<open>confirmed\<close> and \<open>lowMsgId\<close>. The buffer a message points to is
  owned by it.
\<close>

record Message =
  m_buffer :: "Buffer option"
  behindMe :: "addr option"
  u_high :: byte
  u_low :: byte
  mtype :: byte
  msgFlags :: msg_flags

abbreviation sendCount :: "Message \<Rightarrow> byte" where
  "sendCount m \<equiv> u_high m"

abbreviation confirmed :: "Message \<Rightarrow> bool" where
  "confirmed m \<equiv> u_low m \<noteq> 0"

record MessageQueue =
  q_first :: "addr option"
  q_last :: "addr option"
  q_len :: nat
  q_locked :: bool

record heap =
  cells :: "addr \<Rightarrow> Message option"
  next_addr :: addr

definition empty_heap :: heap where
  "empty_heap = \<lparr>cells = (\<lambda>_. None), next_addr = 0\<rparr>"

text \<open>\<open>*p\<close> for a message pointer, an update of the message, allocation and release.\<close>

definition deref :: "heap \<Rightarrow> addr option \<Rightarrow> Message res" where
  "deref h p =
     (case p of
        None \<Rightarrow> Fault Null_Deref
      | Some a \<Rightarrow> (case cells h a of None \<Rightarrow> Fault Use_After_Free | Some m \<Rightarrow> Ok m))"

definition heap_put :: "heap \<Rightarrow> addr \<Rightarrow> Message \<Rightarrow> heap" where
  "heap_put h a m = h\<lparr>cells := (cells h)(a \<mapsto> m)\<rparr>"

definition heap_upd :: "heap \<Rightarrow> addr option \<Rightarrow> (Message \<Rightarrow> Message) \<Rightarrow> heap res" where
  "heap_upd h p f = res_bind (deref h p) (\<lambda>m. Ok (heap_put h (the p) (f m)))"

definition heap_new :: "heap \<Rightarrow> Message \<Rightarrow> addr \<times> heap" where
  "heap_new h m =
     (next_addr h, \<lparr>cells = (cells h)(next_addr h \<mapsto> m), next_addr = Suc (next_addr h)\<rparr>)"

definition heap_free :: "heap \<Rightarrow> addr \<Rightarrow> heap" where
  "heap_free h a = h\<lparr>cells := (cells h)(a := None)\<rparr>"

definition sizeof_Message :: nat where
  "sizeof_Message = 24"

definition sizeof_Buffer :: nat where
  "sizeof_Buffer = 24"

definition HIGHER_MSGID_BYTE_POSTION :: nat where
  "HIGHER_MSGID_BYTE_POSTION = 2"

definition LOWER_MSGID_BYTE_POSTION :: nat where
  "LOWER_MSGID_BYTE_POSTION = 1"

lemmas msgid_positions = HIGHER_MSGID_BYTE_POSTION_def LOWER_MSGID_BYTE_POSTION_def

section \<open>Operations\<close>

text \<open>The macro \<open>IS_INITIALIZED\<close>: a \<open>NULL\<close> queue is an internal error.\<close>

definition IS_INITIALIZED :: "MessageQueue option \<Rightarrow> MessageQueue res" where
  "IS_INITIALIZED queue =
     (case queue of None \<Rightarrow> Err err_INTERNAL_BAD_ARG | Some q \<Rightarrow> Ok q)"

lemma IS_INITIALIZED_Some [simp]: "IS_INITIALIZED (Some q) = Ok q"
  by (simp add: IS_INITIALIZED_def)

definition queueInit :: MessageQueue where
  "queueInit = \<lparr>q_first = None, q_last = None, q_len = 0, q_locked = False\<rparr>"

definition queueUnlock :: "MessageQueue option \<Rightarrow> MessageQueue res" where
  "queueUnlock queue = res_bind (IS_INITIALIZED queue) (\<lambda>q. Ok (q\<lparr>q_locked := False\<rparr>))"

text \<open>\<open>Ok None\<close>: the mutex is taken and the caller has to wait for its release.\<close>

definition queueLock :: "MessageQueue option \<Rightarrow> MessageQueue option res" where
  "queueLock queue =
     res_bind (IS_INITIALIZED queue) (\<lambda>q.
       Ok (if q_locked q then None else Some (q\<lparr>q_locked := True\<rparr>)))"

definition queueGetMessage :: "MessageQueue option \<Rightarrow> addr option res" where
  "queueGetMessage queue =
     res_bind (IS_INITIALIZED queue) (\<lambda>q.
       Ok (if q_len q > 0 \<and> q_first q \<noteq> None then q_first q else None))"

text \<open>
  \<open>createMessage\<close>. The second allocation is not checked: the code tests \<open>tmpMsg\<close> again, so a
  refused buffer is passed on to \<open>bufferInit\<close>. \<open>behindMe\<close> and \<open>type\<close> are left to the caller.
\<close>

definition createMessage :: "allocator \<Rightarrow> Buffer \<Rightarrow> msg_flags \<Rightarrow> Message res" where
  "createMessage alloc buffer flags =
     (if \<not> alloc sizeof_Message then Err err_MEMORY_FAIL
      else if \<not> alloc sizeof_Buffer then Fault Null_Deref
      else
        res_bind (bufferCopy alloc (Some bufferInit) (Some buffer)) (\<lambda>tmpBuffer.
          Ok \<lparr>m_buffer = Some tmpBuffer, behindMe = None, u_high = 0, u_low = 0, mtype = 0,
              msgFlags = flags\<rparr>))"

definition queueAddMessage ::
  "allocator \<Rightarrow> heap \<Rightarrow> MessageQueue option \<Rightarrow> Buffer \<Rightarrow> msg_flags \<Rightarrow> byte
     \<Rightarrow> (heap \<times> MessageQueue) res"
where
  "queueAddMessage alloc h queue buffer flags msgType =
     res_bind (IS_INITIALIZED queue) (\<lambda>q.
     res_bind (createMessage alloc buffer flags) (\<lambda>m.
     let (newMessage, h) = heap_new h m;
         q = (if q_first q = None then q\<lparr>q_first := Some newMessage\<rparr> else q) in
     res_bind (if q_last q \<noteq> None
               then heap_upd h (q_last q) (\<lambda>m. m\<lparr>behindMe := Some newMessage\<rparr>)
               else Ok h) (\<lambda>h.
     let q = q\<lparr>q_last := Some newMessage\<rparr> in
     res_bind (heap_upd h (q_last q) (\<lambda>m. m\<lparr>behindMe := None\<rparr>)) (\<lambda>h.
     res_bind (heap_upd h (Some newMessage) (\<lambda>m. m\<lparr>mtype := msgType\<rparr>)) (\<lambda>h.
     Ok (h, q\<lparr>q_len := q_len q + 1\<rparr>))))))"

text \<open>Putting a message at the front, shared by the two functions that do so.\<close>

definition push_front :: "heap \<Rightarrow> MessageQueue \<Rightarrow> Message \<Rightarrow> (heap \<times> MessageQueue) res" where
  "push_front h q m =
     (let (newMessage, h) = heap_new h m;
          q = (if q_last q = None then q\<lparr>q_last := Some newMessage\<rparr> else q);
          oldFirst = q_first q;
          q = q\<lparr>q_first := Some newMessage\<rparr> in
      res_bind (heap_upd h (Some newMessage) (\<lambda>m. m\<lparr>behindMe := oldFirst\<rparr>)) (\<lambda>h.
      Ok (h, q\<lparr>q_len := q_len q + 1\<rparr>)))"

definition queueAddMessagePriority ::
  "allocator \<Rightarrow> heap \<Rightarrow> MessageQueue option \<Rightarrow> Buffer \<Rightarrow> msg_flags \<Rightarrow> byte
     \<Rightarrow> (heap \<times> MessageQueue) res"
where
  "queueAddMessagePriority alloc h queue buffer flags msgType =
     res_bind (IS_INITIALIZED queue) (\<lambda>q.
     res_bind (createMessage alloc buffer flags) (\<lambda>m.
     push_front h q (m\<lparr>mtype := msgType\<rparr>)))"

definition queueAddMessageOnlyID ::
  "allocator \<Rightarrow> heap \<Rightarrow> MessageQueue option \<Rightarrow> Buffer \<Rightarrow> byte \<Rightarrow> (heap \<times> MessageQueue) res"
where
  "queueAddMessageOnlyID alloc h queue buf msgType =
     res_bind (IS_INITIALIZED queue) (\<lambda>q.
     if \<not> alloc sizeof_Message then Err err_MEMORY_FAIL
     else if used buf < 3 then Err err_INTERNAL_BAD_ARG
     else
       res_bind (ptr_read (buf_ptr buf) HIGHER_MSGID_BYTE_POSTION) (\<lambda>high.
       res_bind (ptr_read (buf_ptr buf) LOWER_MSGID_BYTE_POSTION) (\<lambda>low.
       push_front h q
         \<lparr>m_buffer = None, behindMe = None, u_high = high, u_low = low, mtype = msgType,
          msgFlags = msg_flag_ERR\<rparr>)))"

text \<open>A message is freed together with its buffer, which is a part of the message here and not an object of its own.\<close>

definition queuePopMessage :: "heap \<Rightarrow> MessageQueue option \<Rightarrow> (heap \<times> MessageQueue) res" where
  "queuePopMessage h queue =
     res_bind (IS_INITIALIZED queue) (\<lambda>q.
     if q_len q \<le> 0 then Ok (h, q)
     else
       let oldFirst = q_first q in
       res_bind (deref h oldFirst) (\<lambda>m.
       let q = q\<lparr>q_first := behindMe m\<rparr>;
           q = (if oldFirst = q_last q then q\<lparr>q_last := None\<rparr> else q) in
       Ok (heap_free h (the oldFirst), q\<lparr>q_len := q_len q - 1\<rparr>)))"

lemma queuePopMessage_len:
  "queuePopMessage h (Some q) = Ok (h', q') \<Longrightarrow> q_len q' = q_len q - 1"
  by (auto simp: queuePopMessage_def Let_def res_bind_eq_Ok split: if_splits)

function pop_all_loop :: "heap \<Rightarrow> MessageQueue \<Rightarrow> (heap \<times> MessageQueue) res" where
  "pop_all_loop h q =
     (if q_len q > 0
      then res_bind (queuePopMessage h (Some q)) (\<lambda>(h, q). pop_all_loop h q)
      else Ok (h, q))"
  by pat_completeness auto
termination
  by (relation "measure (\<lambda>(h, q). q_len q)") (auto dest: queuePopMessage_len)

declare pop_all_loop.simps [simp del]

definition queuePopAllMessages :: "heap \<Rightarrow> MessageQueue option \<Rightarrow> (heap \<times> MessageQueue) res" where
  "queuePopAllMessages h queue =
     res_bind (IS_INITIALIZED queue) (\<lambda>q.
     res_bind (pop_all_loop h q) (\<lambda>(h, q).
     Ok (h, q\<lparr>q_first := None, q_last := None\<rparr>)))"

text \<open>After \<open>queueDestroy\<close> the queue itself is gone; the heap is what is left.\<close>

definition queueDestroy :: "heap \<Rightarrow> MessageQueue option \<Rightarrow> heap res" where
  "queueDestroy h queue =
     res_bind (IS_INITIALIZED queue) (\<lambda>q.
     res_bind (queuePopAllMessages h (Some q)) (\<lambda>(h, q). Ok h))"

definition queueIsEmpty :: "MessageQueue option \<Rightarrow> bool res" where
  "queueIsEmpty queue = res_bind (IS_INITIALIZED queue) (\<lambda>q. Ok (q_len q = 0))"

definition queueLength :: "MessageQueue option \<Rightarrow> nat res" where
  "queueLength queue = res_bind (IS_INITIALIZED queue) (\<lambda>q. Ok (q_len q))"

text \<open>
  The walk of \<open>queueContainsMessageId\<close> compares the identifier bytes of the incoming message,
  which are \<open>char\<close>s, with the \<open>unsigned char\<close>s of the queue. A walk over more messages than
  were ever allocated goes round in a cycle; the fuel bounds it by that number.
\<close>

fun contains_from :: "nat \<Rightarrow> heap \<Rightarrow> byte \<Rightarrow> byte \<Rightarrow> byte \<Rightarrow> addr option \<Rightarrow> bool res option" where
  "contains_from 0 h high low ty p = None"
| "contains_from (Suc fuel) h high low ty p =
     (if p = None then Some (Ok False)
      else case deref h p of
        Ok m \<Rightarrow>
          if sint high = uint (u_high m) \<and> sint low = uint (u_low m) \<and> ty = mtype m
          then Some (Ok True)
          else contains_from fuel h high low ty (behindMe m)
      | Err c \<Rightarrow> Some (Err c)
      | Fault e \<Rightarrow> Some (Fault e))"

text \<open>The incoming message is given by its buffer and its type; \<open>None\<close> is a walk that never
  ends.\<close>

definition queueContainsMessageId ::
  "heap \<Rightarrow> MessageQueue option \<Rightarrow> Buffer \<Rightarrow> byte \<Rightarrow> bool res option"
where
  "queueContainsMessageId h queue buf ty =
     (case IS_INITIALIZED queue of
        Err c \<Rightarrow> Some (Err c)
      | Fault e \<Rightarrow> Some (Fault e)
      | Ok q \<Rightarrow>
          (case ptr_read (buf_ptr buf) HIGHER_MSGID_BYTE_POSTION of
             Err c \<Rightarrow> Some (Err c)
           | Fault e \<Rightarrow> Some (Fault e)
           | Ok high \<Rightarrow>
               (case ptr_read (buf_ptr buf) LOWER_MSGID_BYTE_POSTION of
                  Err c \<Rightarrow> Some (Err c)
                | Fault e \<Rightarrow> Some (Fault e)
                | Ok low \<Rightarrow> contains_from (Suc (next_addr h)) h high low ty (q_first q))))"

definition queueMessageSended :: "heap \<Rightarrow> MessageQueue option \<Rightarrow> heap res" where
  "queueMessageSended h queue =
     res_bind (IS_INITIALIZED queue) (\<lambda>q.
     heap_upd h (q_first q) (\<lambda>m. m\<lparr>u_high := u_high m + 1\<rparr>))"

definition queueGetSendedCounter :: "heap \<Rightarrow> MessageQueue option \<Rightarrow> byte res" where
  "queueGetSendedCounter h queue =
     res_bind (IS_INITIALIZED queue) (\<lambda>q.
     res_bind (deref h (q_first q)) (\<lambda>m. Ok (sendCount m)))"

text \<open>\<open>m->buffer\<close> where the code goes on to use it.\<close>

definition msg_buffer :: "Message \<Rightarrow> Buffer res" where
  "msg_buffer m = (case m_buffer m of None \<Rightarrow> Fault Null_Deref | Some b \<Rightarrow> Ok b)"

definition queueSetMessageID :: "heap \<Rightarrow> MessageQueue option \<Rightarrow> 16 word \<Rightarrow> heap res" where
  "queueSetMessageID h queue msgCounter =
     res_bind (IS_INITIALIZED queue) (\<lambda>q.
     if q_first q \<noteq> None
     then
       res_bind (deref h (q_first q)) (\<lambda>m.
       if msgFlags m \<noteq> msg_flag_CONFIRM \<and> msgFlags m \<noteq> msg_flag_NOK_REPLY
       then
         res_bind (msg_buffer m) (\<lambda>b.
         let (high, low) = breakU16IntToBytes msgCounter in
         res_bind (buf_write b HIGHER_MSGID_BYTE_POSTION high) (\<lambda>b.
         res_bind (buf_write b LOWER_MSGID_BYTE_POSTION low) (\<lambda>b.
         heap_upd h (q_first q) (\<lambda>m. m\<lparr>m_buffer := Some b\<rparr>))))
       else Ok h)
     else Ok h)"

definition queueGetMessageID :: "heap \<Rightarrow> MessageQueue option \<Rightarrow> 16 word res" where
  "queueGetMessageID h queue =
     res_bind (IS_INITIALIZED queue) (\<lambda>q.
     if q_first q \<noteq> None
     then
       res_bind (deref h (q_first q)) (\<lambda>m.
       res_bind (msg_buffer m) (\<lambda>b.
       res_bind (ptr_read (buf_ptr b) LOWER_MSGID_BYTE_POSTION) (\<lambda>low.
       res_bind (ptr_read (buf_ptr b) HIGHER_MSGID_BYTE_POSTION) (\<lambda>high.
       Ok (convert2BytesToU16Int low high)))))
     else Ok 0)"

definition queueGetMessageFlags :: "heap \<Rightarrow> MessageQueue option \<Rightarrow> msg_flags res" where
  "queueGetMessageFlags h queue =
     res_bind (IS_INITIALIZED queue) (\<lambda>q.
     res_bind (deref h (q_first q)) (\<lambda>m. Ok (msgFlags m)))"

definition queueSetMessageFlags :: "heap \<Rightarrow> MessageQueue option \<Rightarrow> msg_flags \<Rightarrow> heap res" where
  "queueSetMessageFlags h queue newFlag =
     res_bind (IS_INITIALIZED queue) (\<lambda>q.
     if q_first q \<noteq> None then heap_upd h (q_first q) (\<lambda>m. m\<lparr>msgFlags := newFlag\<rparr>) else Ok h)"

definition uchar2msgType :: "byte \<Rightarrow> msg_t" where
  "uchar2msgType input =
     (if input = 0x00 then msg_CONF
      else if input = 0x01 then msg_REPLY
      else if input = 0x02 then msg_AUTH
      else if input = 0x03 then msg_JOIN
      else if input = 0x04 then msg_MSG
      else if input = 0xFE then msg_ERR
      else if input = 0xFF then msg_BYE
      else msg_UNKNOWN)"

definition queueGetMessageMsgType :: "heap \<Rightarrow> MessageQueue option \<Rightarrow> msg_t res" where
  "queueGetMessageMsgType h queue =
     res_bind (IS_INITIALIZED queue) (\<lambda>q.
     if q_first q \<noteq> None
     then res_bind (deref h (q_first q)) (\<lambda>m. Ok (uchar2msgType (mtype m)))
     else Ok msg_UNKNOWN)"

end
