(* ===== verification/Chat_Queue_Refinement.thy ===== *)
theory Chat_Queue_Refinement
  imports Chat_Queue
begin

text \<open>
  The linked queue implements a list. \<open>represents h q as\<close> says that the queue \<open>q\<close> is the chain
  of the messages at the addresses \<open>as\<close>; \<open>queue_items\<close> reads off what a client can observe of
  them. Every operation of \<open>Chat_Queue\<close> is shown to act on that list as its name says, without
  a fault, and to leave every message of another queue alone.
\<close>

section \<open>Representation\<close>

fun chain :: "heap \<Rightarrow> addr option \<Rightarrow> addr list \<Rightarrow> bool" where
  "chain h p [] \<longleftrightarrow> p = None"
| "chain h p (a # as) \<longleftrightarrow>
     p = Some a \<and> (case cells h a of None \<Rightarrow> False | Some m \<Rightarrow> chain h (behindMe m) as)"

fun walk :: "heap \<Rightarrow> addr option \<Rightarrow> nat \<Rightarrow> addr list" where
  "walk h p 0 = []"
| "walk h p (Suc n) =
     (case p of
        None \<Rightarrow> []
      | Some a \<Rightarrow> a # (case cells h a of None \<Rightarrow> [] | Some m \<Rightarrow> walk h (behindMe m) n))"

definition message_wf :: "Message \<Rightarrow> bool" where
  "message_wf m \<longleftrightarrow> (case m_buffer m of None \<Rightarrow> True | Some b \<Rightarrow> buffer_wf b)"

definition represents :: "heap \<Rightarrow> MessageQueue \<Rightarrow> addr list \<Rightarrow> bool" where
  "represents h q as \<longleftrightarrow>
     chain h (q_first q) as \<and> distinct as \<and>
     q_last q = (if as = [] then None else Some (last as)) \<and>
     q_len q = length as \<and>
     (\<forall>a \<in> set as. a < next_addr h \<and> (case cells h a of None \<Rightarrow> False | Some m \<Rightarrow> message_wf m))"

definition queue_addrs :: "heap \<Rightarrow> MessageQueue \<Rightarrow> addr list" where
  "queue_addrs h q = walk h (q_first q) (q_len q)"

definition queue_wf :: "heap \<Rightarrow> MessageQueue \<Rightarrow> bool" where
  "queue_wf h q \<longleftrightarrow> represents h q (queue_addrs h q)"

text \<open>What a client observes of a message: its bytes (if it has a buffer), the two union bytes,
  its type and its flags.\<close>

record qitem =
  qi_bytes :: "cell list option"
  qi_high :: byte
  qi_low :: byte
  qi_type :: byte
  qi_flags :: msg_flags

definition view :: "Message \<Rightarrow> qitem" where
  "view m = \<lparr>qi_bytes = map_option contents (m_buffer m), qi_high = u_high m, qi_low = u_low m,
     qi_type = mtype m, qi_flags = msgFlags m\<rparr>"

definition items_at :: "heap \<Rightarrow> addr list \<Rightarrow> qitem list" where
  "items_at h as = map (\<lambda>a. view (the (cells h a))) as"

definition queue_items :: "heap \<Rightarrow> MessageQueue \<Rightarrow> qitem list" where
  "queue_items h q = items_at h (queue_addrs h q)"

text \<open>The item a freshly created message is.\<close>

definition new_item :: "Buffer \<Rightarrow> msg_flags \<Rightarrow> byte \<Rightarrow> qitem" where
  "new_item b flags ty =
     \<lparr>qi_bytes = Some (contents b), qi_high = 0, qi_low = 0, qi_type = ty, qi_flags = flags\<rparr>"

text \<open>Nothing outside the addresses \<open>as\<close> and the fresh ones changed.\<close>

definition heap_frame :: "addr list \<Rightarrow> heap \<Rightarrow> heap \<Rightarrow> bool" where
  "heap_frame as h h' \<longleftrightarrow>
     next_addr h \<le> next_addr h' \<and>
     (\<forall>a. a \<notin> set as \<longrightarrow> a < next_addr h \<longrightarrow> cells h' a = cells h a)"

subsection \<open>Chains\<close>

lemma walk_chain: "chain h p as \<Longrightarrow> walk h p (length as) = as"
  by (induction as arbitrary: p) (auto split: option.splits)

lemma queue_addrs_represents: "represents h q as \<Longrightarrow> queue_addrs h q = as"
  by (auto simp: represents_def queue_addrs_def walk_chain)

lemma represents_queue_wf: "represents h q as \<Longrightarrow> queue_wf h q"
  by (simp add: queue_wf_def queue_addrs_represents)

lemma queue_items_represents: "represents h q as \<Longrightarrow> queue_items h q = items_at h as"
  by (simp add: queue_items_def queue_addrs_represents)

lemma chain_cong:
  "(\<And>a. a \<in> set as \<Longrightarrow> map_option behindMe (cells h a) = map_option behindMe (cells h' a)) \<Longrightarrow>
     chain h p as = chain h' p as"
proof (induction as arbitrary: p)
  case Nil
  then show ?case by simp
next
  case (Cons a as)
  then have "map_option behindMe (cells h a) = map_option behindMe (cells h' a)" by simp
  moreover have "chain h p as = chain h' p as" for p
    using Cons by simp
  ultimately show ?case
    by (cases "cells h a"; cases "cells h' a") simp_all
qed

lemma chain_snoc:
  assumes "chain h p as" "n \<notin> set as" "distinct as"
    and "cells h' n = Some m" "behindMe m = None"
    and "\<And>a. a \<in> set (butlast as) \<Longrightarrow>
           map_option behindMe (cells h' a) = map_option behindMe (cells h a)"
    and "as \<noteq> [] \<Longrightarrow> map_option behindMe (cells h' (last as)) = Some (Some n)"
  shows "chain h' (if as = [] then Some n else p) (as @ [n])"
  using assms(1-3,6,7)
proof (induction as arbitrary: p)
  case Nil
  then show ?case using assms(4,5) by simp
next
  case (Cons a as)
  then obtain m0 where m0: "cells h a = Some m0" "chain h (behindMe m0) as" "p = Some a"
    by (auto split: option.splits)
  show ?case
  proof (cases "as = []")
    case True
    then show ?thesis
      using Cons.prems(5) m0(3) assms(4,5) by (auto split: option.splits)
  next
    case False
    then obtain m1 where m1: "cells h' a = Some m1" "behindMe m1 = behindMe m0"
      using Cons.prems(4)[of a] m0(1) by auto
    have "chain h' (if as = [] then Some n else behindMe m0) (as @ [n])"
      using Cons.prems False by (intro Cons.IH m0(2)) auto
    then show ?thesis
      using False m0(3) m1 by simp
  qed
qed

lemma represents_cell:
  assumes "represents h q as" "a \<in> set as"
  obtains m where "cells h a = Some m" "message_wf m" "a < next_addr h"
  using assms by (auto simp: represents_def split: option.splits)

lemma represents_Nil [simp]:
  "represents h q [] \<longleftrightarrow> q_first q = None \<and> q_last q = None \<and> q_len q = 0"
  by (auto simp: represents_def)

lemma represents_first:
  "represents h q as \<Longrightarrow> q_first q = (case as of [] \<Rightarrow> None | a # _ \<Rightarrow> Some a)"
  by (cases as) (auto simp: represents_def)

text \<open>Changing messages of the queue without touching their links keeps the representation.\<close>

lemma represents_cong:
  assumes "represents h q as" "next_addr h \<le> next_addr h'"
    and "q_first q' = q_first q" "q_last q' = q_last q" "q_len q' = q_len q"
    and "\<And>a. a \<in> set as \<Longrightarrow> map_option behindMe (cells h' a) = map_option behindMe (cells h a)"
    and "\<And>a m. a \<in> set as \<Longrightarrow> cells h' a = Some m \<Longrightarrow> message_wf m"
  shows "represents h' q' as"
proof -
  have "chain h' (q_first q) as"
    using assms(1) chain_cong[of as h' h "q_first q", OF assms(6)] by (simp add: represents_def)
  moreover have "a < next_addr h' \<and> (case cells h' a of None \<Rightarrow> False | Some m \<Rightarrow> message_wf m)"
    if a: "a \<in> set as" for a
  proof (cases rule: represents_cell[OF assms(1) a])
    case (1 m)
    then show ?thesis
      using assms(2) assms(6)[OF a] assms(7)[OF a] by (auto split: option.splits)
  qed
  ultimately show ?thesis
    using assms(1,3-5) by (simp add: represents_def)
qed

lemma represents_frame:
  assumes "represents h q bs" "heap_frame as h h'" "set as \<inter> set bs = {}"
  shows "represents h' q bs" "items_at h' bs = items_at h bs"
proof -
  have same: "cells h' a = cells h a" if "a \<in> set bs" for a
    using that assms by (auto simp: heap_frame_def represents_def)
  then show "items_at h' bs = items_at h bs"
    by (simp add: items_at_def)
  show "represents h' q bs"
  proof (rule represents_cong[OF assms(1)])
    show "next_addr h \<le> next_addr h'"
      using assms(2) by (simp add: heap_frame_def)
    fix a m assume "a \<in> set bs" "cells h' a = Some m"
    then show "message_wf m"
      using same assms(1) by (auto simp: represents_def split: option.splits)
  qed (simp_all add: same)
qed

section \<open>The operations on the represented list\<close>

text \<open>The allocator grants what adding a message with this buffer needs.\<close>

definition grants :: "allocator \<Rightarrow> Buffer \<Rightarrow> bool" where
  "grants alloc b \<longleftrightarrow> alloc sizeof_Message \<and> alloc sizeof_Buffer \<and> alloc (used b)"

lemma createMessage_ok:
  assumes "buffer_wf b" "grants alloc b"
  shows "\<exists>m. createMessage alloc b flags = Ok m \<and> message_wf m \<and>
    (\<forall>l ty. view (m\<lparr>behindMe := l, mtype := ty\<rparr>) = new_item b flags ty)"
proof -
  have "alloc (used b)" using assms(2) by (simp add: grants_def)
  with assms(1) obtain b' where "bufferCopy alloc (Some bufferInit) (Some b) = Ok b'"
    "buffer_wf b'" "contents b' = contents b"
    using bufferCopy_ok[of bufferInit b alloc] by auto
  then show ?thesis
    using assms(2) by (simp add: createMessage_def grants_def message_wf_def view_def new_item_def)
qed

lemma view_behindMe [simp]: "view (m\<lparr>behindMe := l\<rparr>) = view m"
  by (simp add: view_def)

lemma message_wf_fields [simp]:
  "message_wf (m\<lparr>behindMe := l\<rparr>) = message_wf m"
  "message_wf (m\<lparr>mtype := ty\<rparr>) = message_wf m"
  "message_wf (m\<lparr>u_high := c\<rparr>) = message_wf m"
  "message_wf (m\<lparr>u_low := c\<rparr>) = message_wf m"
  "message_wf (m\<lparr>msgFlags := f\<rparr>) = message_wf m"
  by (simp_all add: message_wf_def)

lemma butlast_not_last: "distinct as \<Longrightarrow> a \<in> set (butlast as) \<Longrightarrow> a \<noteq> last as"
  by (induction as) (auto split: if_splits)

subsection \<open>Adding behind the last message\<close>

text \<open>The heap after the message \<open>m\<close> was linked behind the last one of \<open>as\<close>.\<close>

definition snoc_heap :: "heap \<Rightarrow> addr list \<Rightarrow> Message \<Rightarrow> heap" where
  "snoc_heap h as m =
     \<lparr>cells = (\<lambda>a. if as \<noteq> [] \<and> a = last as
                   then map_option (\<lambda>m. m\<lparr>behindMe := Some (next_addr h)\<rparr>) (cells h a)
                   else cells h a)(next_addr h \<mapsto> m),
      next_addr = Suc (next_addr h)\<rparr>"

definition snoc_queue :: "heap \<Rightarrow> MessageQueue \<Rightarrow> MessageQueue" where
  "snoc_queue h q =
     q\<lparr>q_first := (if q_first q = None then Some (next_addr h) else q_first q),
       q_last := Some (next_addr h), q_len := q_len q + 1\<rparr>"

lemma snoc_heap_cells:
  assumes "represents h q as" "a \<in> set as"
  shows "\<exists>m m'. cells h a = Some m \<and> cells (snoc_heap h as new) a = Some m' \<and>
    view m' = view m \<and> message_wf m' \<and> a < next_addr h \<and>
    behindMe m' = (if a = last as then Some (next_addr h) else behindMe m)"
proof (cases rule: represents_cell[OF assms])
  case (1 m)
  have "as \<noteq> []" using assms(2) by auto
  then show ?thesis
    using 1 by (cases "a = last as") (simp_all add: snoc_heap_def)
qed

lemma snoc_represents:
  assumes "represents h q as" "message_wf m" "behindMe m = None"
  shows "represents (snoc_heap h as m) (snoc_queue h q) (as @ [next_addr h])"
proof -
  let ?h = "snoc_heap h as m" and ?n = "next_addr h"
  have fresh: "?n \<notin> set as" and d: "distinct as"
    using assms(1) by (auto simp: represents_def)
  have new: "cells ?h ?n = Some m" by (simp add: snoc_heap_def)
  note old = snoc_heap_cells[OF assms(1), of _ m]
  have "chain ?h (if as = [] then Some ?n else q_first q) (as @ [?n])"
  proof (rule chain_snoc[OF _ fresh d new assms(3)])
    show "chain h (q_first q) as"
      using assms(1) by (simp add: represents_def)
    show "map_option behindMe (cells ?h a) = map_option behindMe (cells h a)"
      if "a \<in> set (butlast as)" for a
      using old[OF in_set_butlastD[OF that]] butlast_not_last[OF d that] by auto
    show "map_option behindMe (cells ?h (last as)) = Some (Some ?n)" if "as \<noteq> []"
      using old[OF last_in_set[OF that]] by auto
  qed
  moreover have "q_first (snoc_queue h q) = (if as = [] then Some ?n else q_first q)"
    using represents_first[OF assms(1)] by (cases as) (auto simp: snoc_queue_def)
  moreover have "a < Suc ?n \<and> (case cells ?h a of None \<Rightarrow> False | Some m \<Rightarrow> message_wf m)"
    if "a \<in> set as" for a
    using old[OF that] by auto
  moreover have "next_addr ?h = Suc ?n" by (simp add: snoc_heap_def)
  moreover have "q_len q = length as"
    using assms(1) by (simp add: represents_def)
  ultimately show ?thesis
    using assms(2) fresh new d by (simp add: represents_def snoc_queue_def)
qed

lemma snoc_items:
  assumes "represents h q as"
  shows "items_at (snoc_heap h as m) (as @ [next_addr h]) = items_at h as @ [view m]"
proof -
  have "view (the (cells (snoc_heap h as m) a)) = view (the (cells h a))" if "a \<in> set as" for a
    using snoc_heap_cells[OF assms that, of m] by auto
  then show ?thesis
    by (simp add: items_at_def snoc_heap_def)
qed

lemma heap_frame_snoc: "heap_frame as h (snoc_heap h as m)"
  by (auto simp: heap_frame_def snoc_heap_def)

lemma queueAddMessage_eval:
  assumes "represents h q as" "createMessage alloc b flags = Ok m"
  shows "queueAddMessage alloc h (Some q) b flags ty
     = Ok (snoc_heap h as (m\<lparr>behindMe := None, mtype := ty\<rparr>), snoc_queue h q)"
proof (cases "as = []")
  case True
  then show ?thesis
    using assms by (simp add: queueAddMessage_def heap_new_def heap_upd_def deref_def heap_put_def
        snoc_heap_def snoc_queue_def)
next
  case False
  then have l: "last as \<in> set as" by simp
  then obtain ml where "cells h (last as) = Some ml" "last as \<noteq> next_addr h"
    using represents_cell[OF assms(1) l] by (metis nat_neq_iff)
  moreover have "q_last q = Some (last as)" "q_first q \<noteq> None"
    using assms(1) False represents_first[OF assms(1)]
    by (auto simp: represents_def split: list.splits)
  ultimately show ?thesis
    using assms(2) False
    by (auto simp: queueAddMessage_def heap_new_def heap_upd_def deref_def heap_put_def
        snoc_heap_def snoc_queue_def fun_eq_iff)
qed

lemma queueAddMessage_ok:
  assumes "represents h q as" "buffer_wf b" "grants alloc b"
  shows "\<exists>h' q'. queueAddMessage alloc h (Some q) b flags ty = Ok (h', q') \<and>
    represents h' q' (as @ [next_addr h]) \<and> q_locked q' = q_locked q \<and>
    items_at h' (as @ [next_addr h]) = items_at h as @ [new_item b flags ty] \<and>
    heap_frame as h h' \<and> next_addr h' = Suc (next_addr h)"
proof -
  obtain m where m: "createMessage alloc b flags = Ok m" "message_wf m"
    "view (m\<lparr>behindMe := None, mtype := ty\<rparr>) = new_item b flags ty"
    using createMessage_ok[of b alloc flags, OF assms(2,3)] by auto
  let ?m = "m\<lparr>behindMe := None, mtype := ty\<rparr>"
  have "represents (snoc_heap h as ?m) (snoc_queue h q) (as @ [next_addr h])"
    using m(2) by (intro snoc_represents[OF assms(1)]) simp_all
  then show ?thesis
    using queueAddMessage_eval[OF assms(1) m(1), of ty] snoc_items[OF assms(1), of ?m] m(3)
      heap_frame_snoc[of as h ?m]
    by (simp add: snoc_queue_def snoc_heap_def)
qed

subsection \<open>Adding at the front\<close>

lemma push_front_ok:
  assumes "represents h q as" "message_wf m"
  shows "\<exists>h' q'. push_front h q m = Ok (h', q') \<and> represents h' q' (next_addr h # as) \<and>
    q_locked q' = q_locked q \<and> items_at h' (next_addr h # as) = view m # items_at h as \<and>
    heap_frame [] h h' \<and> next_addr h' = Suc (next_addr h)"
proof -
  let ?n = "next_addr h"
  let ?h = "\<lparr>cells = (cells h)(?n \<mapsto> m\<lparr>behindMe := q_first q\<rparr>), next_addr = Suc ?n\<rparr>"
  let ?q = "q\<lparr>q_first := Some ?n, q_last := (if q_last q = None then Some ?n else q_last q),
      q_len := q_len q + 1\<rparr>"
  have eval: "push_front h q m = Ok (?h, ?q)"
    by (simp add: push_front_def heap_new_def heap_upd_def deref_def heap_put_def)
  have fresh: "?n \<notin> set as"
    using assms(1) by (auto simp: represents_def)
  have frame: "heap_frame [] h ?h"
    by (simp add: heap_frame_def)
  have old: "represents ?h q as" "items_at ?h as = items_at h as"
    using represents_frame[OF assms(1) frame] by simp_all
  have "represents ?h ?q (?n # as)"
    using old(1) fresh assms by (auto simp: represents_def)
  moreover have "items_at ?h (?n # as) = view m # items_at h as"
    using old(2) by (simp add: items_at_def)
  ultimately show ?thesis
    using eval frame by simp
qed

lemma queueAddMessagePriority_ok:
  assumes "represents h q as" "buffer_wf b" "grants alloc b"
  shows "\<exists>h' q'. queueAddMessagePriority alloc h (Some q) b flags ty = Ok (h', q') \<and>
    represents h' q' (next_addr h # as) \<and> q_locked q' = q_locked q \<and>
    items_at h' (next_addr h # as) = new_item b flags ty # items_at h as \<and>
    heap_frame [] h h' \<and> next_addr h' = Suc (next_addr h)"
proof -
  obtain m where m: "createMessage alloc b flags = Ok m" "message_wf m"
    "view (m\<lparr>behindMe := None, mtype := ty\<rparr>) = new_item b flags ty"
    using createMessage_ok[of b alloc flags, OF assms(2,3)] by auto
  then have v: "view (m\<lparr>mtype := ty\<rparr>) = new_item b flags ty"
    by (simp add: view_def)
  have "message_wf (m\<lparr>mtype := ty\<rparr>)" using m(2) by simp
  from push_front_ok[OF assms(1) this] v m(1) show ?thesis
    by (simp add: queueAddMessagePriority_def)
qed

lemma queueAddMessageOnlyID_ok:
  assumes "represents h q as" "alloc sizeof_Message" "points_to (buf_ptr b) [t, low, high]"
    and "3 \<le> used b"
  shows "\<exists>h' q'. queueAddMessageOnlyID alloc h (Some q) b ty = Ok (h', q') \<and>
    represents h' q' (next_addr h # as) \<and> q_locked q' = q_locked q \<and>
    items_at h' (next_addr h # as) =
      \<lparr>qi_bytes = None, qi_high = high, qi_low = low, qi_type = ty, qi_flags = msg_flag_ERR\<rparr>
        # items_at h as \<and>
    heap_frame [] h h' \<and> next_addr h' = Suc (next_addr h)"
proof -
  let ?m = "\<lparr>m_buffer = None, behindMe = None, u_high = high, u_low = low, mtype = ty,
      msgFlags = msg_flag_ERR\<rparr>"
  have "queueAddMessageOnlyID alloc h (Some q) b ty = push_front h q ?m"
    using assms(2,4) points_to_read[OF assms(3), of 1] points_to_read[OF assms(3), of 2]
    by (simp add: queueAddMessageOnlyID_def msgid_positions)
  moreover have "message_wf ?m" by (simp add: message_wf_def)
  ultimately show ?thesis
    using push_front_ok[OF assms(1), of ?m] by (simp add: view_def)
qed

subsection \<open>Removing messages\<close>

lemma queuePopMessage_empty: "q_len q = 0 \<Longrightarrow> queuePopMessage h (Some q) = Ok (h, q)"
  by (simp add: queuePopMessage_def)

lemma queuePopMessage_Cons:
  assumes "represents h q (a # as)"
  shows "\<exists>q'. queuePopMessage h (Some q) = Ok (heap_free h a, q') \<and>
    represents (heap_free h a) q' as \<and> q_locked q' = q_locked q"
proof -
  obtain m where m: "cells h a = Some m" "chain h (behindMe m) as"
    using assms by (auto simp: represents_def split: option.splits)
  have a: "a \<notin> set as" "q_first q = Some a" "q_len q = Suc (length as)"
    "q_last q = Some (last (a # as))"
    using assms by (simp_all add: represents_def)
  let ?q = "q\<lparr>q_first := behindMe m, q_last := (if as = [] then None else q_last q),
      q_len := length as\<rparr>"
  have one: "Some a = q_last q \<longleftrightarrow> as = []"
    using a by (auto simp: last_in_set)
  have "queuePopMessage h (Some q) = Ok (heap_free h a, ?q)"
    using m(1) a one by (cases "as = []") (simp_all add: queuePopMessage_def deref_def Let_def)
  moreover have "chain (heap_free h a) (behindMe m) as"
    using m(2) a(1) by (subst chain_cong[of as _ h]) (auto simp: heap_free_def)
  then have "represents (heap_free h a) ?q as"
    using assms a by (auto simp: represents_def heap_free_def)
  ultimately show ?thesis by auto
qed

lemma heap_frame_free: "a \<in> set as \<Longrightarrow> heap_frame as h (heap_free h a)"
  by (auto simp: heap_frame_def heap_free_def)

lemma items_at_free: "a \<notin> set as \<Longrightarrow> items_at (heap_free h a) as = items_at h as"
  by (auto simp: items_at_def heap_free_def)

lemma next_addr_free [simp]: "next_addr (heap_free h a) = next_addr h"
  by (simp add: heap_free_def)

lemma queuePopMessage_ok:
  assumes "represents h q as"
  shows "\<exists>h' q'. queuePopMessage h (Some q) = Ok (h', q') \<and> represents h' q' (tl as) \<and>
    q_locked q' = q_locked q \<and> items_at h' (tl as) = tl (items_at h as) \<and>
    heap_frame as h h' \<and> next_addr h' = next_addr h"
proof (cases as)
  case Nil
  then show ?thesis
    using assms by (auto simp: queuePopMessage_empty items_at_def heap_frame_def)
next
  case (Cons a as')
  then have "a \<notin> set as'"
    using assms by (simp add: represents_def)
  moreover have "heap_frame as h (heap_free h a)"
    using Cons by (simp add: heap_frame_free)
  moreover obtain q' where "queuePopMessage h (Some q) = Ok (heap_free h a, q')"
    "represents (heap_free h a) q' as'" "q_locked q' = q_locked q"
    using queuePopMessage_Cons[of h q a as'] assms Cons by blast
  ultimately show ?thesis
    using Cons items_at_free[of a as' h] by (auto simp: items_at_def)
qed

text \<open>\<open>queuePopAllMessages\<close> returns, frees exactly the messages of the queue and leaves it
  empty.\<close>

definition free_all :: "heap \<Rightarrow> addr list \<Rightarrow> heap" where
  "free_all h as = h\<lparr>cells := (\<lambda>a. if a \<in> set as then None else cells h a)\<rparr>"

lemma pop_all_loop_ok:
  "represents h q as \<Longrightarrow>
     \<exists>q'. pop_all_loop h q = Ok (free_all h as, q') \<and> represents (free_all h as) q' [] \<and>
          q_locked q' = q_locked q"
proof (induction as arbitrary: h q)
  case Nil
  then show ?case by (simp add: pop_all_loop.simps free_all_def)
next
  case (Cons a as)
  obtain q1 where q1: "queuePopMessage h (Some q) = Ok (heap_free h a, q1)"
    "represents (heap_free h a) q1 as" "q_locked q1 = q_locked q"
    using queuePopMessage_Cons[OF Cons.prems] by blast
  have "free_all (heap_free h a) as = free_all h (a # as)"
    by (simp add: free_all_def heap_free_def) (rule arg_cong[of _ _ "\<lambda>f. h\<lparr>cells := f\<rparr>"], auto)
  moreover have "q_len q > 0"
    using Cons.prems by (simp add: represents_def)
  ultimately show ?case
    using q1 Cons.IH[OF q1(2)] by (auto simp: pop_all_loop.simps[of h q])
qed

lemma queuePopAllMessages_ok:
  assumes "represents h q as"
  shows "\<exists>q'. queuePopAllMessages h (Some q) = Ok (free_all h as, q') \<and>
    represents (free_all h as) q' [] \<and> q_locked q' = q_locked q"
  using pop_all_loop_ok[OF assms] by (auto simp: queuePopAllMessages_def)

lemma heap_frame_free_all: "heap_frame as h (free_all h as)"
  by (simp add: heap_frame_def free_all_def)

subsection \<open>Changing the first message\<close>

lemma upd_first_ok:
  assumes "represents h q (a # as)" "cells h a = Some m" "behindMe (f m) = behindMe m"
    and "message_wf (f m)"
  shows "heap_upd h (q_first q) f = Ok (heap_put h a (f m)) \<and>
    represents (heap_put h a (f m)) q (a # as) \<and>
    items_at (heap_put h a (f m)) (a # as) = view (f m) # items_at h as \<and>
    heap_frame [a] h (heap_put h a (f m)) \<and> next_addr (heap_put h a (f m)) = next_addr h"
proof -
  have a: "q_first q = Some a" "a \<notin> set as"
    using assms(1) by (simp_all add: represents_def)
  have wf: "message_wf m'" if "b \<in> set (a # as)" "cells h b = Some m'" for b m'
    using represents_cell[OF assms(1) that(1)] that(2) by auto
  have "represents (heap_put h a (f m)) q (a # as)"
    by (rule represents_cong[OF assms(1)])
      (use assms(2-4) wf in \<open>auto simp: heap_put_def split: if_splits\<close>)
  then show ?thesis
    using a assms(2) by (auto simp: heap_upd_def deref_def heap_put_def items_at_def heap_frame_def)
qed

subsection \<open>Looking for an identifier\<close>

text \<open>The comparison the walk makes: the incoming bytes with their sign, the stored ones
  without.\<close>

definition id_matches :: "byte \<Rightarrow> byte \<Rightarrow> byte \<Rightarrow> qitem \<Rightarrow> bool" where
  "id_matches high low ty it \<longleftrightarrow>
     sint high = uint (qi_high it) \<and> sint low = uint (qi_low it) \<and> ty = qi_type it"

lemma contains_from_chain:
  "chain h p as \<Longrightarrow> length as < fuel \<Longrightarrow>
     contains_from fuel h high low ty p
       = Some (Ok (list_ex (id_matches high low ty) (items_at h as)))"
proof (induction as arbitrary: p fuel)
  case Nil
  then show ?case by (cases fuel) (simp_all add: items_at_def)
next
  case (Cons a as)
  then obtain n where n: "fuel = Suc n" "length as < n" by (cases fuel) auto
  obtain m where m: "cells h a = Some m" "chain h (behindMe m) as" "p = Some a"
    using Cons.prems(1) by (auto split: option.splits)
  have "contains_from n h high low ty (behindMe m)
      = Some (Ok (list_ex (id_matches high low ty) (items_at h as)))"
    using Cons.IH m(2) n(2) by blast
  moreover have "id_matches high low ty (view m) \<longleftrightarrow>
      sint high = uint (u_high m) \<and> sint low = uint (u_low m) \<and> ty = mtype m"
    by (simp add: id_matches_def view_def)
  ultimately show ?case
    using m(1,3) n(1) by (auto simp: deref_def items_at_def)
qed

lemma represents_length: "represents h q as \<Longrightarrow> length as \<le> next_addr h"
  using card_mono[of "{..<next_addr h}" "set as"] by (auto simp: represents_def distinct_card)

lemma queueContainsMessageId_items:
  assumes "represents h q as" "points_to (buf_ptr b) [t, low, high]"
  shows "queueContainsMessageId h (Some q) b ty
     = Some (Ok (list_ex (id_matches high low ty) (items_at h as)))"
proof -
  have "contains_from (Suc (next_addr h)) h high low ty (q_first q)
      = Some (Ok (list_ex (id_matches high low ty) (items_at h as)))"
    using assms(1) represents_length[OF assms(1)]
    by (intro contains_from_chain) (simp_all add: represents_def)
  then show ?thesis
    using points_to_read[OF assms(2), of 1] points_to_read[OF assms(2), of 2]
    by (simp add: queueContainsMessageId_def msgid_positions)
qed

lemma sint_eq_uint_byte: "sint (a :: byte) = uint (b :: byte) \<longleftrightarrow> a = b \<and> a < 128"
proof -
  have lt: "a < 128 \<longleftrightarrow> uint a < 128" by (simp add: word_less_def)
  show ?thesis
  proof (cases "uint a < 128")
    case True
    then show ?thesis using lt by (simp add: byte_sint)
  next
    case False
    have "0 \<le> uint b" "uint a < 256" using uint_lt2p[of a] by simp_all
    with False have "sint a \<noteq> uint b" unfolding byte_sint by arith
    then show ?thesis using False lt by simp
  qed
qed

lemma id_matches_iff:
  "id_matches high low ty it \<longleftrightarrow>
     high = qi_high it \<and> low = qi_low it \<and> ty = qi_type it \<and> high < 128 \<and> low < 128"
  by (auto simp: id_matches_def sint_eq_uint_byte)

section \<open>The queue interface\<close>

text \<open>
  What the threads rely on, independent of the linked implementation: adding puts a message
  behind all others, a priority message goes first, popping removes the first message (and is
  harmless on an empty queue), clearing leaves nothing.
\<close>

locale message_queue =
  fixes valid :: "'q \<Rightarrow> bool"
    and items :: "'q \<Rightarrow> qitem list"
    and can_add :: "Buffer \<Rightarrow> bool"
    and add :: "Buffer \<Rightarrow> msg_flags \<Rightarrow> byte \<Rightarrow> 'q \<Rightarrow> 'q res"
    and add_first :: "Buffer \<Rightarrow> msg_flags \<Rightarrow> byte \<Rightarrow> 'q \<Rightarrow> 'q res"
    and pop :: "'q \<Rightarrow> 'q res"
    and clear :: "'q \<Rightarrow> 'q res"
  assumes add_law: "valid q \<Longrightarrow> can_add b \<Longrightarrow>
      \<exists>q'. add b f t q = Ok q' \<and> valid q' \<and> items q' = items q @ [new_item b f t]"
    and add_first_law: "valid q \<Longrightarrow> can_add b \<Longrightarrow>
      \<exists>q'. add_first b f t q = Ok q' \<and> valid q' \<and> items q' = new_item b f t # items q"
    and pop_law: "valid q \<Longrightarrow> \<exists>q'. pop q = Ok q' \<and> valid q' \<and> items q' = tl (items q)"
    and clear_law: "valid q \<Longrightarrow> \<exists>q'. clear q = Ok q' \<and> valid q' \<and> items q' = []"
begin

lemma add_list:
  "valid q \<Longrightarrow> \<forall>(b, f, t) \<in> set reqs. can_add b \<Longrightarrow>
     \<exists>q'. res_fold (\<lambda>(b, f, t). add b f t) reqs q = Ok q' \<and> valid q' \<and>
          items q' = items q @ map (\<lambda>(b, f, t). new_item b f t) reqs"
proof (induction reqs arbitrary: q)
  case Nil
  then show ?case by simp
next
  case (Cons r reqs)
  obtain b f t where r: "r = (b, f, t)" by (cases r)
  from Cons.prems r obtain q1 where q1: "add b f t q = Ok q1" "valid q1"
    "items q1 = items q @ [new_item b f t]"
    using add_law[of q b f t] by auto
  from Cons.IH[OF q1(2)] Cons.prems(2) show ?case
    using r q1 by auto
qed

lemma pop_times:
  "valid q \<Longrightarrow> \<exists>q'. res_fold (\<lambda>_. pop) (replicate k ()) q = Ok q' \<and> valid q' \<and>
                   items q' = drop k (items q)"
proof (induction k arbitrary: q)
  case 0
  then show ?case by simp
next
  case (Suc k)
  obtain q1 where "pop q = Ok q1" "valid q1" "items q1 = tl (items q)"
    using pop_law[OF Suc.prems] by blast
  with Suc.IH[of q1] show ?case by (auto simp: drop_Suc)
qed

lemma fifo:
  assumes "valid q" "\<forall>(b, f, t) \<in> set reqs. can_add b"
  shows "\<exists>q'. res_bind (res_fold (\<lambda>(b, f, t). add b f t) reqs q)
                (res_fold (\<lambda>_. pop) (replicate k ())) = Ok q' \<and> valid q' \<and>
              items q' = drop k (items q @ map (\<lambda>(b, f, t). new_item b f t) reqs)"
proof -
  obtain q1 where q1: "res_fold (\<lambda>(b, f, t). add b f t) reqs q = Ok q1" "valid q1"
    "items q1 = items q @ map (\<lambda>(b, f, t). new_item b f t) reqs"
    using add_list[OF assms] by blast
  then show ?thesis
    using pop_times[OF q1(2), of k] by auto
qed

lemma urgent_overtakes:
  assumes "valid q" "can_add b" "can_add b'"
  shows "\<exists>q'. res_bind (add b f t q) (add_first b' f' t') = Ok q' \<and> valid q' \<and>
              items q' = new_item b' f' t' # items q @ [new_item b f t]"
  using add_law[OF assms(1,2), of f t] add_first_law[of _ b' f' t'] assms(3) by fastforce

lemma clear_then_add:
  assumes "valid q" "can_add b"
  shows "\<exists>q'. res_bind (clear q) (add b f t) = Ok q' \<and> valid q' \<and> items q' = [new_item b f t]"
  using clear_law[OF assms(1)] add_law[of _ b f t] assms(2) by fastforce

end

text \<open>The linked queue of the code implements it.\<close>

interpretation linked_queue: message_queue
  "\<lambda>(h, q). queue_wf h q"
  "\<lambda>(h, q). queue_items h q"
  "\<lambda>b. buffer_wf b \<and> grants alloc b"
  "\<lambda>b f t (h, q). queueAddMessage alloc h (Some q) b f t"
  "\<lambda>b f t (h, q). queueAddMessagePriority alloc h (Some q) b f t"
  "\<lambda>(h, q). queuePopMessage h (Some q)"
  "\<lambda>(h, q). queuePopAllMessages h (Some q)"
  for alloc
proof (unfold_locales, goal_cases)
  case (1 s b f t)
  obtain h q where s: "s = (h, q)" by (cases s)
  then have "represents h q (queue_addrs h q)" using 1 by (simp add: queue_wf_def)
  from queueAddMessage_ok[OF this, of b alloc f t] 1(2) show ?case
    by (auto simp: s queue_items_def queue_addrs_represents represents_queue_wf)
next
  case (2 s b f t)
  obtain h q where s: "s = (h, q)" by (cases s)
  then have "represents h q (queue_addrs h q)" using 2 by (simp add: queue_wf_def)
  from queueAddMessagePriority_ok[OF this, of b alloc f t] 2(2) show ?case
    by (auto simp: s queue_items_def queue_addrs_represents represents_queue_wf)
next
  case (3 s)
  obtain h q where s: "s = (h, q)" by (cases s)
  then have "represents h q (queue_addrs h q)" using 3 by (simp add: queue_wf_def)
  from queuePopMessage_ok[OF this] show ?case
    by (auto simp: s queue_items_def queue_addrs_represents represents_queue_wf)
next
  case (4 s)
  obtain h q where s: "s = (h, q)" by (cases s)
  then have "represents h q (queue_addrs h q)" using 4 by (simp add: queue_wf_def)
  from queuePopAllMessages_ok[OF this] obtain q' where "queuePopAllMessages h (Some q)
      = Ok (free_all h (queue_addrs h q), q')" "represents (free_all h (queue_addrs h q)) q' []"
    by blast
  then show ?case
    using queue_items_represents represents_queue_wf by (fastforce simp: s items_at_def)
qed


section \<open>Properties\<close>

text \<open>A buffer the examples below put into a queue, and an empty queue on an empty heap.\<close>

definition sample_buffer :: "byte list \<Rightarrow> Buffer" where
  "sample_buffer bs = \<lparr>data = Some (map Some bs), allocated = length bs, used = length bs\<rparr>"

lemma sample_buffer_wf: "bs \<noteq> [] \<Longrightarrow> length bs < 2 ^ 64 \<Longrightarrow> buffer_wf (sample_buffer bs)"
  by (simp add: sample_buffer_def buffer_wf_def)

lemma queue_wf_init [simp]: "queue_wf h queueInit"
  by (rule represents_queue_wf[of _ _ "[]"]) (simp add: queueInit_def)

lemma queue_addrs_init [simp]: "queue_addrs h queueInit = []"
  by (simp add: queue_addrs_def queueInit_def)

text \<open>C22: the queue is first-in first-out. Adding the messages of a list one after the other and
  then popping \<open>k\<close> messages succeeds, keeps the representation invariant, and leaves the
  old messages followed by the new ones in their order, less the first \<open>k\<close>.\<close>

theorem queue_fifo:
  assumes "queue_wf h q" "\<forall>(b, f, t) \<in> set reqs. buffer_wf b \<and> grants alloc b"
  shows "\<exists>h' q'. res_bind
      (res_fold (\<lambda>(b, f, t) (h, q). queueAddMessage alloc h (Some q) b f t) reqs (h, q))
      (res_fold (\<lambda>_ (h, q). queuePopMessage h (Some q)) (replicate k ())) = Ok (h', q') \<and>
    queue_wf h' q' \<and>
    queue_items h' q' = drop k (queue_items h q @ map (\<lambda>(b, f, t). new_item b f t) reqs)"
  using linked_queue.fifo[of "(h, q)" reqs alloc k] assms
  by (auto simp: case_prod_unfold)

theorem queue_fifo_witness:
  "\<exists>h' q'. res_bind
      (res_fold (\<lambda>(b, f, t) (h, q). queueAddMessage (\<lambda>_. True) h (Some q) b f t)
        [(sample_buffer [1, 2], msg_flag_NONE, 4), (sample_buffer [3], msg_flag_BYE, 255)]
        (empty_heap, queueInit))
      (res_fold (\<lambda>_ (h, q). queuePopMessage h (Some q)) (replicate 1 ())) = Ok (h', q') \<and>
    queue_wf h' q' \<and>
    queue_items h' q' = drop 1 (queue_items empty_heap queueInit @ map (\<lambda>(b, f, t). new_item b f t)
      [(sample_buffer [1, 2], msg_flag_NONE, 4), (sample_buffer [3], msg_flag_BYE, 255)])"
  by (rule queue_fifo) (simp_all add: sample_buffer_wf grants_def)

text \<open>A priority message overtakes. After a normal and then a priority message were added,
  the priority message is the first of the queue and the normal one the last.\<close>

theorem queue_priority_first:
  assumes "queue_wf h q" "buffer_wf b" "grants alloc b" "buffer_wf b'" "grants alloc b'"
  shows "\<exists>h' q'. res_bind (queueAddMessage alloc h (Some q) b f t)
      (\<lambda>(h, q). queueAddMessagePriority alloc h (Some q) b' f' t') = Ok (h', q') \<and>
    queue_wf h' q' \<and>
    queue_items h' q' = new_item b' f' t' # queue_items h q @ [new_item b f t]"
  using linked_queue.urgent_overtakes[of "(h, q)" b alloc b' f t f' t'] assms by auto

theorem queue_priority_first_witness:
  "\<exists>h' q'. res_bind (queueAddMessage (\<lambda>_. True) empty_heap (Some queueInit) (sample_buffer [4, 0, 0])
        msg_flag_NONE 4)
      (\<lambda>(h, q). queueAddMessagePriority (\<lambda>_. True) h (Some q) (sample_buffer [0, 7, 0])
        msg_flag_CONFIRM 0) = Ok (h', q') \<and>
    queue_wf h' q' \<and>
    queue_items h' q' = new_item (sample_buffer [0, 7, 0]) msg_flag_CONFIRM 0
      # queue_items empty_heap queueInit @ [new_item (sample_buffer [4, 0, 0]) msg_flag_NONE 4]"
  by (rule queue_priority_first) (simp_all add: sample_buffer_wf grants_def)

text \<open>C30: two queues in one heap (the sending queue and the queue of confirmed messages) do not
  disturb each other: adding to one of them at either end and popping from it succeed and leave
  the messages of the other as they were, and the two still share no message.\<close>

theorem queues_independent:
  assumes "queue_wf h q" "queue_wf h q2" "set (queue_addrs h q) \<inter> set (queue_addrs h q2) = {}"
    and "r = queueAddMessage alloc h (Some q) b f t
       \<or> r = queueAddMessagePriority alloc h (Some q) b f t
       \<or> r = queuePopMessage h (Some q)"
    and "buffer_wf b" "grants alloc b"
  shows "\<exists>h' q'. r = Ok (h', q') \<and> queue_wf h' q' \<and> queue_wf h' q2 \<and>
    queue_items h' q2 = queue_items h q2 \<and>
    set (queue_addrs h' q') \<inter> set (queue_addrs h' q2) = {}"
proof -
  let ?as = "queue_addrs h q" and ?bs = "queue_addrs h q2"
  have rep: "represents h q ?as" and rep2: "represents h q2 ?bs"
    using assms(1,2) by (simp_all add: queue_wf_def)
  have "set (tl ?as) \<subseteq> set ?as" by (cases ?as) auto
  then have "\<exists>h' q' cs. r = Ok (h', q') \<and> represents h' q' cs \<and> heap_frame ?as h h' \<and>
      set cs \<subseteq> insert (next_addr h) (set ?as)"
    using assms(4) queueAddMessage_ok[OF rep assms(5,6), of f t]
      queueAddMessagePriority_ok[OF rep assms(5,6), of f t] queuePopMessage_ok[OF rep]
    by (elim disjE) (fastforce simp: heap_frame_def)+
  then obtain h' q' cs where r: "r = Ok (h', q')" and cs: "represents h' q' cs"
    "heap_frame ?as h h'" "set cs \<subseteq> insert (next_addr h) (set ?as)" by blast
  have "next_addr h \<notin> set ?bs"
    using rep2 by (auto simp: represents_def)
  then have "set cs \<inter> set ?bs = {}"
    using cs(3) assms(3) by auto
  moreover have rep2': "represents h' q2 ?bs" "items_at h' ?bs = items_at h ?bs"
    using represents_frame[OF rep2 cs(2) assms(3)] by auto
  ultimately show ?thesis
    using r cs(1) by (simp add: represents_queue_wf queue_addrs_represents queue_items_represents
        queue_items_def)
qed

text \<open>A heap with one recorded identifier, and the queue that holds it.\<close>

definition sample_heap :: heap where
  "sample_heap = \<lparr>cells = (\<lambda>_. None)(0 \<mapsto>
       \<lparr>m_buffer = None, behindMe = None, u_high = 0, u_low = 5, mtype = 4, msgFlags = msg_flag_ERR\<rparr>),
     next_addr = 1\<rparr>"

definition sample_queue :: MessageQueue where
  "sample_queue = \<lparr>q_first = Some 0, q_last = Some 0, q_len = 1, q_locked = False\<rparr>"

lemma sample_represents: "represents sample_heap sample_queue [0]"
  by (simp add: represents_def sample_heap_def sample_queue_def message_wf_def)

text \<open>A message whose buffer holds the given bytes, alone in the queue.\<close>

definition sample_message :: "byte list \<Rightarrow> Message" where
  "sample_message bs = \<lparr>m_buffer = Some (sample_buffer bs), behindMe = None, u_high = 0, u_low = 0,
     mtype = 2, msgFlags = msg_flag_AUTH\<rparr>"

definition message_heap :: "byte list \<Rightarrow> heap" where
  "message_heap bs = \<lparr>cells = (\<lambda>_. None)(0 \<mapsto> sample_message bs), next_addr = 1\<rparr>"

lemma message_heap_represents:
  "bs \<noteq> [] \<Longrightarrow> length bs < 2 ^ 64 \<Longrightarrow> represents (message_heap bs) sample_queue [0]"
  by (simp add: represents_def message_heap_def sample_queue_def message_wf_def sample_message_def
      sample_buffer_wf)

lemma message_heap_items:
  "bs \<noteq> [] \<Longrightarrow> length bs < 2 ^ 64 \<Longrightarrow>
     queue_items (message_heap bs) sample_queue = [view (sample_message bs)]"
  by (subst queue_items_represents[OF message_heap_represents])
    (simp_all add: items_at_def message_heap_def)

theorem queues_independent_witness:
  "\<exists>h' q'. queueAddMessage (\<lambda>_. True) sample_heap (Some queueInit) (sample_buffer [1]) msg_flag_NONE 4
      = Ok (h', q') \<and> queue_wf h' q' \<and> queue_wf h' sample_queue \<and>
    queue_items h' sample_queue = queue_items sample_heap sample_queue \<and>
    set (queue_addrs h' q') \<inter> set (queue_addrs h' sample_queue) = {}"
  by (rule queues_independent[where alloc = "\<lambda>_. True" and b = "sample_buffer [1]"
        and f = msg_flag_NONE and t = 4 and q = queueInit])
    (simp_all add: sample_buffer_wf grants_def represents_queue_wf[OF sample_represents])

text \<open>\<open>queuePopAllMessages\<close> returns, frees exactly the messages of the queue, and the queue
  is empty and well formed afterwards.\<close>

theorem queuePopAllMessages_frees:
  assumes "queue_wf h q"
  shows "\<exists>h' q'. queuePopAllMessages h (Some q) = Ok (h', q') \<and> queue_wf h' q' \<and>
    queue_items h' q' = [] \<and> q_len q' = 0 \<and>
    (\<forall>a. cells h' a = (if a \<in> set (queue_addrs h q) then None else cells h a))"
proof -
  obtain q' where "queuePopAllMessages h (Some q) = Ok (free_all h (queue_addrs h q), q')"
    "represents (free_all h (queue_addrs h q)) q' []"
    using queuePopAllMessages_ok[of h q "queue_addrs h q"] assms by (auto simp: queue_wf_def)
  then show ?thesis
    using queue_items_represents represents_queue_wf
    by (fastforce simp: items_at_def free_all_def)
qed

theorem queuePopAllMessages_frees_witness:
  "\<exists>h' q'. queuePopAllMessages empty_heap (Some queueInit) = Ok (h', q') \<and> queue_wf h' q' \<and>
    queue_items h' q' = [] \<and> q_len q' = 0 \<and>
    (\<forall>a. cells h' a
       = (if a \<in> set (queue_addrs empty_heap queueInit) then None else cells empty_heap a))"
  by (rule queuePopAllMessages_frees) simp

text \<open>C23: recognising a repeated message. Once the identifier of a message was recorded, the same
  message is found again exactly when both bytes of its identifier are below 128: the bytes of
  the incoming message are compared with their sign.\<close>

theorem recorded_id_found:
  assumes "queue_wf h q" "alloc sizeof_Message" "points_to (buf_ptr b) [t, low, high]" "3 \<le> used b"
  shows "\<exists>h' q'. queueAddMessageOnlyID alloc h (Some q) b ty = Ok (h', q') \<and> queue_wf h' q' \<and>
    queueContainsMessageId h' (Some q') b ty = Some (Ok (high < 128 \<and> low < 128))"
proof -
  have "represents h q (queue_addrs h q)" using assms(1) by (simp add: queue_wf_def)
  from queueAddMessageOnlyID_ok[OF this, of alloc b t low high ty] assms(2-4)
  obtain h' q' where h': "queueAddMessageOnlyID alloc h (Some q) b ty = Ok (h', q')"
    "represents h' q' (next_addr h # queue_addrs h q)"
    "items_at h' (next_addr h # queue_addrs h q) =
      \<lparr>qi_bytes = None, qi_high = high, qi_low = low, qi_type = ty, qi_flags = msg_flag_ERR\<rparr>
        # items_at h (queue_addrs h q)" by auto
  then have "queueContainsMessageId h' (Some q') b ty = Some (Ok (high < 128 \<and> low < 128))"
    using queueContainsMessageId_items[OF h'(2) assms(3), of ty]
    by (auto simp: id_matches_iff list_ex_iff)
  then show ?thesis
    using h' represents_queue_wf by blast
qed

theorem recorded_id_found_witness:
  "\<exists>h' q'. queueAddMessageOnlyID (\<lambda>_. True) empty_heap (Some queueInit) (sample_buffer [4, 128, 0]) 4
      = Ok (h', q') \<and> queue_wf h' q' \<and>
    queueContainsMessageId h' (Some q') (sample_buffer [4, 128, 0]) 4
      = Some (Ok ((0 :: byte) < 128 \<and> (128 :: byte) < 128))"
  by (rule recorded_id_found[where t = 4])
    (simp_all add: points_to_def buf_ptr_def sample_buffer_def)


text \<open>C31: labelling a message. \<open>queueSetMessageID\<close> on a first message that carries an identifier
  of its own writes the low and the high byte of the counter to its bytes 1 and 2 and changes
  nothing else; \<open>queueGetMessageID\<close> then reads the counter back if its low byte is below 128 and
  the counter less 256 otherwise.\<close>

theorem set_then_get_message_id:
  assumes "queue_wf h q" "queue_items h q = it # its" "qi_bytes it = Some bs" "3 \<le> length bs"
    and "qi_flags it \<noteq> msg_flag_CONFIRM" "qi_flags it \<noteq> msg_flag_NOK_REPLY"
  shows "\<exists>h'. queueSetMessageID h (Some q) n = Ok h' \<and> queue_wf h' q \<and>
    queue_items h' q = it\<lparr>qi_bytes := Some (bs[2 := Some (fst (breakU16IntToBytes n)),
      1 := Some (snd (breakU16IntToBytes n))])\<rparr> # its \<and>
    queueGetMessageID h' (Some q) = Ok (if uint n mod 256 < 128 then n else n - 256)"
proof -
  obtain a as where as: "queue_addrs h q = a # as"
    using assms(2) by (auto simp: queue_items_def items_at_def)
  then have rep: "represents h q (a # as)" using assms(1) by (simp add: queue_wf_def)
  then obtain m where m: "cells h a = Some m" "message_wf m" by (auto elim: represents_cell)
  have it: "it = view m" "its = items_at h as"
    using assms(2) as m(1) by (simp_all add: queue_items_def items_at_def)
  then obtain b where b: "m_buffer m = Some b" "bs = contents b"
    using assms(3) by (auto simp: view_def)
  then have "buffer_wf b" using m(2) by (simp add: message_wf_def)
  then obtain d where d: "data b = Some d" "length d = allocated b" "used b \<le> length d"
    "length d < 2 ^ 64" "3 \<le> used b"
    using assms(4) b(2) by (auto simp: buffer_wf_def contents_def split: option.splits)
  obtain high low where hl: "breakU16IntToBytes n = (high, low)" by (cases "breakU16IntToBytes n")
  let ?b = "b\<lparr>data := Some (d[2 := Some high, 1 := Some low])\<rparr>"
  let ?f = "\<lambda>m. m\<lparr>m_buffer := Some ?b\<rparr>"
  have "buffer_wf ?b" using \<open>buffer_wf b\<close> d by (simp add: buffer_wf_def)
  then have upd: "heap_upd h (q_first q) ?f = Ok (heap_put h a (?f m))"
    "represents (heap_put h a (?f m)) q (a # as)"
    "items_at (heap_put h a (?f m)) (a # as) = view (?f m) # items_at h as"
    using upd_first_ok[OF rep m(1), of ?f] by (simp_all add: message_wf_def)
  have first: "q_first q = Some a" using represents_first[OF rep] by simp
  have "queueSetMessageID h (Some q) n = Ok (heap_put h a (?f m))"
    using first m(1) b(1) d assms(5,6) it(1) hl upd(1)
    by (simp add: queueSetMessageID_def deref_def msg_buffer_def buf_write_def msgid_positions view_def)
  moreover have "queueGetMessageID (heap_put h a (?f m)) (Some q) = Ok (convert2BytesToU16Int low high)"
    using first d by (simp add: queueGetMessageID_def deref_def heap_put_def msg_buffer_def buf_ptr_def
        ptr_read_def msgid_positions numeral_2_eq_2)
  moreover have "view (?f m) = it\<lparr>qi_bytes := Some (bs[2 := Some high, 1 := Some low])\<rparr>"
    using it b d by (simp add: view_def contents_def take_update_swap)
  moreover have "convert2BytesToU16Int low high = (if uint n mod 256 < 128 then n else n - 256)"
    using message_id_value[of n] hl by simp
  ultimately show ?thesis
    using upd it hl by (auto simp: represents_queue_wf queue_items_represents)
qed

theorem set_then_get_message_id_witness:
  "\<exists>h'. queueSetMessageID (message_heap [2, 0, 0, 65, 0])
        (Some sample_queue) 384 = Ok h' \<and> queue_wf h' sample_queue \<and>
    queue_items h' sample_queue = (view (sample_message [2, 0, 0, 65, 0]))
      \<lparr>qi_bytes := Some ((map Some [2, 0, 0, 65, 0])[2 := Some (fst (breakU16IntToBytes 384)),
      1 := Some (snd (breakU16IntToBytes 384))])\<rparr> # [] \<and>
    queueGetMessageID h' (Some sample_queue)
      = Ok (if uint (384 :: 16 word) mod 256 < 128 then 384 else 384 - 256)"
  by (rule set_then_get_message_id)
    (simp_all add: message_heap_items represents_queue_wf[OF message_heap_represents] sample_message_def view_def contents_def sample_buffer_def)

end
