(* ===== verification/Chat_ProgramInterface.thy ===== *)
theory Chat_ProgramInterface
  imports Chat_Queue_Refinement
begin

text \<open>
  The state the three threads share: the structures of \<open>libs/programInterface.h\<close> and
  \<open>libs/networkCom.h\<close>, the heap the message queues live in, and what the program has done to the
  outside world so far. The operations of \<open>libs/programInterface.c\<close> and the synchronisation
  primitives the threads use are programs over that state.
\<close>

section \<open>Network configuration\<close>

datatype prot_t = prot_ERR | prot_UDP | prot_TCP

text \<open>The socket address is the value the name resolution returned; \<open>None\<close> is \<open>NULL\<close>.\<close>

record NetworkConfig =
  protocol :: prot_t
  portNumber :: "16 word"
  udpTimeout :: "16 word"
  udpMaxRetries :: "8 word"
  openedSocket :: int
  serverAddress :: "byte list option"
  serverAddressSize :: nat

text \<open>The bytes \<open>sendto\<close> and \<open>recvfrom\<close> see of the address: those within the stored size.\<close>

definition server_address :: "NetworkConfig \<Rightarrow> byte list option" where
  "server_address n = map_option (take (serverAddressSize n)) (serverAddress n)"

definition PORT_NUMBER :: "16 word" where
  "PORT_NUMBER = 4567"

definition defaultNetworkConfig :: NetworkConfig where
  "defaultNetworkConfig =
     \<lparr>protocol = prot_ERR, portNumber = PORT_NUMBER, udpTimeout = 250, udpMaxRetries = 3,
      openedSocket = - 1, serverAddress = None, serverAddressSize = 0\<rparr>"

section \<open>The program interface\<close>

record CommunicationDetails =
  displayName :: Buffer
  channelID :: Buffer
  msgCounter :: "16 word"

text \<open>Of the mutexes only \<open>stdoutMutex\<close> can be held when a handler ends; \<open>fsmMutex\<close> is released
  by the functions that take it, and the others are only passed to waits.\<close>

record ThreadCommunication =
  fsmState :: fsm_t
  stdoutMutex :: bool
  sendingQueue :: MessageQueue

record CleanUp =
  clientInput :: Buffer
  protocolToSendedByMain :: Buffer
  protocolToSendedByReceiver :: Buffer
  protocolToSendedBySender :: Buffer
  serverResponse :: Buffer
  confirmedMessages :: MessageQueue

datatype condition = senderEmptyQueueCond | rec2SenderCond | mainCond

text \<open>What the outside world and the other threads see: text on the two streams, the address and the
  bytes given to \<open>sendto\<close>, and condition variables that were signalled.\<close>

datatype event =
    Stdout "byte list"
  | Stderr "byte list"
  | Sent "byte list option" "cell list"
  | Signal condition
  | Shutdown

record ProgramInterface =
  comDetails :: CommunicationDetails
  netConfig :: NetworkConfig
  threads :: ThreadCommunication
  cleanUp :: CleanUp
  memory :: heap
  events :: "event list"

type_synonym 'a thread = "('a, ProgramInterface) prog"

text \<open>One thing the other threads do while a thread waits; a wait that is never woken up again
  finds the list of them empty.\<close>

type_synonym interference = "ProgramInterface \<Rightarrow> ProgramInterface"

subsection \<open>Access to the shared structures\<close>

abbreviation fsm :: "ProgramInterface \<Rightarrow> fsm_t" where
  "fsm s \<equiv> fsmState (threads s)"

abbreviation sending :: "ProgramInterface \<Rightarrow> MessageQueue" where
  "sending s \<equiv> sendingQueue (threads s)"

abbreviation confirmedMsgs :: "ProgramInterface \<Rightarrow> MessageQueue" where
  "confirmedMsgs s \<equiv> confirmedMessages (cleanUp s)"

abbreviation is_UDP :: "ProgramInterface \<Rightarrow> bool" where
  "is_UDP s \<equiv> protocol (netConfig s) = prot_UDP"

abbreviation is_TCP :: "ProgramInterface \<Rightarrow> bool" where
  "is_TCP s \<equiv> protocol (netConfig s) = prot_TCP"

definition set_fsm :: "fsm_t \<Rightarrow> ProgramInterface \<Rightarrow> ProgramInterface" where
  "set_fsm x s = s\<lparr>threads := (threads s)\<lparr>fsmState := x\<rparr>\<rparr>"

definition set_sending :: "MessageQueue \<Rightarrow> ProgramInterface \<Rightarrow> ProgramInterface" where
  "set_sending q s = s\<lparr>threads := (threads s)\<lparr>sendingQueue := q\<rparr>\<rparr>"

definition set_confirmed :: "MessageQueue \<Rightarrow> ProgramInterface \<Rightarrow> ProgramInterface" where
  "set_confirmed q s = s\<lparr>cleanUp := (cleanUp s)\<lparr>confirmedMessages := q\<rparr>\<rparr>"

definition set_msgCounter :: "16 word \<Rightarrow> ProgramInterface \<Rightarrow> ProgramInterface" where
  "set_msgCounter n s = s\<lparr>comDetails := (comDetails s)\<lparr>msgCounter := n\<rparr>\<rparr>"

definition emit :: "event list \<Rightarrow> ProgramInterface \<Rightarrow> ProgramInterface" where
  "emit es s = s\<lparr>events := events s @ es\<rparr>"

lemmas state_defs [prog_simps] =
  set_fsm_def set_sending_def set_confirmed_def set_msgCounter_def emit_def

section \<open>Operations\<close>

definition setProgramState :: "fsm_t \<Rightarrow> unit thread" where
  "setProgramState newState = modify (set_fsm newState)"

definition getProgramState :: "fsm_t thread" where
  "getProgramState = asks fsm"

text \<open>\<open>pthread_cond_signal\<close>; a thread waiting on the condition goes on when it is scheduled.\<close>

definition cond_signal :: "condition \<Rightarrow> unit thread" where
  "cond_signal c = modify (emit [Signal c])"

text \<open>
  \<open>pthread_cond_wait\<close>: the other threads act, then the thread goes on; \<open>Blocked\<close> when nobody
  wakes it up. \<open>pthread_cond_timedwait\<close> is the same with the expired timer as one of the things
  that can happen.
\<close>

fun cond_wait :: "condition \<Rightarrow> interference list \<Rightarrow> interference list thread" where
  "cond_wait c [] s = Blocked s"
| "cond_wait c (f # others) s = Done others (f s)"

text \<open>\<open>safePrintStderr\<close> and \<open>safePrintStdout\<close>: they wait for \<open>stdoutMutex\<close>.\<close>

definition safePrint :: "event \<Rightarrow> unit thread" where
  "safePrint e s = (if stdoutMutex (threads s) then Blocked s else Done () (emit [e] s))"

definition safePrintStderr :: "byte list \<Rightarrow> unit thread" where
  "safePrintStderr msg = safePrint (Stderr msg)"

definition safePrintStdout :: "byte list \<Rightarrow> unit thread" where
  "safePrintStdout msg = safePrint (Stdout msg)"

definition lockStdout :: "unit thread" where
  "lockStdout s =
     (if stdoutMutex (threads s) then Blocked s
      else Done () (s\<lparr>threads := (threads s)\<lparr>stdoutMutex := True\<rparr>\<rparr>))"

definition unlockStdout :: "unit thread" where
  "unlockStdout = modify (\<lambda>s. s\<lparr>threads := (threads s)\<lparr>stdoutMutex := False\<rparr>\<rparr>)"

subsection \<open>The help menus\<close>

definition printCliHelpMenu :: "string \<Rightarrow> unit thread" where
  "printCliHelpMenu executableName = modify (emit [Stdout (bytes_of (concat
     [''Usage: '', executableName,
      '' [OPTION] [ARGUMENT] ...'', [CHR 0x0A],
      ''Starts client for communication with server at provided address '',
      ''(through -s OPTION) using IPK24-CHAT Protocol based on TCP or '',
      ''UDP (based on -t OPTION)'', [CHR 0x0A], [CHR 0x0A], ''Mandatory options:'', [CHR 0x0A],
      [CHR 0x09], ''-s'', [CHR 0x09], ''- '', ''Sets server IP address (can be in '', [CHR 0x22],
      ''www.server.com'', [CHR 0x22], '' format) '', ''to which client will try to connect'',
      [CHR 0x0A], [CHR 0x09], ''-t'', [CHR 0x09], ''- '',
      ''Sets between UDP or TCP protocol to be used for sending messages to server'', [CHR 0x0A],
      [CHR 0x0A], ''Non-mandatory options:'', [CHR 0x0A], [CHR 0x09], ''-p'', [CHR 0x09], ''- '',
      ''Specifies which port will client try to connect to at specified '',
      ''IP adress. Default value is 4567.'', [CHR 0x0A], [CHR 0x09], ''-d'', [CHR 0x09], ''- '',
      ''Sets UDP confirmation timeout in milliseconds'', [CHR 0x0A], [CHR 0x09], ''-r'',
      [CHR 0x09], ''- '', ''Sets maximum number of UDP retransmissions'', [CHR 0x0A], [CHR 0x09],
      ''-h'', [CHR 0x09], ''- '', ''Prints this help menu end exits program with code 0'',
      [CHR 0x0A]]))])"

definition printUserHelpMenu :: "unit thread" where
  "printUserHelpMenu = safePrintStdout (bytes_of (concat
     [''Commands start with '', [CHR 0x22], ''/'', [CHR 0x22], '', '', [CHR 0x22], ''{arg}'',
      [CHR 0x22], '' symbolize mandatory arguments for'',
      '' command, explanation of command is written after '', [CHR 0x22], ''-'', [CHR 0x22],
      '' symbol.'', '' Eligable commands are listed below: '', [CHR 0x0A], [CHR 0x0A],
      [CHR 0x09], ''/auth {Username} {Secret} {DisplayName}'', [CHR 0x09], [CHR 0x09], ''- '',
      ''Authenticates user to server with data provided from the arguments. '',
      ''{Username} and {Secret} are credentials. {Displayname} is name under '',
      ''which will user(this) send messages to server.'', [CHR 0x0A], [CHR 0x09],
      ''/join {ChannelID}'', [CHR 0x09], [CHR 0x09], [CHR 0x09], [CHR 0x09], ''- '',
      ''Joins user to channel with {ChannelID}'', [CHR 0x0A], [CHR 0x09],
      ''/rename {DisplayName}'', [CHR 0x09], [CHR 0x09], [CHR 0x09], [CHR 0x09], ''- '',
      ''Renames user to {Displayname}'', [CHR 0x0A], [CHR 0x09], ''/help'', [CHR 0x09],
      [CHR 0x09], [CHR 0x09], [CHR 0x09], [CHR 0x09], [CHR 0x09], ''- '',
      ''Prints this help message.'', [CHR 0x0A]]))"

subsection \<open>The sending queue inside a thread\<close>

text \<open>Locking a mutex that is taken suspends the thread.\<close>

definition lockSending :: "unit thread" where
  "lockSending s =
     (case queueLock (Some (sending s)) of
        Ok None \<Rightarrow> Blocked s
      | Ok (Some q) \<Rightarrow> Done () (set_sending q s)
      | Err c \<Rightarrow> Exits c s
      | Fault e \<Rightarrow> Crashes e)"

definition unlockSending :: "unit thread" where
  "unlockSending s = bind_prog (lift_res (queueUnlock (Some (sending s)))) (\<lambda>q. modify (set_sending q)) s"

definition lockConfirmed :: "unit thread" where
  "lockConfirmed s =
     (case queueLock (Some (confirmedMsgs s)) of
        Ok None \<Rightarrow> Blocked s
      | Ok (Some q) \<Rightarrow> Done () (set_confirmed q s)
      | Err c \<Rightarrow> Exits c s
      | Fault e \<Rightarrow> Crashes e)"

definition unlockConfirmed :: "unit thread" where
  "unlockConfirmed s =
     bind_prog (lift_res (queueUnlock (Some (confirmedMsgs s)))) (\<lambda>q. modify (set_confirmed q)) s"

text \<open>An operation of \<open>Chat_Queue\<close> on the sending queue: one that changes heap and queue, one that
  changes the heap only, one that only reads.\<close>

definition on_sending :: "(heap \<Rightarrow> MessageQueue \<Rightarrow> (heap \<times> MessageQueue) res) \<Rightarrow> unit thread" where
  "on_sending f s =
     bind_prog (lift_res (f (memory s) (sending s)))
       (\<lambda>(h, q). modify (\<lambda>s. set_sending q (s\<lparr>memory := h\<rparr>))) s"

definition on_memory :: "(heap \<Rightarrow> MessageQueue \<Rightarrow> heap res) \<Rightarrow> unit thread" where
  "on_memory f s =
     bind_prog (lift_res (f (memory s) (sending s))) (\<lambda>h. modify (\<lambda>s. s\<lparr>memory := h\<rparr>)) s"

definition read_sending :: "(heap \<Rightarrow> MessageQueue \<Rightarrow> 'a res) \<Rightarrow> 'a thread" where
  "read_sending f s = lift_res (f (memory s) (sending s)) s"

definition on_confirmed :: "(heap \<Rightarrow> MessageQueue \<Rightarrow> (heap \<times> MessageQueue) res) \<Rightarrow> unit thread" where
  "on_confirmed f s =
     bind_prog (lift_res (f (memory s) (confirmedMsgs s)))
       (\<lambda>(h, q). modify (\<lambda>s. set_confirmed q (s\<lparr>memory := h\<rparr>))) s"


section \<open>Composing threads\<close>

text \<open>Statements in a row, and a statement under a condition on the state.\<close>

fun steps :: "unit thread list \<Rightarrow> unit thread" where
  "steps [] = ret ()"
| "steps (p # ps) = bind_prog p (\<lambda>_. steps ps)"

definition when_state :: "(ProgramInterface \<Rightarrow> bool) \<Rightarrow> unit thread \<Rightarrow> unit thread" where
  "when_state b p s = (if b s then p s else Done () s)"

text \<open>\<open>errHandling\<close> called by the thread itself.\<close>

definition errExit :: "err_code \<Rightarrow> 'a thread" where
  "errExit c s = Exits c s"

text \<open>The buffers a message is assembled in, one for each thread.\<close>

datatype out_buffer = By_Main | By_Receiver | By_Sender

fun out_get :: "out_buffer \<Rightarrow> ProgramInterface \<Rightarrow> Buffer" where
  "out_get By_Main s = protocolToSendedByMain (cleanUp s)"
| "out_get By_Receiver s = protocolToSendedByReceiver (cleanUp s)"
| "out_get By_Sender s = protocolToSendedBySender (cleanUp s)"

fun out_set :: "out_buffer \<Rightarrow> Buffer \<Rightarrow> ProgramInterface \<Rightarrow> ProgramInterface" where
  "out_set By_Main b s = s\<lparr>cleanUp := (cleanUp s)\<lparr>protocolToSendedByMain := b\<rparr>\<rparr>"
| "out_set By_Receiver b s = s\<lparr>cleanUp := (cleanUp s)\<lparr>protocolToSendedByReceiver := b\<rparr>\<rparr>"
| "out_set By_Sender b s = s\<lparr>cleanUp := (cleanUp s)\<lparr>protocolToSendedBySender := b\<rparr>\<rparr>"

definition resize_out :: "allocator \<Rightarrow> out_buffer \<Rightarrow> nat \<Rightarrow> unit thread" where
  "resize_out alloc ob n s =
     bind_prog (lift_res (bufferResize alloc (out_get ob s) n)) (\<lambda>b. modify (out_set ob b)) s"

lemma steps_run [prog_simps]:
  "steps [] s = Done () s"
  "steps (p # ps) s = bind_prog p (\<lambda>_. steps ps) s"
  by (simp_all add: ret_run)

end
