(* ===== verification/Chat_Protocol.thy ===== *)
theory Chat_Protocol
  imports Chat_ProgramInterface
begin

text \<open>
  Assembling and disassembling of protocol messages and the splitting of user input:
  \<open>libs/ipk24protocol.c\<close>. The functions take the parts of the program interface they read as
  arguments and return what they write, together with the text they print.
\<close>

section \<open>Protocol blocks\<close>

text \<open>
  \<open>struct ProtocolBlocks\<close>. The unions give several names to each of the four blocks, listed below
  as abbreviations. \<open>msg_reply_result_bool\<close> shares its memory with \<open>third\<close> in the code; nothing
  reads one of them after the other was written.
\<close>

record ProtocolBlocks =
  pb_type :: byte
  pb_msgID :: "16 word"
  zeroth :: BytesBlock
  first :: BytesBlock
  second :: BytesBlock
  third :: BytesBlock
  msg_reply_result_bool :: bool

abbreviation "cmd_msg_MsgContents \<equiv> zeroth"
abbreviation "cmd_conf_lowMsgID \<equiv> zeroth"
abbreviation "cmd_auth_username \<equiv> first"
abbreviation "cmd_join_channelID \<equiv> first"
abbreviation "cmd_rename_displayname \<equiv> first"
abbreviation "cmd_conf_highMsgID \<equiv> first"
abbreviation "cmd_auth_secret \<equiv> second"
abbreviation "cmd_auth_displayname \<equiv> third"
abbreviation "msg_reply_result \<equiv> zeroth"
abbreviation "msg_msg_displayname \<equiv> zeroth"
abbreviation "msg_msg_MsgContents \<equiv> first"
abbreviation "msg_reply_refMsgID \<equiv> first"
abbreviation "msg_reply_MsgContents \<equiv> second"

definition no_block :: BytesBlock where
  "no_block = \<lparr>bb_start = None, bb_len = 0\<rparr>"

definition resetProtocolBlocks :: "ProtocolBlocks \<Rightarrow> ProtocolBlocks" where
  "resetProtocolBlocks pb =
     pb\<lparr>zeroth := no_block, first := no_block, second := no_block, third := no_block\<rparr>"

text \<open>The macros that append to the buffer; the second component is \<open>ptrPos\<close>.\<close>

type_synonym outbuf = "Buffer \<times> nat"

definition ADD_BLOCK_TO_BUFFER :: "BytesBlock \<Rightarrow> outbuf \<Rightarrow> outbuf res" where
  "ADD_BLOCK_TO_BUFFER src = (\<lambda>(buffer, ptrPos).
     res_bind (stringReplace (data buffer) ptrPos (bb_start src) (bb_len src)) (\<lambda>d.
     Ok (buffer\<lparr>data := d\<rparr>, size_add ptrPos (bb_len src))))"

definition ADD_ZERO_BYTE :: "outbuf \<Rightarrow> outbuf res" where
  "ADD_ZERO_BYTE = (\<lambda>(buffer, ptrPos).
     res_bind (buf_write buffer ptrPos 0) (\<lambda>buffer. Ok (buffer, size_add ptrPos 1)))"

definition ADD_STORED_INFO_TO_BUFFER :: "Buffer \<Rightarrow> outbuf \<Rightarrow> outbuf res" where
  "ADD_STORED_INFO_TO_BUFFER src = (\<lambda>(buffer, ptrPos).
     res_bind (stringReplace (data buffer) ptrPos (buf_ptr src) (used src)) (\<lambda>d.
     Ok (buffer\<lparr>data := d\<rparr>, size_add ptrPos (used src))))"

definition ADD_STRING_TO_BUFFER :: "string \<Rightarrow> outbuf \<Rightarrow> outbuf res" where
  "ADD_STRING_TO_BUFFER string = (\<lambda>(buffer, ptrPos).
     res_bind (stringReplace (data buffer) ptrPos (literal string) (length string)) (\<lambda>d.
     Ok (buffer\<lparr>data := d\<rparr>, size_add ptrPos (length string))))"

text \<open>Several of them in a row.\<close>

fun appends :: "(outbuf \<Rightarrow> outbuf res) list \<Rightarrow> outbuf \<Rightarrow> outbuf res" where
  "appends [] out = Ok out"
| "appends (f # fs) out = res_bind (f out) (appends fs)"

section \<open>Assembling\<close>

definition sum_of_lengths :: "ProtocolBlocks \<Rightarrow> nat" where
  "sum_of_lengths pb =
     size_add (size_add (size_add (bb_len (zeroth pb)) (bb_len (first pb))) (bb_len (second pb)))
       (bb_len (third pb))"

definition no_displayname_join :: "byte list" where
  "no_displayname_join =
     bytes_of ''System: Displayname not provided, cannot join! Use /help for help.'' @ [10]"

definition no_displayname_msg :: "byte list" where
  "no_displayname_msg = bytes_of
     (''System: ChannelID not provided, cannot rename!'' @
      ''(Did you use /auth before this commands?). Use /help for help.'') @ [10]"

text \<open>Returned are: whether the message can be sent, the blocks (with the new type), the buffer
  and the text printed to \<open>stderr\<close>.\<close>

type_synonym assembled = "bool \<times> ProtocolBlocks \<times> Buffer \<times> byte list"

definition assembleProtocolUDP ::
  "allocator \<Rightarrow> CommunicationDetails \<Rightarrow> ProtocolBlocks \<Rightarrow> Buffer \<Rightarrow> assembled res"
where
  "assembleProtocolUDP alloc cd pb buffer =
     (let expectedSize = size_add (sum_of_lengths pb) 10 in
      res_bind (bufferResize alloc buffer expectedSize) (\<lambda>buffer.
      let type = uchar2CommandType (pb_type pb);
          \<comment> \<open>the rest of the function after the first switch\<close>
          rest = (\<lambda>msg expectedSize.
            res_bind (buf_write buffer 0 (msg_byte msg)) (\<lambda>buffer.
            res_bind (bufferResize alloc buffer expectedSize) (\<lambda>buffer.
            let ptrPos = 3;
                finish = (\<lambda>msg. \<lambda>(buffer, ptrPos).
                  Ok (True, pb\<lparr>pb_type := msg_byte msg\<rparr>, buffer\<lparr>used := ptrPos\<rparr>, [])) in
            (case type of
               cmd_AUTH \<Rightarrow>
                 res_bind (appends
                   [ADD_BLOCK_TO_BUFFER (cmd_auth_username pb), ADD_ZERO_BYTE,
                    ADD_BLOCK_TO_BUFFER (cmd_auth_displayname pb), ADD_ZERO_BYTE,
                    ADD_BLOCK_TO_BUFFER (cmd_auth_secret pb), ADD_ZERO_BYTE] (buffer, ptrPos))
                 (finish msg_AUTH)
             | cmd_JOIN \<Rightarrow>
                 res_bind (appends
                   [ADD_BLOCK_TO_BUFFER (cmd_join_channelID pb), ADD_ZERO_BYTE] (buffer, ptrPos))
                 (\<lambda>(buffer, ptrPos).
                 if data (displayName cd) = None then Ok (False, pb, buffer, no_displayname_join)
                 else
                   res_bind (appends
                     [ADD_STORED_INFO_TO_BUFFER (displayName cd), ADD_ZERO_BYTE] (buffer, ptrPos))
                   (finish msg_JOIN))
             | _ \<Rightarrow> \<comment> \<open>\<open>cmd_ERR\<close>, \<open>cmd_MSG\<close>\<close>
                 if data (displayName cd) = None then Ok (False, pb, buffer, no_displayname_msg)
                 else
                   res_bind (appends
                     [ADD_STORED_INFO_TO_BUFFER (displayName cd), ADD_ZERO_BYTE,
                      ADD_BLOCK_TO_BUFFER (cmd_msg_MsgContents pb), ADD_ZERO_BYTE] (buffer, ptrPos))
                   (finish (if type = cmd_MSG then msg_MSG else msg_ERR)))))) in
      (case type of
         cmd_AUTH \<Rightarrow> rest msg_AUTH expectedSize
       | cmd_JOIN \<Rightarrow> rest msg_JOIN (size_add expectedSize (used (channelID cd)))
       | cmd_ERR \<Rightarrow> rest msg_ERR (size_add expectedSize (used (displayName cd)))
       | cmd_MSG \<Rightarrow> rest msg_MSG (size_add expectedSize (used (displayName cd)))
       | cmd_CONF \<Rightarrow>
           res_bind (buf_write buffer 0 (msg_byte msg_CONF)) (\<lambda>buffer.
           res_bind (ptr_read (bb_start (cmd_conf_lowMsgID pb)) 0) (\<lambda>low.
           res_bind (buf_write buffer 1 low) (\<lambda>buffer.
           res_bind (ptr_read (bb_start (cmd_conf_highMsgID pb)) 0) (\<lambda>high.
           res_bind (buf_write buffer 2 high) (\<lambda>buffer.
           Ok (True, pb\<lparr>pb_type := msg_byte msg_CONF\<rparr>, buffer\<lparr>used := 3\<rparr>, []))))))
       | cmd_EXIT \<Rightarrow>
           res_bind (buf_write buffer 0 (msg_byte msg_BYE)) (\<lambda>buffer.
           Ok (True, pb\<lparr>pb_type := msg_byte msg_BYE\<rparr>, buffer\<lparr>used := 3\<rparr>, []))
       | _ \<Rightarrow> Err err_INTERNAL_BAD_ARG)))"

definition assembleProtocolTCP ::
  "allocator \<Rightarrow> CommunicationDetails \<Rightarrow> ProtocolBlocks \<Rightarrow> Buffer \<Rightarrow> assembled res"
where
  "assembleProtocolTCP alloc cd pb buffer =
     (let expectedSize = size_add (sum_of_lengths pb) 1;
          type = uchar2CommandType (pb_type pb) in
      res_bind
        (case type of
           cmd_AUTH \<Rightarrow> Ok (size_add expectedSize (5 + 4 + 7))
         | cmd_JOIN \<Rightarrow> Ok (size_add (size_add expectedSize (5 + 4)) (used (channelID cd)))
         | cmd_MSG \<Rightarrow> Ok (size_add (size_add expectedSize (9 + 4)) (used (displayName cd)))
         | cmd_ERR \<Rightarrow> Ok (size_add (size_add expectedSize (9 + 4)) (used (displayName cd)))
         | cmd_EXIT \<Rightarrow> Ok (size_add expectedSize 3)
         | _ \<Rightarrow> Err err_INTERNAL_BAD_ARG) (\<lambda>expectedSize.
      res_bind (bufferResize alloc buffer (size_add expectedSize 2)) (\<lambda>buffer.
      let ptrPos = 0;
          finish = (\<lambda>msg. \<lambda>out.
            res_bind (ADD_STRING_TO_BUFFER [CHR 0x0D, CHR 0x0A] out) (\<lambda>(buffer, ptrPos).
            Ok (True, pb\<lparr>pb_type := msg_byte msg\<rparr>, buffer\<lparr>used := ptrPos\<rparr>, []))) in
      (case type of
         cmd_AUTH \<Rightarrow>
           res_bind (appends
             [ADD_STRING_TO_BUFFER ''AUTH '', ADD_BLOCK_TO_BUFFER (cmd_auth_username pb),
              ADD_STRING_TO_BUFFER '' AS '', ADD_BLOCK_TO_BUFFER (cmd_auth_displayname pb),
              ADD_STRING_TO_BUFFER '' USING '', ADD_BLOCK_TO_BUFFER (cmd_auth_secret pb)]
             (buffer, ptrPos)) (finish msg_AUTH)
       | cmd_JOIN \<Rightarrow>
           if data (displayName cd) = None then Ok (False, pb, buffer, no_displayname_join)
           else
             res_bind (appends
               [ADD_STRING_TO_BUFFER ''JOIN '', ADD_STORED_INFO_TO_BUFFER (channelID cd),
                ADD_STRING_TO_BUFFER '' AS '', ADD_STORED_INFO_TO_BUFFER (displayName cd)]
               (buffer, ptrPos)) (finish msg_JOIN)
       | cmd_EXIT \<Rightarrow>
           res_bind (appends [ADD_STRING_TO_BUFFER ''BYE''] (buffer, ptrPos)) (finish msg_BYE)
       | _ \<Rightarrow> \<comment> \<open>\<open>cmd_MSG\<close>, \<open>cmd_ERR\<close>\<close>
           if data (displayName cd) = None then Ok (False, pb, buffer, no_displayname_msg)
           else
             res_bind (appends
               [ADD_STRING_TO_BUFFER (if type = cmd_MSG then ''MSG FROM '' else ''ERR FROM ''),
                ADD_STORED_INFO_TO_BUFFER (displayName cd), ADD_STRING_TO_BUFFER '' IS '',
                ADD_BLOCK_TO_BUFFER (cmd_msg_MsgContents pb)]
               (buffer, ptrPos)) (finish (if type = cmd_MSG then msg_MSG else msg_ERR))))))"

section \<open>Disassembling\<close>

definition BBLOCK_END :: "BytesBlock \<Rightarrow> ptr" where
  "BBLOCK_END block = ptr_add (bb_start block) (bb_len block)"

definition BBLOCK_END_W_ZERO_BYTE :: "BytesBlock \<Rightarrow> ptr" where
  "BBLOCK_END_W_ZERO_BYTE block = ptr_add (bb_start block) (size_add (bb_len block) 1)"

definition TYPE_ID_LEN :: nat where
  "TYPE_ID_LEN = 3"

text \<open>A string at \<open>start\<close> that ends with a zero byte within \<open>len\<close> bytes.\<close>

definition zero_block :: "ptr \<Rightarrow> nat \<Rightarrow> BytesBlock res" where
  "zero_block start len =
     res_bind (findZeroInString start len) (\<lambda>index.
     Ok \<lparr>bb_start = start, bb_len = size_of_long index\<rparr>)"

definition disassebleProtocolUDP :: "Buffer \<Rightarrow> ProtocolBlocks \<Rightarrow> (ProtocolBlocks \<times> 16 word) res" where
  "disassebleProtocolUDP buffer pb =
     res_bind (ptr_read (buf_ptr buffer) 0) (\<lambda>b0.
     let pb = pb\<lparr>pb_type := msg_byte (uchar2msgType b0)\<rparr> in
     res_bind (ptr_read (buf_ptr buffer) 1) (\<lambda>b1.
     res_bind (ptr_read (buf_ptr buffer) 2) (\<lambda>b2.
     let msgId = convert2BytesToU16Int b1 b2;
         start = ptr_add (buf_ptr buffer) 3;
         pb = pb\<lparr>zeroth := \<lparr>bb_start = start, bb_len = 0\<rparr>, first := no_block, second := no_block,
                 third := no_block\<rparr> in
     (case uchar2msgType (pb_type pb) of
        msg_CONF \<Rightarrow> Ok (pb, msgId)
      | msg_REPLY \<Rightarrow>
          let result = \<lparr>bb_start = start, bb_len = 1\<rparr>;
              refMsgID = \<lparr>bb_start = BBLOCK_END result, bb_len = 2\<rparr> in
          res_bind (zero_block (BBLOCK_END refMsgID)
            (size_sub (used buffer) (TYPE_ID_LEN + bb_len result + bb_len refMsgID)))
          (\<lambda>contents.
          Ok (pb\<lparr>zeroth := result, first := refMsgID, second := contents,
                 pb_type := msg_byte msg_REPLY\<rparr>, msgId))
      | msg_AUTH \<Rightarrow>
          res_bind (zero_block start (size_sub (used buffer) TYPE_ID_LEN)) (\<lambda>username.
          res_bind (zero_block (BBLOCK_END_W_ZERO_BYTE username)
            (size_sub (used buffer) (size_add TYPE_ID_LEN (bb_len username)))) (\<lambda>displayname.
          res_bind (zero_block (BBLOCK_END_W_ZERO_BYTE displayname)
            (size_sub (used buffer)
               (size_add (size_add TYPE_ID_LEN (bb_len username)) (bb_len displayname)))) (\<lambda>secret.
          Ok (pb\<lparr>zeroth := username, first := displayname, second := secret,
                 pb_type := msg_byte msg_AUTH\<rparr>, msgId))))
      | msg_BYE \<Rightarrow> Ok (pb\<lparr>pb_type := msg_byte msg_BYE\<rparr>, msgId)
      | msg_UNKNOWN \<Rightarrow> Ok (pb\<lparr>pb_type := msg_byte msg_UNKNOWN\<rparr>, msgId)
      | msg_CORRUPTED \<Rightarrow> Ok (pb\<lparr>pb_type := msg_byte msg_UNKNOWN\<rparr>, msgId)
      | _ \<Rightarrow> \<comment> \<open>\<open>msg_MSG\<close>, \<open>msg_JOIN\<close>, \<open>msg_ERR\<close>\<close>
          res_bind (zero_block start (size_sub (used buffer) TYPE_ID_LEN)) (\<lambda>name.
          res_bind (zero_block (BBLOCK_END_W_ZERO_BYTE name)
            (size_sub (used buffer) (size_add TYPE_ID_LEN (bb_len name)))) (\<lambda>contents.
          Ok (pb\<lparr>zeroth := name, first := contents\<rparr>, msgId)))))))"

text \<open>The branches for \<open>MSG FROM\<close> and \<open>ERR FROM\<close> are the same code with another type.\<close>

definition named_contents :: "Buffer \<Rightarrow> ProtocolBlocks \<Rightarrow> msg_t \<Rightarrow> ProtocolBlocks res" where
  "named_contents buffer pb type =
     (let start = ptr_add (buf_ptr buffer) 9 in
      res_bind (findBlankCharInString start (size_sub (used buffer) 9)) (\<lambda>index.
      let name = \<lparr>bb_start = start, bb_len = size_of_long index\<rparr>;
          pb = pb\<lparr>zeroth := name\<rparr> in
      res_bind (strncmp (BBLOCK_END name) (literal '' IS '') 4) (\<lambda>r.
      if r \<noteq> 0 then Ok (pb\<lparr>pb_type := msg_byte msg_CORRUPTED\<rparr>)
      else
        let start = ptr_add (bb_start name) (size_add (bb_len name) 4) in
        res_bind (findNewLineInString start (size_sub (size_sub (used buffer) 9) (bb_len name)))
        (\<lambda>index.
        Ok (pb\<lparr>first := \<lparr>bb_start = start, bb_len = size_of_long index\<rparr>,
               pb_type := msg_byte type\<rparr>)))))"

definition disassebleProtocolTCP :: "Buffer \<Rightarrow> ProtocolBlocks \<Rightarrow> ProtocolBlocks res" where
  "disassebleProtocolTCP buffer pb =
     res_bind (strncmp (buf_ptr buffer) (literal ''MSG FROM '') 9) (\<lambda>r.
     if r = 0 then named_contents buffer pb msg_MSG
     else
     res_bind (strncmp (buf_ptr buffer) (literal ''REPLY '') 6) (\<lambda>r.
     if r = 0 then
       let start = ptr_add (buf_ptr buffer) 6;
           contents = (\<lambda>len ok.
             let cstart = ptr_add start (len + 4) in
             res_bind (findBlankCharInString cstart (size_sub (used buffer) (6 + len))) (\<lambda>index.
             Ok (pb\<lparr>zeroth := \<lparr>bb_start = start, bb_len = len\<rparr>, msg_reply_result_bool := ok,
                    second := \<lparr>bb_start = cstart, bb_len = size_of_long index\<rparr>,
                    pb_type := msg_byte msg_REPLY\<rparr>))) in
       res_bind (strncmp start (literal ''OK IS '') 6) (\<lambda>r.
       if r = 0 then contents 2 True
       else
       res_bind (strncmp start (literal ''NOK IS '') 7) (\<lambda>r.
       if r = 0 then contents 3 False
       else Ok (pb\<lparr>zeroth := (zeroth pb)\<lparr>bb_start := start\<rparr>,
                   pb_type := msg_byte msg_CORRUPTED\<rparr>)))
     else
     res_bind (strncmp (buf_ptr buffer) (literal ''BYE'') 3) (\<lambda>r.
     if r = 0 then Ok (pb\<lparr>pb_type := msg_byte msg_BYE\<rparr>)
     else
     res_bind (strncmp (buf_ptr buffer) (literal ''ERR FROM '') 9) (\<lambda>r.
     if r = 0 then named_contents buffer pb msg_ERR
     else Ok (pb\<lparr>pb_type := msg_byte msg_UNKNOWN\<rparr>)))))"

section \<open>Control of user input\<close>

definition allowedCharsInCredentials :: "byte \<Rightarrow> bool" where
  "allowedCharsInCredentials input \<longleftrightarrow>
     (sint input \<ge> 97 \<and> sint input \<le> 122) \<or> (sint input \<ge> 65 \<and> sint input \<le> 90)
     \<or> (sint input \<ge> 48 \<and> sint input \<le> 57) \<or> input = 45"

definition allowedCharsInName :: "byte \<Rightarrow> bool" where
  "allowedCharsInName input \<longleftrightarrow> sint input \<ge> 0x21 \<and> sint input \<le> 0x7E"

definition allowedCharsInMessage :: "byte \<Rightarrow> bool" where
  "allowedCharsInMessage input \<longleftrightarrow> sint input \<ge> 0x20 \<and> sint input \<le> 0x7E"

datatype word_type = ToW_Username | ToW_ChannelID | ToW_Secret | ToW_DisplayName | ToW_MessageContent

fun allowed :: "word_type \<Rightarrow> byte \<Rightarrow> bool" where
  "allowed ToW_Username c = allowedCharsInCredentials c"
| "allowed ToW_ChannelID c = allowedCharsInCredentials c"
| "allowed ToW_Secret c = allowedCharsInCredentials c"
| "allowed ToW_DisplayName c = allowedCharsInName c"
| "allowed ToW_MessageContent c = allowedCharsInMessage c"

text \<open>\<open>%li\<close>, and the loop that prints the characters of a word.\<close>

fun decimal :: "nat \<Rightarrow> byte list" where
  "decimal n = (if n < 10 then [of_nat (48 + n)] else decimal (n div 10) @ [of_nat (48 + n mod 10)])"

declare decimal.simps [simp del]

fun read_from :: "ptr \<Rightarrow> nat \<Rightarrow> nat \<Rightarrow> byte list res" where
  "read_from p i 0 = Ok []"
| "read_from p i (Suc n) =
     res_bind (ptr_read p i) (\<lambda>c. res_bind (read_from p (Suc i) n) (\<lambda>cs. Ok (c # cs)))"

text \<open>The first character that is not allowed: its index and value.\<close>

fun bad_from :: "word_type \<Rightarrow> ptr \<Rightarrow> nat \<Rightarrow> nat \<Rightarrow> (nat \<times> byte) option res" where
  "bad_from ty p i 0 = Ok None"
| "bad_from ty p i (Suc n) =
     res_bind (ptr_read p i) (\<lambda>c. if \<not> allowed ty c then Ok (Some (i, c)) else bad_from ty p (Suc i) n)"

text \<open>The result and the text printed to \<open>stderr\<close>.\<close>

definition controlWord :: "BytesBlock \<Rightarrow> nat \<Rightarrow> word_type \<Rightarrow> (bool \<times> byte list) res" where
  "controlWord wordBlock maxLen typeOfWord =
     (if bb_len wordBlock \<le> 0 then Ok (False, [])
      else if bb_len wordBlock > maxLen then
        res_bind (read_from (bb_start wordBlock) 0 (bb_len wordBlock)) (\<lambda>word.
        Ok (False, bytes_of ''ERR: Parameter '' @ [34] @ word @ [34] @
          bytes_of '' exceeded maximum allowed length ('' @ decimal maxLen @
          bytes_of ''). Message will not be sended.'' @ [10]))
      else
        res_bind (bad_from typeOfWord (bb_start wordBlock) 0 (bb_len wordBlock)) (\<lambda>bad.
        case bad of
          None \<Rightarrow> Ok (True, [])
        | Some (i, c) \<Rightarrow>
            res_bind (read_from (bb_start wordBlock) 0 (bb_len wordBlock)) (\<lambda>word.
            Ok (False, bytes_of ''ERR: Parameter '' @ [34] @ word @ [34] @
              bytes_of '' contains invalid character '' @ [34, c, 34] @ bytes_of '' at position: '' @
              decimal i @ bytes_of ''. Message will not be sended.'' @ [10]))))"

section \<open>User input\<close>

text \<open>Returned are: the result, the blocks, the flags and the text printed to \<open>stderr\<close>.\<close>

type_synonym parsed = "bool \<times> ProtocolBlocks \<times> msg_flags \<times> byte list"

text \<open>\<open>TRY_GET_WORD\<close>: without a word the command misses an argument.\<close>

definition TRY_GET_WORD ::
  "(bool \<times> BytesBlock) res \<Rightarrow> ProtocolBlocks \<Rightarrow> msg_flags \<Rightarrow> (BytesBlock \<Rightarrow> parsed res) \<Rightarrow> parsed res"
where
  "TRY_GET_WORD r pb flags k =
     res_bind r (\<lambda>(found, block).
     if \<not> found then Ok (False, pb\<lparr>pb_type := cmd_byte cmd_MISSING\<rparr>, flags, []) else k block)"

text \<open>\<open>if(!controlWord(...)) return false\<close>.\<close>

definition CONTROL_WORD ::
  "(bool \<times> byte list) res \<Rightarrow> ProtocolBlocks \<Rightarrow> msg_flags \<Rightarrow> parsed res \<Rightarrow> parsed res"
where
  "CONTROL_WORD r pb flags k =
     res_bind r (\<lambda>(ok, text). if \<not> ok then Ok (False, pb, flags, text) else k)"

definition parse_auth :: "Buffer \<Rightarrow> BytesBlock \<Rightarrow> ProtocolBlocks \<Rightarrow> msg_flags \<Rightarrow> parsed res" where
  "parse_auth buffer cmd pb flags =
     TRY_GET_WORD (getWord no_block (BBLOCK_END cmd) (size_sub (used buffer) (bb_len cmd)))
       pb flags (\<lambda>first.
     TRY_GET_WORD (getWord no_block (BBLOCK_END first)
         (size_sub (used buffer) (size_add (bb_len cmd) (bb_len first)))) pb flags (\<lambda>second.
     TRY_GET_WORD (getWord no_block (BBLOCK_END second)
         (size_sub (used buffer) (size_add (size_add (bb_len cmd) (bb_len first)) (bb_len second))))
       pb flags (\<lambda>third.
     CONTROL_WORD (controlWord first 20 ToW_Username) pb flags (
     CONTROL_WORD (controlWord second 128 ToW_Secret) pb flags (
     CONTROL_WORD (controlWord third 20 ToW_DisplayName) pb flags (
     Ok (True, pb\<lparr>pb_type := cmd_byte cmd_AUTH, first := first, second := second, third := third\<rparr>,
         msg_flag_AUTH, [])))))))"

definition parse_name ::
  "Buffer \<Rightarrow> BytesBlock \<Rightarrow> bool \<Rightarrow> ProtocolBlocks \<Rightarrow> msg_flags \<Rightarrow> parsed res"
where
  "parse_name buffer cmd join pb flags =
     (let start = BBLOCK_END cmd in
      res_bind (skipBlankCharsInString start (size_sub (used buffer) (bb_len cmd))) (\<lambda>index.
      let start = ptr_add start (size_of_long index) in
      res_bind (findNewLineInString start (size_sub (used buffer) (bb_len cmd))) (\<lambda>error.
      if error = - 1 then Ok (False, pb\<lparr>pb_type := cmd_byte cmd_MISSING\<rparr>, flags, [])
      else
        let block = \<lparr>bb_start = start, bb_len = size_of_long error\<rparr> in
        if join then
          CONTROL_WORD (controlWord block 20 ToW_ChannelID) pb flags
            (Ok (True, pb\<lparr>pb_type := cmd_byte cmd_JOIN, first := block\<rparr>, flags, []))
        else
          CONTROL_WORD (controlWord block 20 ToW_DisplayName) pb flags
            (Ok (True, pb\<lparr>pb_type := cmd_byte cmd_RENAME, first := block\<rparr>, flags, [])))))"

definition userInputToCmds :: "Buffer \<Rightarrow> ProtocolBlocks \<Rightarrow> msg_flags \<Rightarrow> parsed res" where
  "userInputToCmds buffer pb flags =
     (if used buffer \<le> 0 then Ok (False, pb\<lparr>pb_type := cmd_byte cmd_NONE\<rparr>, flags, [])
      else
        res_bind (findBlankCharInString (buf_ptr buffer) (used buffer)) (\<lambda>index.
        let cmd = \<lparr>bb_start = buf_ptr buffer, bb_len = size_of_long index\<rparr>;
            pb = pb\<lparr>zeroth := cmd, first := no_block, second := no_block, third := no_block,
                    pb_type := cmd_byte cmd_NONE\<rparr>;
            is_cmd = (\<lambda>s. strncmp (bb_start cmd) (literal s) (bb_len cmd)) in
        res_bind (is_cmd ''/auth'') (\<lambda>r.
        if r = 0 then parse_auth buffer cmd pb flags
        else
        res_bind (is_cmd ''/join'') (\<lambda>tmp.
        res_bind (if tmp = 0 then Ok 0 else is_cmd ''/rename'') (\<lambda>r.
        if r = 0 then parse_name buffer cmd (tmp = 0) pb flags
        else
        res_bind (is_cmd ''/help'') (\<lambda>r.
        if r = 0 then Ok (True, pb\<lparr>pb_type := cmd_byte cmd_HELP\<rparr>, flags, [])
        else
        res_bind (is_cmd ''/exit'') (\<lambda>r.
        if r = 0 then Ok (True, pb\<lparr>pb_type := cmd_byte cmd_EXIT\<rparr>, flags, [])
        else
          let block = \<lparr>bb_start = buf_ptr buffer, bb_len = used buffer\<rparr>;
              pb = pb\<lparr>zeroth := block\<rparr> in
          CONTROL_WORD (controlWord block 14000 ToW_MessageContent) pb flags
            (Ok (True, pb\<lparr>pb_type := cmd_byte cmd_MSG\<rparr>, flags, [])))))))))"

end
