(* ===== verification/Chat_Protocol_Encoding.thy ===== *)
theory Chat_Protocol_Encoding
  imports Chat_Protocol
begin

text \<open>
  The bytes \<open>assembleProtocolUDP\<close> and \<open>assembleProtocolTCP\<close> produce. \<open>written xs b\<close> says what the
  buffer starts with, \<open>writes f bs\<close> that an appending macro adds exactly \<open>bs\<close>; the two functions
  are sequences of such macros behind a header.
\<close>

section \<open>What a buffer starts with\<close>

definition written :: "cell list \<Rightarrow> Buffer \<Rightarrow> bool" where
  "written xs b \<longleftrightarrow>
     (case data b of
        None \<Rightarrow> False
      | Some m \<Rightarrow> length m = allocated b \<and> 0 < allocated b \<and> allocated b < 2 ^ 64 \<and>
          length xs \<le> length m \<and> take (length xs) m = xs)"

lemma writtenD:
  assumes "written xs b"
  obtains m where "data b = Some m" "length m = allocated b" "0 < allocated b" "allocated b < 2 ^ 64"
    "length xs \<le> length m" "take (length xs) m = xs"
  using assms by (auto simp: written_def split: option.splits)

text \<open>A block designates a list of bytes.\<close>

definition block_of :: "BytesBlock \<Rightarrow> byte list \<Rightarrow> bool" where
  "block_of blk bs \<longleftrightarrow> points_to (bb_start blk) bs \<and> bb_len blk = length bs"

text \<open>A buffer stores a list of bytes.\<close>

definition stores :: "Buffer \<Rightarrow> byte list \<Rightarrow> bool" where
  "stores b bs \<longleftrightarrow> points_to (buf_ptr b) bs \<and> used b = length bs"

lemma stores_data: "stores b bs \<Longrightarrow> data b \<noteq> None"
  by (auto simp: stores_def points_to_def buf_ptr_def split: option.splits)

text \<open>Appending \<open>bs\<close>, when there is room for it.\<close>

definition writes :: "(outbuf \<Rightarrow> outbuf res) \<Rightarrow> byte list \<Rightarrow> bool" where
  "writes f bs \<longleftrightarrow>
     (\<forall>xs b. written xs b \<longrightarrow> length xs + length bs \<le> allocated b \<longrightarrow>
        (\<exists>b'. f (b, length xs) = Ok (b', length xs + length bs) \<and>
              written (xs @ map Some bs) b' \<and> allocated b' = allocated b \<and> used b' = used b))"

lemma writesE:
  assumes "writes f bs" "written xs b" "length xs + length bs \<le> allocated b"
  obtains b' where "f (b, length xs) = Ok (b', length xs + length bs)"
    "written (xs @ map Some bs) b'" "allocated b' = allocated b" "used b' = used b"
  using assms unfolding writes_def by blast

text \<open>The copy all three macros are made of.\<close>

lemma stringReplace_written:
  assumes "written xs b" "points_to p bs" "length xs + length bs \<le> allocated b"
  shows "\<exists>b'. res_bind (stringReplace (data b) (length xs) p (length bs)) (\<lambda>d.
      Ok (b\<lparr>data := d\<rparr>, size_add (length xs) (length bs))) = Ok (b', length xs + length bs) \<and>
    written (xs @ map Some bs) b' \<and> allocated b' = allocated b \<and> used b' = used b"
  using assms(1)
proof (cases rule: writtenD)
  case (1 m)
  obtain m' s where p: "p = Some (m', s)" "s + length bs \<le> length m'"
    "take (length bs) (drop s m') = map Some bs"
    using assms(2) by (auto elim: points_toD)
  let ?m = "overlay m (length xs) (map Some bs)"
  have "copy_bytes m (length xs) m' s (length bs) = Ok ?m"
    using p 1(2) assms(3) by (simp add: copy_bytes_ok)
  moreover have "size_add (length xs) (length bs) = length xs + length bs"
    using assms(3) 1(4) by (intro size_add_small) simp
  moreover have "take (length xs + length bs) ?m = xs @ map Some bs"
    using take_overlay[of "length xs" m "map Some bs"] 1(5,6) by simp
  then have "written (xs @ map Some bs) (b\<lparr>data := Some ?m\<rparr>)"
    using 1 assms(3) by (simp add: written_def)
  ultimately show ?thesis
    using 1(1) p(1) by (simp add: stringReplace_def)
qed

lemma writes_block: "block_of blk bs \<Longrightarrow> writes (ADD_BLOCK_TO_BUFFER blk) bs"
  using stringReplace_written by (simp add: writes_def block_of_def ADD_BLOCK_TO_BUFFER_def)

lemma writes_stored: "stores src bs \<Longrightarrow> writes (ADD_STORED_INFO_TO_BUFFER src) bs"
  using stringReplace_written by (simp add: writes_def stores_def ADD_STORED_INFO_TO_BUFFER_def)

lemma writes_string:
  assumes "length s < 2 ^ 64 - 1"
  shows "writes (ADD_STRING_TO_BUFFER s) (bytes_of s)"
proof -
  have "points_to (literal s) (bytes_of s)"
    using points_to_literal[OF assms] by (rule points_to_prefix)
  moreover have "length (bytes_of s) = length s" by (simp add: bytes_of_def)
  ultimately show ?thesis
    unfolding writes_def ADD_STRING_TO_BUFFER_def using stringReplace_written by fastforce
qed

lemma writes_zero: "writes ADD_ZERO_BYTE [0]"
  unfolding writes_def
proof (intro allI impI)
  fix xs b assume w: "written xs b" and room: "length xs + length [0 :: byte] \<le> allocated b"
  from w show "\<exists>b'. ADD_ZERO_BYTE (b, length xs) = Ok (b', length xs + length [0 :: byte]) \<and>
      written (xs @ map Some [0]) b' \<and> allocated b' = allocated b \<and> used b' = used b"
  proof (cases rule: writtenD)
    case (1 m)
    have "take (Suc (length xs)) (m[length xs := Some 0]) = xs @ [Some 0]"
      using 1 room by (simp add: take_Suc_conv_app_nth)
    then show ?thesis
      using 1 room by (simp add: ADD_ZERO_BYTE_def buf_write_def written_def size_add_def)
  qed
qed

lemma writes_Nil: "writes (appends []) []"
  by (auto simp: writes_def)

lemma writes_Cons:
  assumes "writes f bs" "writes (appends fs) cs"
  shows "writes (appends (f # fs)) (bs @ cs)"
  unfolding writes_def
proof (intro allI impI)
  fix xs b assume w: "written xs b" and room: "length xs + length (bs @ cs) \<le> allocated b"
  obtain b1 where b1: "f (b, length xs) = Ok (b1, length xs + length bs)"
    "written (xs @ map Some bs) b1" "allocated b1 = allocated b" "used b1 = used b"
    using writesE[OF assms(1) w] room by auto
  obtain b2 where "appends fs (b1, length (xs @ map Some bs))
      = Ok (b2, length (xs @ map Some bs) + length cs)"
    "written ((xs @ map Some bs) @ map Some cs) b2" "allocated b2 = allocated b1" "used b2 = used b1"
    using writesE[OF assms(2) b1(2)] b1(3) room by auto
  then show "\<exists>b'. appends (f # fs) (b, length xs) = Ok (b', length xs + length (bs @ cs)) \<and>
      written (xs @ map Some (bs @ cs)) b' \<and> allocated b' = allocated b \<and> used b' = used b"
    using b1 by (simp add: add.assoc)
qed

lemma appends_append: "appends (fs @ gs) out = res_bind (appends fs out) (appends gs)"
  by (induction fs arbitrary: out) (simp_all add: res_bind_assoc cong: res_bind_cong)

lemma appends_Nil: "appends [] = Ok"
  by (rule ext) simp

lemma appends_single: "appends [f] = f"
  by (rule ext) (simp add: appends_Nil res_bind_Ok_right)

lemma appends_pair: "appends [f, g] out = res_bind (f out) g"
  using appends.simps(2)[of f "[g]" out] by (simp only: appends_single)

lemmas writes_intros = writes_Cons writes_Nil writes_block writes_stored writes_string writes_zero

text \<open>The buffer that is handed on: its length set to what was written.\<close>

lemma written_contents:
  "written xs b \<Longrightarrow> buffer_wf (b\<lparr>used := length xs\<rparr>) \<and> contents (b\<lparr>used := length xs\<rparr>) = xs"
  by (auto simp: written_def buffer_wf_def contents_def split: option.splits)

section \<open>The header\<close>

lemma resize_written:
  assumes "buffer_wf b" "\<forall>n. alloc n" "n < 2 ^ 64" "0 < n"
  obtains b' where "bufferResize alloc b n = Ok b'" "written [] b'"
    "allocated b' = max (allocated b) n" "used b' = used b"
proof -
  have "alloc n" using assms(2) by simp
  from bufferResize_ok[of b alloc, OF assms(1) this assms(3)] obtain b' where
    b': "bufferResize alloc b n = Ok b'" "buffer_wf b'" "used b' = used b"
    "allocated b' = max (allocated b) n" by blast
  then have "written [] b'"
    using assms(4) by (auto simp: buffer_wf_def written_def split: option.splits)
  then show thesis using that b' by blast
qed

text \<open>The two resizes of \<open>assembleProtocolUDP\<close> with the write of the type between them.\<close>

lemma udp_header:
  assumes "buffer_wf b" "\<forall>n. alloc n" "3 \<le> n" "n \<le> k" "k < 2 ^ 64"
  obtains b1 b2 b3 i1 i2 where "bufferResize alloc b n = Ok b1" "buf_write b1 0 t = Ok b2"
    "bufferResize alloc b2 k = Ok b3" "written [Some t, i1, i2] b3"
    "allocated b3 = max (allocated b) k"
proof -
  have n: "n < 2 ^ 64" "0 < n" using assms(3-5) by auto
  obtain b1 where b1: "bufferResize alloc b n = Ok b1" "written [] b1"
    "allocated b1 = max (allocated b) n" "used b1 = used b"
    by (rule resize_written[OF assms(1,2) n])
  then obtain m where m: "data b1 = Some m" "length m = allocated b1" "3 \<le> length m"
    "allocated b1 < 2 ^ 64"
    using assms(3) by (auto elim!: writtenD)
  let ?b2 = "b1\<lparr>data := Some (m[0 := Some t])\<rparr>"
  have "buf_write b1 0 t = Ok ?b2" using m by (simp add: buf_write_def)
  moreover have "used b \<le> allocated b" using assms(1) by (simp add: buffer_wf_def)
  then have wf: "buffer_wf ?b2"
    using m b1 by (simp add: buffer_wf_def)
  have "alloc k" using assms(2) by simp
  then obtain b3 where b3': "bufferResize alloc ?b2 k = Ok b3" "buffer_wf b3"
    "allocated b3 = max (allocated ?b2) k"
    "\<And>x. data ?b2 = Some x \<Longrightarrow> \<exists>m'. data b3 = Some m' \<and> take (length x) m' = x"
    using bufferResize_ok[of ?b2 alloc k, OF wf _ assms(5)] by metis
  then obtain m' where b3: "data b3 = Some m'" "take (length m) m' = m[0 := Some t]"
    by fastforce
  have len: "length m \<le> length m'"
    using arg_cong[OF b3(2), of length] by simp
  have "take 3 m' = take 3 (m[0 := Some t])"
    using m(3) b3(2) by (metis min.absorb1 take_take)
  moreover have "m[0 := Some t] = Some t # tl m"
    using m(3) by (cases m) simp_all
  moreover obtain i1 i2 rest where "tl m = i1 # i2 # rest"
    using m(3) by (cases m; cases "tl m"; cases "tl (tl m)") auto
  ultimately have "take 3 m' = [Some t, i1, i2]" by simp
  then have "written [Some t, i1, i2] b3"
    using b3(1) b3'(2) len m(3) by (simp add: written_def buffer_wf_def numeral_3_eq_3)
  then show thesis
    using that[of b1 ?b2 b3 i1 i2] b1 b3' \<open>buf_write b1 0 t = Ok ?b2\<close> assms(4)
    by (simp add: max_def)
qed


lemma uchar2CommandType_cmd_byte [simp]: "uchar2CommandType (cmd_byte c) = c"
  by (cases c) (simp_all add: uchar2CommandType_def)

lemma sum_of_lengths_small:
  "bb_len (zeroth pb) + bb_len (first pb) + bb_len (second pb) + bb_len (third pb) < 2 ^ 64 \<Longrightarrow>
     sum_of_lengths pb =
       bb_len (zeroth pb) + bb_len (first pb) + bb_len (second pb) + bb_len (third pb)"
  by (simp add: sum_of_lengths_def size_add_def)

section \<open>UDP messages\<close>

text \<open>A message: the header of type and identifier, then the body.\<close>

lemma appended_body:
  assumes "written ys b" "writes (appends fs) bs" "length ys + length bs \<le> allocated b"
  obtains b' where "appends fs (b, length ys) = Ok (b', length ys + length bs)"
    "buffer_wf (b'\<lparr>used := length ys + length bs\<rparr>)"
    "contents (b'\<lparr>used := length ys + length bs\<rparr>) = ys @ map Some bs"
proof (cases rule: writesE[OF assms(2,1,3)])
  case (1 b')
  then show thesis
    using that[of b'] written_contents[OF 1(2)] by simp
qed

lemma udp_message:
  assumes "buffer_wf buffer" "\<forall>n. alloc n" "3 \<le> n" "n \<le> k" "k < 2 ^ 64"
    and "writes (appends fs) bs" "3 + length bs \<le> max (allocated buffer) k"
  obtains b1 b2 b3 b' i1 i2 where "bufferResize alloc buffer n = Ok b1" "buf_write b1 0 t = Ok b2"
    "bufferResize alloc b2 k = Ok b3" "appends fs (b3, 3) = Ok (b', 3 + length bs)"
    "buffer_wf (b'\<lparr>used := 3 + length bs\<rparr>)"
    "contents (b'\<lparr>used := 3 + length bs\<rparr>) = [Some t, i1, i2] @ map Some bs"
proof (cases rule: udp_header[OF assms(1-5), of t])
  case (1 b1 b2 b3 i1 i2)
  have three: "length [Some t, i1, i2] = 3" by simp
  have room: "length [Some t, i1, i2] + length bs \<le> allocated b3"
    using assms(7) 1(5) by simp
  show thesis
  proof (cases rule: appended_body[OF 1(4) assms(6) room])
    case b': (1 b')
    show thesis
      by (rule that[OF 1(1-3) b'[unfolded three]])
  qed
qed

lemma assembleUDP_auth_bytes:
  assumes "buffer_wf buffer" "\<forall>n. alloc n" "pb_type pb = cmd_byte cmd_AUTH"
    and "block_of (cmd_auth_username pb) u" "block_of (cmd_auth_displayname pb) d"
    and "block_of (cmd_auth_secret pb) s"
    and "bb_len (zeroth pb) + length u + length s + length d + 10 < 2 ^ 64"
  shows "\<exists>b i1 i2. assembleProtocolUDP alloc cd pb buffer
      = Ok (True, pb\<lparr>pb_type := msg_byte msg_AUTH\<rparr>, b, []) \<and> buffer_wf b \<and>
    contents b = [Some (msg_byte msg_AUTH), i1, i2] @ map Some (u @ 0 # d @ 0 # s @ [0])"
proof -
  let ?n = "bb_len (zeroth pb) + length u + length s + length d + 10"
  have n: "size_add (sum_of_lengths pb) 10 = ?n"
    using assms(4-7) by (simp add: sum_of_lengths_small block_of_def size_add_def)
  have w: "writes (appends [ADD_BLOCK_TO_BUFFER (cmd_auth_username pb), ADD_ZERO_BYTE,
      ADD_BLOCK_TO_BUFFER (cmd_auth_displayname pb), ADD_ZERO_BYTE,
      ADD_BLOCK_TO_BUFFER (cmd_auth_secret pb), ADD_ZERO_BYTE])
    (u @ [0] @ d @ [0] @ s @ [0] @ [])"
    by (intro writes_intros assms)
  have room: "3 + length (u @ [0] @ d @ [0] @ s @ [0] @ []) \<le> max (allocated buffer) ?n" by simp
  have ty: "uchar2CommandType (pb_type pb) = cmd_AUTH" by (simp only: assms(3) uchar2CommandType_cmd_byte)
  have "3 \<le> ?n" by simp
  from assms(1,2) this le_refl assms(7) w room show ?thesis
  proof (cases rule: udp_message[where t = "msg_byte msg_AUTH"])
    case (1 b1 b2 b3 b' i1 i2)
    then have "assembleProtocolUDP alloc cd pb buffer = Ok (True, pb\<lparr>pb_type := msg_byte msg_AUTH\<rparr>,
        b'\<lparr>used := 3 + length (u @ [0] @ d @ [0] @ s @ [0] @ [])\<rparr>, [])"
      using n ty by (simp add: assembleProtocolUDP_def Let_def del: appends.simps)
    then show ?thesis using 1(5,6) by auto
  qed
qed

lemma assembleUDP_message_bytes:
  assumes "buffer_wf buffer" "\<forall>n. alloc n" "pb_type pb = cmd_byte c"
    and "c = cmd_MSG \<and> t = msg_MSG \<or> c = cmd_ERR \<and> t = msg_ERR"
    and "stores (displayName cd) d" "block_of (cmd_msg_MsgContents pb) m"
    and "length m + bb_len (first pb) + bb_len (second pb) + bb_len (third pb) + 10 + length d < 2 ^ 64"
  shows "\<exists>b i1 i2. assembleProtocolUDP alloc cd pb buffer
      = Ok (True, pb\<lparr>pb_type := msg_byte t\<rparr>, b, []) \<and> buffer_wf b \<and>
    contents b = [Some (msg_byte t), i1, i2] @ map Some (d @ 0 # m @ [0])"
proof -
  let ?n = "length m + bb_len (first pb) + bb_len (second pb) + bb_len (third pb) + 10"
  have n: "size_add (sum_of_lengths pb) 10 = ?n" "size_add ?n (used (displayName cd)) = ?n + length d"
    using assms(5-7) by (simp_all add: sum_of_lengths_small block_of_def stores_def size_add_def)
  have w: "writes (appends [ADD_STORED_INFO_TO_BUFFER (displayName cd), ADD_ZERO_BYTE,
      ADD_BLOCK_TO_BUFFER (cmd_msg_MsgContents pb), ADD_ZERO_BYTE]) (d @ [0] @ m @ [0] @ [])"
    by (intro writes_intros assms)
  have room: "3 + length (d @ [0] @ m @ [0] @ []) \<le> max (allocated buffer) (?n + length d)" by simp
  have name: "data (displayName cd) \<noteq> None" using assms(5) by (rule stores_data)
  have ty: "uchar2CommandType (pb_type pb) = c" by (simp only: assms(3) uchar2CommandType_cmd_byte)
  have "3 \<le> ?n" "?n \<le> ?n + length d" by simp_all
  from assms(1,2) this assms(7) w room show ?thesis
  proof (cases rule: udp_message[where t = "msg_byte t"])
    case (1 b1 b2 b3 b' i1 i2)
    then have "assembleProtocolUDP alloc cd pb buffer = Ok (True, pb\<lparr>pb_type := msg_byte t\<rparr>,
        b'\<lparr>used := 3 + length (d @ [0] @ m @ [0] @ [])\<rparr>, [])"
      using n name ty assms(4)
      by (auto simp: assembleProtocolUDP_def Let_def simp del: appends.simps)
    then show ?thesis using 1(5,6) by auto
  qed
qed


subsection \<open>JOIN\<close>

text \<open>A stored name and what is written behind it: without room for both, a byte is written past
  the object.\<close>

lemma stored_overflow:
  assumes "written xs b" "stores src bs" "bs \<noteq> []" "allocated b < length xs + length bs"
  shows "ADD_STORED_INFO_TO_BUFFER src (b, length xs) = Fault Out_Of_Bounds"
  using assms(1)
proof (cases rule: writtenD)
  case (1 m)
  obtain m' s where p: "buf_ptr src = Some (m', s)" "used src = length bs"
    using assms(2) by (auto simp: stores_def elim: points_toD)
  have "copy_bytes m (length xs) m' s (length bs) = Fault Out_Of_Bounds"
    using 1(2) assms(3,4) by (intro copy_bytes_fault) auto
  then show ?thesis
    using 1(1) p by (simp add: ADD_STORED_INFO_TO_BUFFER_def stringReplace_def)
qed

lemma zero_overflow:
  assumes "written xs b" "allocated b = length xs"
  shows "ADD_ZERO_BYTE (b, length xs) = Fault Out_Of_Bounds"
  using assms by (auto simp: ADD_ZERO_BYTE_def buf_write_def elim!: writtenD)

lemma stored_zero_overflow:
  assumes "written xs b" "stores src bs" "bs \<noteq> []" "allocated b < length xs + length bs + 1"
  shows "appends [ADD_STORED_INFO_TO_BUFFER src, ADD_ZERO_BYTE] (b, length xs) = Fault Out_Of_Bounds"
proof (cases "allocated b < length xs + length bs")
  case True
  then show ?thesis
    using stored_overflow[OF assms(1-3)] by simp
next
  case False
  then have room: "length xs + length bs \<le> allocated b" by simp
  obtain b1 where b1: "ADD_STORED_INFO_TO_BUFFER src (b, length xs) = Ok (b1, length xs + length bs)"
    "written (xs @ map Some bs) b1" "allocated b1 = allocated b"
    by (rule writesE[OF writes_stored[OF assms(2)] assms(1) room])
  then show ?thesis
    using zero_overflow[OF b1(2)] assms(4) room by simp
qed

text \<open>The room a JOIN message gets: the first size estimate and the length of the \<^emph>\<open>channel\<close>
  name, where the display name is what is still to be written.\<close>

definition join_room_UDP :: "CommunicationDetails \<Rightarrow> ProtocolBlocks \<Rightarrow> Buffer \<Rightarrow> nat" where
  "join_room_UDP cd pb buffer =
     max (allocated buffer)
       (bb_len (zeroth pb) + bb_len (first pb) + bb_len (second pb) + bb_len (third pb) + 10
          + used (channelID cd))"

lemma assembleUDP_join_bytes:
  assumes "buffer_wf buffer" "\<forall>n. alloc n" "pb_type pb = cmd_byte cmd_JOIN"
    and "block_of (cmd_join_channelID pb) ch" "stores (displayName cd) d" "d \<noteq> []"
    and "bb_len (zeroth pb) + length ch + bb_len (second pb) + bb_len (third pb) + 10
           + used (channelID cd) < 2 ^ 64"
  shows "if length ch + length d + 5 \<le> join_room_UDP cd pb buffer
    then \<exists>b i1 i2. assembleProtocolUDP alloc cd pb buffer
        = Ok (True, pb\<lparr>pb_type := msg_byte msg_JOIN\<rparr>, b, []) \<and> buffer_wf b \<and>
      contents b = [Some (msg_byte msg_JOIN), i1, i2] @ map Some (ch @ 0 # d @ [0])
    else assembleProtocolUDP alloc cd pb buffer = Fault Out_Of_Bounds"
proof -
  let ?n = "bb_len (zeroth pb) + length ch + bb_len (second pb) + bb_len (third pb) + 10"
  let ?k = "?n + used (channelID cd)"
  have len: "bb_len (cmd_join_channelID pb) = length ch" using assms(4) by (simp add: block_of_def)
  have n: "size_add (sum_of_lengths pb) 10 = ?n" "size_add ?n (used (channelID cd)) = ?k"
    using len assms(7) by (simp_all add: sum_of_lengths_small size_add_def)
  have ty: "uchar2CommandType (pb_type pb) = cmd_JOIN"
    by (simp only: assms(3) uchar2CommandType_cmd_byte)
  obtain nm where name: "data (displayName cd) = Some nm" using stores_data[OF assms(5)] by auto
  obtain b1 b2 b3 i1 i2 where b: "bufferResize alloc buffer ?n = Ok b1"
    "buf_write b1 0 (msg_byte msg_JOIN) = Ok b2" "bufferResize alloc b2 ?k = Ok b3"
    "written [Some (msg_byte msg_JOIN), i1, i2] b3" "allocated b3 = max (allocated buffer) ?k"
    by (rule udp_header[OF assms(1,2) _ _ assms(7), of ?n "msg_byte msg_JOIN"]) simp_all
  let ?h = "[Some (msg_byte msg_JOIN), i1, i2]"
  let ?fs = "[ADD_BLOCK_TO_BUFFER (cmd_join_channelID pb), ADD_ZERO_BYTE]"
  have w: "writes (appends ?fs) (ch @ [0] @ [])" by (intro writes_intros assms)
  have room: "length ?h + length (ch @ [0] @ []) \<le> allocated b3" using b(5) by simp
  obtain b4 where b4: "appends ?fs (b3, length ?h) = Ok (b4, length ?h + length (ch @ [0] @ []))"
    "written (?h @ map Some (ch @ [0] @ [])) b4" "allocated b4 = allocated b3"
    by (rule writesE[OF w b(4) room])
  let ?ys = "?h @ map Some (ch @ [0] @ [])"
  have ys: "length ?ys = length ch + 4" by simp
  let ?gs = "[ADD_STORED_INFO_TO_BUFFER (displayName cd), ADD_ZERO_BYTE]"
  have cap: "allocated b4 = join_room_UDP cd pb buffer"
    using b4(3) b(5) len by (simp add: join_room_UDP_def)
  have run: "assembleProtocolUDP alloc cd pb buffer =
      res_bind (appends ?gs (b4, length ?ys)) (\<lambda>(buffer, ptrPos).
        Ok (True, pb\<lparr>pb_type := msg_byte msg_JOIN\<rparr>, buffer\<lparr>used := ptrPos\<rparr>, []))"
    using n b(1-3) b4(1) ty name
    by (simp add: assembleProtocolUDP_def Let_def numeral_3_eq_3 eval_nat_numeral del: appends.simps)
  show ?thesis
  proof (cases "length ch + length d + 5 \<le> join_room_UDP cd pb buffer")
    case True
    have w: "writes (appends ?gs) (d @ [0] @ [])" by (intro writes_intros assms)
    have room: "length ?ys + length (d @ [0] @ []) \<le> allocated b4" using True cap by simp
    show ?thesis
      using run True by (cases rule: appended_body[OF b4(2) w room]) auto
  next
    case False
    then have "allocated b4 < length ?ys + length d + 1" using cap by simp
    then show ?thesis
      using run False stored_zero_overflow[OF b4(2) assms(5,6)] by (simp del: appends.simps)
  qed
qed


subsection \<open>CONFIRM and BYE\<close>

lemma buf_write_written:
  assumes "written xs b" "length xs < allocated b"
  shows "\<exists>b'. buf_write b (length xs) c = Ok b' \<and> written (xs @ [Some c]) b' \<and>
    allocated b' = allocated b"
  using assms(1)
proof (cases rule: writtenD)
  case (1 m)
  have "take (Suc (length xs)) (m[length xs := Some c]) = xs @ [Some c]"
    using 1 assms(2) by (simp add: take_Suc_conv_app_nth)
  then show ?thesis
    using 1 assms(2) by (simp add: buf_write_def written_def)
qed

lemma assembleUDP_confirm_bytes:
  assumes "buffer_wf buffer" "\<forall>n. alloc n" "pb_type pb = cmd_byte cmd_CONF"
    and "points_to (bb_start (cmd_conf_lowMsgID pb)) [low]"
    and "points_to (bb_start (cmd_conf_highMsgID pb)) [high]"
    and "bb_len (zeroth pb) + bb_len (first pb) + bb_len (second pb) + bb_len (third pb) + 10 < 2 ^ 64"
  shows "\<exists>b. assembleProtocolUDP alloc cd pb buffer
      = Ok (True, pb\<lparr>pb_type := msg_byte msg_CONF\<rparr>, b, []) \<and> buffer_wf b \<and>
    contents b = map Some [msg_byte msg_CONF, low, high] \<and> used b = 3"
proof -
  let ?n = "bb_len (zeroth pb) + bb_len (first pb) + bb_len (second pb) + bb_len (third pb) + 10"
  have n: "size_add (sum_of_lengths pb) 10 = ?n"
    using assms(6) by (simp add: sum_of_lengths_small size_add_def)
  have ty: "uchar2CommandType (pb_type pb) = cmd_CONF"
    by (simp only: assms(3) uchar2CommandType_cmd_byte)
  have pos: "0 < ?n" by simp
  obtain b1 where b1: "bufferResize alloc buffer ?n = Ok b1" "written [] b1"
    "allocated b1 = max (allocated buffer) ?n"
    using resize_written[OF assms(1,2,6) pos] by blast
  have big: "10 \<le> allocated b1" using b1(3) by simp
  obtain b2 where b2: "buf_write b1 0 (msg_byte msg_CONF) = Ok b2"
    "written [Some (msg_byte msg_CONF)] b2" "allocated b2 = allocated b1"
    using buf_write_written[OF b1(2), of "msg_byte msg_CONF"] big by auto
  obtain b3 where b3: "buf_write b2 1 low = Ok b3"
    "written [Some (msg_byte msg_CONF), Some low] b3" "allocated b3 = allocated b2"
    using buf_write_written[OF b2(2), of low] b2(3) big by auto
  obtain b4 where b4: "buf_write b3 2 high = Ok b4"
    "written [Some (msg_byte msg_CONF), Some low, Some high] b4"
    using buf_write_written[OF b3(2), of high] b3(3) b2(3) big by (auto simp: numeral_2_eq_2)
  have "assembleProtocolUDP alloc cd pb buffer
      = Ok (True, pb\<lparr>pb_type := msg_byte msg_CONF\<rparr>, b4\<lparr>used := 3\<rparr>, [])"
    using n ty b1(1) b2(1) b3(1) b4(1) points_to_read[OF assms(4), of 0]
      points_to_read[OF assms(5), of 0]
    by (simp add: assembleProtocolUDP_def Let_def)
  then show ?thesis
    using written_contents[OF b4(2)] by (simp add: numeral_3_eq_3)
qed

lemma assembleUDP_bye_bytes:
  assumes "buffer_wf buffer" "\<forall>n. alloc n" "pb_type pb = cmd_byte cmd_EXIT"
    and "bb_len (zeroth pb) + bb_len (first pb) + bb_len (second pb) + bb_len (third pb) + 10 < 2 ^ 64"
  shows "\<exists>b i1 i2. assembleProtocolUDP alloc cd pb buffer
      = Ok (True, pb\<lparr>pb_type := msg_byte msg_BYE\<rparr>, b, []) \<and> buffer_wf b \<and>
    contents b = [Some (msg_byte msg_BYE), i1, i2] \<and> used b = 3"
proof -
  let ?n = "bb_len (zeroth pb) + bb_len (first pb) + bb_len (second pb) + bb_len (third pb) + 10"
  have n: "size_add (sum_of_lengths pb) 10 = ?n"
    using assms(4) by (simp add: sum_of_lengths_small size_add_def)
  have ty: "uchar2CommandType (pb_type pb) = cmd_EXIT"
    by (simp only: assms(3) uchar2CommandType_cmd_byte)
  obtain b1 b2 b3 i1 i2 where b: "bufferResize alloc buffer ?n = Ok b1"
    "buf_write b1 0 (msg_byte msg_BYE) = Ok b2" "bufferResize alloc b2 ?n = Ok b3"
    "written [Some (msg_byte msg_BYE), i1, i2] b3"
    by (rule udp_header[OF assms(1,2) _ le_refl assms(4), of "msg_byte msg_BYE"]) simp
  have "allocated b2 \<ge> ?n"
    using b(1,2) by (auto simp: bufferResize_def buf_write_def split: if_splits option.splits)
  then have "b3 = b2" using b(3) by (simp add: bufferResize_def)
  then show ?thesis
    using n ty b written_contents[OF b(4)]
    by (simp add: assembleProtocolUDP_def Let_def numeral_3_eq_3)
qed

section \<open>TCP messages\<close>

text \<open>The body, then the end of line.\<close>

definition CRLF :: "byte list" where
  "CRLF = [13, 10]"

lemma bytes_of_CRLF: "bytes_of [CHR 0x0D, CHR 0x0A] = CRLF"
  by (simp add: bytes_of_def CRLF_def)

lemma tcp_message:
  assumes "buffer_wf buffer" "\<forall>n. alloc n" "0 < k" "k < 2 ^ 64"
    and "writes (appends fs) bs" "length bs + 2 \<le> max (allocated buffer) k"
  obtains b1 b2 b3 where "bufferResize alloc buffer k = Ok b1"
    "appends fs (b1, 0) = Ok (b2, length bs)"
    "ADD_STRING_TO_BUFFER [CHR 0x0D, CHR 0x0A] (b2, length bs) = Ok (b3, length bs + 2)"
    "buffer_wf (b3\<lparr>used := length bs + 2\<rparr>)"
    "contents (b3\<lparr>used := length bs + 2\<rparr>) = map Some (bs @ CRLF)"
proof -
  obtain b1 where b1: "bufferResize alloc buffer k = Ok b1" "written [] b1"
    "allocated b1 = max (allocated buffer) k"
    using resize_written[OF assms(1,2,4,3)] by blast
  obtain b2 where b2: "appends fs (b1, 0) = Ok (b2, length bs)" "written (map Some bs) b2"
    "allocated b2 = allocated b1"
    using writesE[OF assms(5) b1(2)] b1(3) assms(6) by auto
  have w: "writes (ADD_STRING_TO_BUFFER [CHR 0x0D, CHR 0x0A]) CRLF"
    using writes_string[of "[CHR 0x0D, CHR 0x0A]"] by (simp add: bytes_of_CRLF)
  obtain b3 where b3: "ADD_STRING_TO_BUFFER [CHR 0x0D, CHR 0x0A] (b2, length bs) = Ok (b3, length bs + 2)"
    "written (map Some (bs @ CRLF)) b3"
    using writesE[OF w b2(2)] b2(3) b1(3) assms(6) by (auto simp: CRLF_def)
  show thesis
    by (rule that[OF b1(1) b2(1) b3(1)]) (use written_contents[OF b3(2)] in \<open>simp_all add: CRLF_def\<close>)
qed

lemma assembleTCP_auth_bytes:
  assumes "buffer_wf buffer" "\<forall>n. alloc n" "pb_type pb = cmd_byte cmd_AUTH"
    and "block_of (cmd_auth_username pb) u" "block_of (cmd_auth_displayname pb) d"
    and "block_of (cmd_auth_secret pb) s"
    and "bb_len (zeroth pb) + length u + length s + length d + 19 < 2 ^ 64"
  shows "\<exists>b. assembleProtocolTCP alloc cd pb buffer
      = Ok (True, pb\<lparr>pb_type := msg_byte msg_AUTH\<rparr>, b, []) \<and> buffer_wf b \<and>
    contents b = map Some (bytes_of ''AUTH '' @ u @ bytes_of '' AS '' @ d @ bytes_of '' USING '' @ s
      @ CRLF)"
proof -
  let ?n = "bb_len (zeroth pb) + length u + length s + length d + 19"
  have n: "size_add (size_add (size_add (sum_of_lengths pb) (Suc 0)) 16) 2 = ?n"
    using assms(4-7) by (simp add: sum_of_lengths_small block_of_def size_add_def)
  let ?fs = "[ADD_STRING_TO_BUFFER ''AUTH '', ADD_BLOCK_TO_BUFFER (cmd_auth_username pb),
    ADD_STRING_TO_BUFFER '' AS '', ADD_BLOCK_TO_BUFFER (cmd_auth_displayname pb),
    ADD_STRING_TO_BUFFER '' USING '', ADD_BLOCK_TO_BUFFER (cmd_auth_secret pb)]"
  let ?bs = "bytes_of ''AUTH '' @ u @ bytes_of '' AS '' @ d @ bytes_of '' USING '' @ s @ []"
  have w: "writes (appends ?fs) ?bs"
    by (intro writes_intros assms) simp_all
  have ty: "uchar2CommandType (pb_type pb) = cmd_AUTH"
    by (simp only: assms(3) uchar2CommandType_cmd_byte)
  have "0 < ?n" "length ?bs + 2 \<le> max (allocated buffer) ?n" by (simp_all add: bytes_of_def)
  from assms(1,2) this(1) assms(7) w this(2) show ?thesis
  proof (cases rule: tcp_message)
    case (1 b1 b2 b3)
    have "assembleProtocolTCP alloc cd pb buffer = Ok (True, pb\<lparr>pb_type := msg_byte msg_AUTH\<rparr>,
        b3\<lparr>used := length ?bs + 2\<rparr>, [])"
      using n ty 1(1-3) by (simp add: assembleProtocolTCP_def Let_def del: appends.simps)
    then show ?thesis using 1(4,5) by auto
  qed
qed

lemma assembleTCP_bye_bytes:
  assumes "buffer_wf buffer" "\<forall>n. alloc n" "pb_type pb = cmd_byte cmd_EXIT" "sum_of_lengths pb < 2 ^ 16"
  shows "\<exists>b. assembleProtocolTCP alloc cd pb buffer
      = Ok (True, pb\<lparr>pb_type := msg_byte msg_BYE\<rparr>, b, []) \<and> buffer_wf b \<and>
    contents b = map Some (bytes_of ''BYE'' @ CRLF) \<and> used b = 5"
proof -
  let ?n = "sum_of_lengths pb + 6"
  have n: "size_add (size_add (size_add (sum_of_lengths pb) (Suc 0)) 3) 2 = ?n" "?n < 2 ^ 64"
    using assms(4) by (simp_all add: size_add_def)
  let ?fs = "[ADD_STRING_TO_BUFFER ''BYE'']"
  let ?bs = "bytes_of ''BYE'' @ []"
  have w: "writes (appends ?fs) ?bs"
    by (intro writes_intros) simp_all
  have ty: "uchar2CommandType (pb_type pb) = cmd_EXIT"
    by (simp only: assms(3) uchar2CommandType_cmd_byte)
  have "0 < ?n" "length ?bs + 2 \<le> max (allocated buffer) ?n" by (simp_all add: bytes_of_def)
  from assms(1,2) this(1) n(2) w this(2) show ?thesis
  proof (cases rule: tcp_message)
    case (1 b1 b2 b3)
    have "assembleProtocolTCP alloc cd pb buffer = Ok (True, pb\<lparr>pb_type := msg_byte msg_BYE\<rparr>,
        b3\<lparr>used := length ?bs + 2\<rparr>, [])"
      using n(1) ty 1(1-3) by (simp add: assembleProtocolTCP_def Let_def del: appends.simps)
    then show ?thesis using 1(4,5) by (auto simp: bytes_of_def)
  qed
qed

lemma assembleTCP_message_bytes:
  assumes "buffer_wf buffer" "\<forall>n. alloc n" "pb_type pb = cmd_byte c"
    and "c = cmd_MSG \<and> t = msg_MSG \<and> word = ''MSG FROM '' \<or>
         c = cmd_ERR \<and> t = msg_ERR \<and> word = ''ERR FROM ''"
    and "stores (displayName cd) d" "block_of (cmd_msg_MsgContents pb) m"
    and "length m + bb_len (first pb) + bb_len (second pb) + bb_len (third pb) + 16 + length d < 2 ^ 64"
  shows "\<exists>b. assembleProtocolTCP alloc cd pb buffer
      = Ok (True, pb\<lparr>pb_type := msg_byte t\<rparr>, b, []) \<and> buffer_wf b \<and>
    contents b = map Some (bytes_of word @ d @ bytes_of '' IS '' @ m @ CRLF)"
proof -
  let ?n = "length m + bb_len (first pb) + bb_len (second pb) + bb_len (third pb) + 16 + length d"
  have n: "size_add (size_add (size_add (size_add (sum_of_lengths pb) (Suc 0)) 13)
      (used (displayName cd))) 2 = ?n"
    using assms(5-7) by (simp add: sum_of_lengths_small block_of_def stores_def size_add_def)
  let ?fs = "[ADD_STRING_TO_BUFFER word, ADD_STORED_INFO_TO_BUFFER (displayName cd),
    ADD_STRING_TO_BUFFER '' IS '', ADD_BLOCK_TO_BUFFER (cmd_msg_MsgContents pb)]"
  let ?bs = "bytes_of word @ d @ bytes_of '' IS '' @ m @ []"
  have word: "length word = 9" using assms(4) by auto
  have w: "writes (appends ?fs) ?bs"
    by (intro writes_intros assms) (simp_all add: word)
  have ty: "uchar2CommandType (pb_type pb) = c"
    by (simp only: assms(3) uchar2CommandType_cmd_byte)
  obtain nm where name: "data (displayName cd) = Some nm" using stores_data[OF assms(5)] by auto
  have "0 < ?n" "length ?bs + 2 \<le> max (allocated buffer) ?n" by (simp_all add: bytes_of_def word)
  from assms(1,2) this(1) assms(7) w this(2) show ?thesis
  proof (cases rule: tcp_message)
    case (1 b1 b2 b3)
    have "assembleProtocolTCP alloc cd pb buffer = Ok (True, pb\<lparr>pb_type := msg_byte t\<rparr>,
        b3\<lparr>used := length ?bs + 2\<rparr>, [])"
      using n ty name 1(1-3) assms(4)
      by (elim disjE) (simp_all add: assembleProtocolTCP_def Let_def del: appends.simps)
    then show ?thesis using 1(4,5) by auto
  qed
qed

text \<open>A JOIN message over TCP is written whole when the display name is not longer than the
  channel name and the line the user typed allow; the size estimate counts the channel name twice.\<close>

definition join_room_TCP :: "CommunicationDetails \<Rightarrow> ProtocolBlocks \<Rightarrow> Buffer \<Rightarrow> nat" where
  "join_room_TCP cd pb buffer =
     max (allocated buffer)
       (bb_len (zeroth pb) + bb_len (first pb) + bb_len (second pb) + bb_len (third pb) + 12
          + used (channelID cd))"

lemma stored_string_overflow:
  assumes "written xs b" "stores src bs" "bs \<noteq> []" "allocated b < length xs + length bs + length s"
    and "s \<noteq> []" "length s < 2 ^ 64 - 1"
  shows "res_bind (ADD_STORED_INFO_TO_BUFFER src (b, length xs)) (ADD_STRING_TO_BUFFER s)
    = Fault Out_Of_Bounds"
proof (cases "allocated b < length xs + length bs")
  case True
  then show ?thesis
    using stored_overflow[OF assms(1-3)] by simp
next
  case False
  then have room: "length xs + length bs \<le> allocated b" by simp
  obtain b1 where b1: "ADD_STORED_INFO_TO_BUFFER src (b, length xs) = Ok (b1, length xs + length bs)"
    "written (xs @ map Some bs) b1" "allocated b1 = allocated b"
    by (rule writesE[OF writes_stored[OF assms(2)] assms(1) room])
  from b1(2) show ?thesis
  proof (cases rule: writtenD)
    case (1 m)
    have "copy_bytes m (length xs + length bs) (map Some (bytes_of s @ [0])) 0 (length s)
        = Fault Out_Of_Bounds"
      using 1(2) b1(3) assms(4,5) by (intro copy_bytes_fault) auto
    then show ?thesis
      using 1(1) b1(1) by (simp add: ADD_STRING_TO_BUFFER_def stringReplace_def literal_def)
  qed
qed

lemma assembleTCP_join_bytes:
  assumes "buffer_wf buffer" "\<forall>n. alloc n" "pb_type pb = cmd_byte cmd_JOIN"
    and "stores (channelID cd) ch" "stores (displayName cd) d" "d \<noteq> []"
    and "bb_len (zeroth pb) + bb_len (first pb) + bb_len (second pb) + bb_len (third pb) + 12
           + length ch < 2 ^ 64"
  shows "if length ch + length d + 11 \<le> join_room_TCP cd pb buffer
    then \<exists>b. assembleProtocolTCP alloc cd pb buffer
        = Ok (True, pb\<lparr>pb_type := msg_byte msg_JOIN\<rparr>, b, []) \<and> buffer_wf b \<and>
      contents b = map Some (bytes_of ''JOIN '' @ ch @ bytes_of '' AS '' @ d @ CRLF)
    else assembleProtocolTCP alloc cd pb buffer = Fault Out_Of_Bounds"
proof -
  let ?n = "bb_len (zeroth pb) + bb_len (first pb) + bb_len (second pb) + bb_len (third pb) + 12
      + length ch"
  have n: "size_add (size_add (size_add (size_add (sum_of_lengths pb) (Suc 0)) 9)
      (used (channelID cd))) 2 = ?n"
    using assms(4,7) by (simp add: sum_of_lengths_small stores_def size_add_def)
  have ty: "uchar2CommandType (pb_type pb) = cmd_JOIN"
    by (simp only: assms(3) uchar2CommandType_cmd_byte)
  obtain nm where name: "data (displayName cd) = Some nm" using stores_data[OF assms(5)] by auto
  have pos: "0 < ?n" by simp
  obtain b1 where b1: "bufferResize alloc buffer ?n = Ok b1" "written [] b1"
    "allocated b1 = max (allocated buffer) ?n"
    using resize_written[OF assms(1,2,7) pos] by blast
  let ?fs = "[ADD_STRING_TO_BUFFER ''JOIN '', ADD_STORED_INFO_TO_BUFFER (channelID cd),
    ADD_STRING_TO_BUFFER '' AS '']"
  let ?bs = "bytes_of ''JOIN '' @ ch @ bytes_of '' AS '' @ []"
  have w: "writes (appends ?fs) ?bs" by (intro writes_intros assms) simp_all
  have room1: "length ([] :: cell list) + length ?bs \<le> allocated b1"
    using b1(3) by (simp add: bytes_of_def)
  obtain b2 where b2: "appends ?fs (b1, 0) = Ok (b2, length ?bs)" "written (map Some ?bs) b2"
    "allocated b2 = allocated b1"
    using writesE[OF w b1(2) room1] by auto
  have cap: "allocated b2 = join_room_TCP cd pb buffer"
    using b2(3) b1(3) assms(4) by (simp add: join_room_TCP_def stores_def)
  have run: "assembleProtocolTCP alloc cd pb buffer =
      res_bind (res_bind (ADD_STORED_INFO_TO_BUFFER (displayName cd) (b2, length (map Some ?bs)))
        (ADD_STRING_TO_BUFFER [CHR 0x0D, CHR 0x0A])) (\<lambda>(buffer, ptrPos).
        Ok (True, pb\<lparr>pb_type := msg_byte msg_JOIN\<rparr>, buffer\<lparr>used := ptrPos\<rparr>, []))"
    using n ty name b1(1) appends_append[of ?fs "[ADD_STORED_INFO_TO_BUFFER (displayName cd)]" "(b1, 0)"]
    by (simp add: assembleProtocolTCP_def Let_def b2(1) appends_single res_bind_assoc
        del: appends.simps)
  show ?thesis
  proof (cases "length ch + length d + 11 \<le> join_room_TCP cd pb buffer")
    case True
    have w: "writes (appends [ADD_STORED_INFO_TO_BUFFER (displayName cd),
        ADD_STRING_TO_BUFFER [CHR 0x0D, CHR 0x0A]]) (d @ bytes_of [CHR 0x0D, CHR 0x0A] @ [])"
      by (intro writes_intros assms) simp_all
    have room: "length (map Some ?bs) + length (d @ bytes_of [CHR 0x0D, CHR 0x0A] @ []) \<le> allocated b2"
      using True cap by (simp add: bytes_of_def)
    show ?thesis
    proof (cases rule: appended_body[OF b2(2) w room])
      case (1 b')
      then show ?thesis
        using run[folded appends_pair] True by (auto simp: bytes_of_CRLF simp del: appends.simps)
    qed
  next
    case False
    then have "allocated b2 < length (map Some ?bs) + length d + length [CHR 0x0D, CHR 0x0A]"
      using cap by (simp add: bytes_of_def)
    then show ?thesis
      using run False stored_string_overflow[OF b2(2) assms(5,6)] by simp
  qed
qed


section \<open>Properties\<close>

text \<open>Blocks and buffers for the examples.\<close>

definition text_block :: "string \<Rightarrow> BytesBlock" where
  "text_block s = \<lparr>bb_start = literal s, bb_len = length s\<rparr>"

definition blocks :: "cmd_t \<Rightarrow> BytesBlock \<Rightarrow> BytesBlock \<Rightarrow> BytesBlock \<Rightarrow> BytesBlock \<Rightarrow> ProtocolBlocks" where
  "blocks c b0 b1 b2 b3 =
     \<lparr>pb_type = cmd_byte c, pb_msgID = 0, zeroth = b0, first = b1, second = b2, third = b3,
      msg_reply_result_bool = False\<rparr>"

definition details :: "string \<Rightarrow> string \<Rightarrow> CommunicationDetails" where
  "details name channel =
     \<lparr>displayName = sample_buffer (bytes_of name), channelID = sample_buffer (bytes_of channel),
      msgCounter = 0\<rparr>"

lemma length_bytes_of [simp]: "length (bytes_of s) = length s"
  by (simp add: bytes_of_def)

lemma bytes_of_Nil [simp]: "bytes_of s = [] \<longleftrightarrow> s = []"
  by (simp add: bytes_of_def)

lemma text_block_of: "length s < 2 ^ 64 - 1 \<Longrightarrow> block_of (text_block s) (bytes_of s)"
  using points_to_prefix[OF points_to_literal[of s]]
  by (simp add: block_of_def text_block_def)

lemma sample_buffer_stores: "length bs < 2 ^ 64 \<Longrightarrow> stores (sample_buffer bs) bs"
  by (simp add: stores_def sample_buffer_def points_to_def buf_ptr_def)

lemmas example_simps = blocks_def details_def text_block_of sample_buffer_stores sample_buffer_wf

text \<open>C24: the AUTH datagram. With the memory granted, \<open>assembleProtocolUDP\<close> on an AUTH command
  produces exactly the type byte, two bytes left for the identifier, and user name, display name
  and secret, each followed by a zero byte; nothing is written outside the buffer.\<close>

theorem assembleUDP_auth:
  assumes "buffer_wf buffer" "\<forall>n. alloc n" "pb_type pb = cmd_byte cmd_AUTH"
    and "block_of (cmd_auth_username pb) u" "block_of (cmd_auth_displayname pb) d"
    and "block_of (cmd_auth_secret pb) s"
    and "bb_len (zeroth pb) + length u + length s + length d + 10 < 2 ^ 64"
  shows "\<exists>b i1 i2. assembleProtocolUDP alloc cd pb buffer
      = Ok (True, pb\<lparr>pb_type := msg_byte msg_AUTH\<rparr>, b, []) \<and> buffer_wf b \<and>
    contents b = [Some (msg_byte msg_AUTH), i1, i2] @ map Some (u @ 0 # d @ 0 # s @ [0])"
  using assms by (rule assembleUDP_auth_bytes)

definition sample_auth :: ProtocolBlocks where
  "sample_auth = blocks cmd_AUTH (text_block ''/auth'') (text_block ''al'') (text_block ''s3'')
     (text_block ''Bob'')"

theorem assembleUDP_auth_witness:
  "\<exists>b i1 i2. assembleProtocolUDP (\<lambda>_. True) (details ''x'' ''y'') sample_auth bufferInit
      = Ok (True, sample_auth\<lparr>pb_type := msg_byte msg_AUTH\<rparr>, b, []) \<and> buffer_wf b \<and>
    contents b = [Some (msg_byte msg_AUTH), i1, i2]
      @ map Some (bytes_of ''al'' @ 0 # bytes_of ''Bob'' @ 0 # bytes_of ''s3'' @ [0])"
  by (rule assembleUDP_auth)
    (simp_all add: example_simps sample_auth_def, simp_all add: text_block_def)

definition sample_msg :: "cmd_t \<Rightarrow> ProtocolBlocks" where
  "sample_msg c = blocks c (text_block ''hi'') no_block no_block no_block"

text \<open>C25: the JOIN datagram. The buffer is enlarged by the length of the stored channel name, not of
  the display name: if channel and display name and the 5 bytes around them fit into that room the
  datagram is complete, and otherwise the function writes past the end of the buffer.\<close>

theorem assembleUDP_join:
  assumes "buffer_wf buffer" "\<forall>n. alloc n" "pb_type pb = cmd_byte cmd_JOIN"
    and "block_of (cmd_join_channelID pb) ch" "stores (displayName cd) d" "d \<noteq> []"
    and "bb_len (zeroth pb) + length ch + bb_len (second pb) + bb_len (third pb) + 10
           + used (channelID cd) < 2 ^ 64"
  shows "if length ch + length d + 5 \<le> join_room_UDP cd pb buffer
    then \<exists>b i1 i2. assembleProtocolUDP alloc cd pb buffer
        = Ok (True, pb\<lparr>pb_type := msg_byte msg_JOIN\<rparr>, b, []) \<and> buffer_wf b \<and>
      contents b = [Some (msg_byte msg_JOIN), i1, i2] @ map Some (ch @ 0 # d @ [0])
    else assembleProtocolUDP alloc cd pb buffer = Fault Out_Of_Bounds"
  using assms by (rule assembleUDP_join_bytes)

text \<open>A user authenticated with \<open>/auth a b c\<close> (which leaves a buffer of 18 bytes), renamed to 20
  characters and joins channel \<open>x\<close>.\<close>

definition join_blocks :: ProtocolBlocks where
  "join_blocks = blocks cmd_JOIN (text_block ''/join'') (text_block ''x'') no_block no_block"

definition long_name :: CommunicationDetails where
  "long_name = details ''abcdefghijklmnopqrst'' ''x''"

theorem assembleUDP_join_witness:
  "assembleProtocolUDP (\<lambda>_. True) long_name join_blocks (sample_buffer (replicate 18 0))
     = Fault Out_Of_Bounds"
  by (rule iffD1[OF if_not_P assembleUDP_join[where ch = "bytes_of ''x''"
          and d = "bytes_of ''abcdefghijklmnopqrst''"]])
    (simp_all add: example_simps join_blocks_def long_name_def join_room_UDP_def,
     simp_all add: text_block_def no_block_def sample_buffer_def)

text \<open>C26: the AUTH line over TCP is exactly \<open>AUTH user AS name USING secret\<close> and the end of line.\<close>

theorem assembleTCP_auth:
  assumes "buffer_wf buffer" "\<forall>n. alloc n" "pb_type pb = cmd_byte cmd_AUTH"
    and "block_of (cmd_auth_username pb) u" "block_of (cmd_auth_displayname pb) d"
    and "block_of (cmd_auth_secret pb) s"
    and "bb_len (zeroth pb) + length u + length s + length d + 19 < 2 ^ 64"
  shows "\<exists>b. assembleProtocolTCP alloc cd pb buffer
      = Ok (True, pb\<lparr>pb_type := msg_byte msg_AUTH\<rparr>, b, []) \<and> buffer_wf b \<and>
    contents b = map Some (bytes_of ''AUTH '' @ u @ bytes_of '' AS '' @ d @ bytes_of '' USING '' @ s
      @ CRLF)"
  using assms by (rule assembleTCP_auth_bytes)

theorem assembleTCP_auth_witness:
  "\<exists>b. assembleProtocolTCP (\<lambda>_. True) (details ''x'' ''y'') sample_auth bufferInit
      = Ok (True, sample_auth\<lparr>pb_type := msg_byte msg_AUTH\<rparr>, b, []) \<and> buffer_wf b \<and>
    contents b = map Some (bytes_of ''AUTH '' @ bytes_of ''al'' @ bytes_of '' AS '' @ bytes_of ''Bob''
      @ bytes_of '' USING '' @ bytes_of ''s3'' @ CRLF)"
  by (rule assembleTCP_auth)
    (simp_all add: example_simps sample_auth_def, simp_all add: text_block_def)

text \<open>The MSG and ERR lines over TCP are exactly \<open>MSG FROM name IS contents\<close> (\<open>ERR FROM\<close> for an
  error) and the end of line.\<close>

theorem assembleTCP_message:
  assumes "buffer_wf buffer" "\<forall>n. alloc n" "pb_type pb = cmd_byte c"
    and "c = cmd_MSG \<and> t = msg_MSG \<and> word = ''MSG FROM '' \<or>
         c = cmd_ERR \<and> t = msg_ERR \<and> word = ''ERR FROM ''"
    and "stores (displayName cd) d" "block_of (cmd_msg_MsgContents pb) m"
    and "length m + bb_len (first pb) + bb_len (second pb) + bb_len (third pb) + 16 + length d < 2 ^ 64"
  shows "\<exists>b. assembleProtocolTCP alloc cd pb buffer
      = Ok (True, pb\<lparr>pb_type := msg_byte t\<rparr>, b, []) \<and> buffer_wf b \<and>
    contents b = map Some (bytes_of word @ d @ bytes_of '' IS '' @ m @ CRLF)"
  using assms by (rule assembleTCP_message_bytes)

theorem assembleTCP_message_witness:
  "\<exists>b. assembleProtocolTCP (\<lambda>_. True) (details ''Bob'' ''y'') (sample_msg cmd_ERR) bufferInit
      = Ok (True, (sample_msg cmd_ERR)\<lparr>pb_type := msg_byte msg_ERR\<rparr>, b, []) \<and> buffer_wf b \<and>
    contents b = map Some (bytes_of ''ERR FROM '' @ bytes_of ''Bob'' @ bytes_of '' IS ''
      @ bytes_of ''hi'' @ CRLF)"
  by (rule assembleTCP_message[where c = cmd_ERR])
    (simp_all add: example_simps sample_msg_def, simp_all add: no_block_def)

text \<open>C27: the JOIN line over TCP: complete when it fits into the room that is reserved, which again
  counts the channel name in place of the display name, and a write past the buffer otherwise.\<close>

theorem assembleTCP_join:
  assumes "buffer_wf buffer" "\<forall>n. alloc n" "pb_type pb = cmd_byte cmd_JOIN"
    and "stores (channelID cd) ch" "stores (displayName cd) d" "d \<noteq> []"
    and "bb_len (zeroth pb) + bb_len (first pb) + bb_len (second pb) + bb_len (third pb) + 12
           + length ch < 2 ^ 64"
  shows "if length ch + length d + 11 \<le> join_room_TCP cd pb buffer
    then \<exists>b. assembleProtocolTCP alloc cd pb buffer
        = Ok (True, pb\<lparr>pb_type := msg_byte msg_JOIN\<rparr>, b, []) \<and> buffer_wf b \<and>
      contents b = map Some (bytes_of ''JOIN '' @ ch @ bytes_of '' AS '' @ d @ CRLF)
    else assembleProtocolTCP alloc cd pb buffer = Fault Out_Of_Bounds"
  using assms by (rule assembleTCP_join_bytes)

theorem assembleTCP_join_witness:
  "assembleProtocolTCP (\<lambda>_. True) long_name join_blocks (sample_buffer (replicate 18 0))
     = Fault Out_Of_Bounds"
  by (rule iffD1[OF if_not_P assembleTCP_join[where ch = "bytes_of ''x''"
          and d = "bytes_of ''abcdefghijklmnopqrst''"]])
    (simp_all add: example_simps join_blocks_def long_name_def join_room_TCP_def,
     simp_all add: text_block_def no_block_def sample_buffer_def)

end
