(* ===== verification/Chat_Protocol_Decoding.thy ===== *)
theory Chat_Protocol_Decoding
  imports Chat_Protocol_Encoding
begin

text \<open>
  What \<open>disassebleProtocolUDP\<close> and \<open>disassebleProtocolTCP\<close> make of a message of the server, and that
  they undo the assembling functions.
\<close>

section \<open>UDP\<close>

lemma uchar2msgType_msg_byte [simp]: "t \<noteq> msg_CORRUPTED \<Longrightarrow> uchar2msgType (msg_byte t) = t"
  by (cases t) (simp_all add: uchar2msgType_def)

lemma zero_block_ok:
  assumes "points_to start (xs @ 0 # ys)" "0 \<notin> set xs" "xs \<noteq> []" "length xs \<le> len"
  shows "zero_block start len = Ok \<lparr>bb_start = start, bb_len = length xs\<rparr>"
proof -
  have "length xs < 2 ^ 64" using assms(1) by (auto elim!: points_toD)
  then show ?thesis
    using findZero_split[OF assms] by (simp add: zero_block_def size_of_long_nat)
qed

lemma points_to_length: "points_to p bs \<Longrightarrow> length bs < 2 ^ 64"
  by (auto elim!: points_toD)

lemma block_of_prefix: "points_to p (bs @ rest) \<Longrightarrow> block_of \<lparr>bb_start = p, bb_len = length bs\<rparr> bs"
  by (auto simp: block_of_def intro: points_to_prefix)

lemma points_to_drop3: "points_to p (a # b # c # bs) \<Longrightarrow> points_to (ptr_add p 3) bs"
  using points_to_add[of p "[a, b, c]" bs] by (simp add: numeral_3_eq_3)

text \<open>A string and the pointer behind its zero byte.\<close>

lemma after_zero:
  assumes "points_to p (xs @ 0 # ys)"
  shows "points_to (BBLOCK_END_W_ZERO_BYTE \<lparr>bb_start = p, bb_len = length xs\<rparr>) ys"
proof -
  have "size_add (length xs) 1 = length (xs @ [0 :: byte])"
    using points_to_length[OF assms] by (simp add: size_add_def)
  moreover have "points_to p ((xs @ [0]) @ ys)" using assms by simp
  ultimately show ?thesis
    using points_to_add by (fastforce simp: BBLOCK_END_W_ZERO_BYTE_def)
qed

text \<open>The header every datagram has.\<close>

definition udp_start :: "Buffer \<Rightarrow> ProtocolBlocks \<Rightarrow> msg_t \<Rightarrow> ProtocolBlocks" where
  "udp_start buffer pb t =
     pb\<lparr>pb_type := msg_byte t, zeroth := \<lparr>bb_start = ptr_add (buf_ptr buffer) 3, bb_len = 0\<rparr>,
        first := no_block, second := no_block, third := no_block\<rparr>"

lemma decodeUDP_named:
  assumes "points_to (buf_ptr buffer) (msg_byte t # low # high # n @ 0 # c @ 0 # rest)"
    and "used buffer = length n + length c + 5"
    and "t = msg_MSG \<or> t = msg_ERR \<or> t = msg_JOIN"
    and "n \<noteq> []" "0 \<notin> set n" "c \<noteq> []" "0 \<notin> set c"
  shows "\<exists>pb'. disassebleProtocolUDP buffer pb = Ok (pb', convert2BytesToU16Int low high) \<and>
    pb_type pb' = msg_byte t \<and> block_of (zeroth pb') n \<and> block_of (first pb') c"
proof -
  let ?p = "ptr_add (buf_ptr buffer) 3"
  have p: "points_to ?p (n @ 0 # c @ 0 # rest)"
    using assms(1) by (rule points_to_drop3)
  let ?n = "\<lparr>bb_start = ?p, bb_len = length n\<rparr>"
  let ?q = "BBLOCK_END_W_ZERO_BYTE ?n"
  have q: "points_to ?q (c @ 0 # rest)" using p by (rule after_zero)
  have small: "used buffer < 2 ^ 64"
    using points_to_length[OF assms(1)] assms(2) by simp
  have n: "zero_block ?p (size_sub (used buffer) TYPE_ID_LEN) = Ok ?n"
    by (rule zero_block_ok[OF p assms(5,4)])
      (use assms(2) small in \<open>simp add: size_sub_le TYPE_ID_LEN_def\<close>)
  have c: "zero_block ?q (size_sub (used buffer) (size_add TYPE_ID_LEN (length n)))
      = Ok \<lparr>bb_start = ?q, bb_len = length c\<rparr>"
    by (rule zero_block_ok[OF q assms(7,6)])
      (use assms(2) small in \<open>simp add: size_sub_le size_add_def TYPE_ID_LEN_def\<close>)
  have r: "ptr_read (buf_ptr buffer) 0 = Ok (msg_byte t)" "ptr_read (buf_ptr buffer) 1 = Ok low"
    "ptr_read (buf_ptr buffer) 2 = Ok high"
    using points_to_read[OF assms(1), of 0] points_to_read[OF assms(1), of 1]
      points_to_read[OF assms(1), of 2] by simp_all
  have "disassebleProtocolUDP buffer pb = Ok ((udp_start buffer pb t)
      \<lparr>zeroth := ?n, first := \<lparr>bb_start = ?q, bb_len = length c\<rparr>\<rparr>, convert2BytesToU16Int low high)"
    using assms(3) r n c
    by (elim disjE) (simp_all add: disassebleProtocolUDP_def Let_def udp_start_def uchar2msgType_def)
  then show ?thesis
    using block_of_prefix[OF p] block_of_prefix[OF q] by (simp add: udp_start_def)
qed


lemma decodeUDP_reply_blocks:
  assumes "points_to (buf_ptr buffer) (msg_byte msg_REPLY # low # high # r # rl # rh # c @ 0 # rest)"
    and "used buffer = length c + 7" "c \<noteq> []" "0 \<notin> set c"
  shows "\<exists>pb'. disassebleProtocolUDP buffer pb = Ok (pb', convert2BytesToU16Int low high) \<and>
    pb_type pb' = msg_byte msg_REPLY \<and> block_of (msg_reply_result pb') [r] \<and>
    block_of (msg_reply_refMsgID pb') [rl, rh] \<and> block_of (msg_reply_MsgContents pb') c \<and>
    points_to (bb_start (msg_reply_MsgContents pb')) (c @ 0 # rest)"
proof -
  let ?p = "ptr_add (buf_ptr buffer) 3"
  have p: "points_to ?p ([r] @ rl # rh # c @ 0 # rest)"
    using points_to_drop3[OF assms(1)] by simp
  let ?r = "\<lparr>bb_start = ?p, bb_len = length [r]\<rparr>"
  have q: "points_to (BBLOCK_END ?r) ([rl, rh] @ c @ 0 # rest)"
    using points_to_add[OF p] by (simp add: BBLOCK_END_def)
  let ?ref = "\<lparr>bb_start = BBLOCK_END ?r, bb_len = length [rl, rh]\<rparr>"
  have s: "points_to (BBLOCK_END ?ref) (c @ 0 # rest)"
    using points_to_add[OF q] by (simp add: BBLOCK_END_def)
  have small: "used buffer < 2 ^ 64"
    using points_to_length[OF assms(1)] assms(2) by simp
  have c: "zero_block (BBLOCK_END ?ref) (size_sub (used buffer) (Suc (Suc (Suc TYPE_ID_LEN))))
      = Ok \<lparr>bb_start = BBLOCK_END ?ref, bb_len = length c\<rparr>"
    by (rule zero_block_ok[OF s assms(4,3)])
      (use assms(2) small in \<open>simp add: size_sub_le TYPE_ID_LEN_def\<close>)
  have r: "ptr_read (buf_ptr buffer) 0 = Ok 1" "ptr_read (buf_ptr buffer) 1 = Ok low"
    "ptr_read (buf_ptr buffer) 2 = Ok high"
    using points_to_read[OF assms(1), of 0] points_to_read[OF assms(1), of 1]
      points_to_read[OF assms(1), of 2] by simp_all
  have "disassebleProtocolUDP buffer pb = Ok ((udp_start buffer pb msg_REPLY)
      \<lparr>zeroth := ?r, first := ?ref, second := \<lparr>bb_start = BBLOCK_END ?ref, bb_len = length c\<rparr>\<rparr>,
      convert2BytesToU16Int low high)"
    using r c by (cases pb)
      (simp add: disassebleProtocolUDP_def Let_def udp_start_def uchar2msgType_def numeral_2_eq_2)
  then show ?thesis
    using block_of_prefix[OF p] block_of_prefix[OF q] block_of_prefix[OF s] s
    by (simp add: udp_start_def)
qed

lemma decodeUDP_empty_string:
  assumes "points_to (buf_ptr buffer) (msg_byte t # low # high # 0 # rest)"
    and "t = msg_MSG \<or> t = msg_ERR \<or> t = msg_JOIN \<or> t = msg_AUTH"
  shows "disassebleProtocolUDP buffer pb = Err err_INTERNAL_BAD_ARG"
proof -
  have "points_to (ptr_add (buf_ptr buffer) 3) (0 # rest)"
    using assms(1) by (rule points_to_drop3)
  then have "zero_block (ptr_add (buf_ptr buffer) 3) len = Err err_INTERNAL_BAD_ARG" for len
    by (simp add: zero_block_def findZero_empty)
  moreover have "ptr_read (buf_ptr buffer) 0 = Ok (msg_byte t)" "ptr_read (buf_ptr buffer) 1 = Ok low"
    "ptr_read (buf_ptr buffer) 2 = Ok high"
    using points_to_read[OF assms(1), of 0] points_to_read[OF assms(1), of 1]
      points_to_read[OF assms(1), of 2] by simp_all
  ultimately show ?thesis
    using assms(2)
    by (elim disjE) (simp_all add: disassebleProtocolUDP_def Let_def uchar2msgType_def)
qed

section \<open>TCP\<close>

lemma points_to_word: "points_to p (bytes_of s @ bs) \<Longrightarrow> points_to (ptr_add p (length s)) bs"
  using points_to_add[of p "bytes_of s" bs] by simp

text \<open>Comparing a message with one of the key words.\<close>

lemma strncmp_word:
  assumes "points_to p (bytes_of s @ bs)" "length s < 2 ^ 64 - 1"
  shows "strncmp p (literal s) (length s) = Ok 0"
  using assms(1) points_to_literal[OF assms(2)]
  by (intro strncmp_eq[of _ "bytes_of s @ bs" _ "bytes_of s @ [0]"]) simp_all

lemma strncmp_other:
  assumes "points_to p (c # bs)" "length s < 2 ^ 64 - 2" "c \<noteq> of_char d"
  shows "\<exists>r. strncmp p (literal (d # s)) (Suc n) = Ok r \<and> r \<noteq> 0"
proof -
  have "points_to (literal (d # s)) (of_char d # bytes_of s @ [0])"
    using points_to_literal[of "d # s"] assms(2) by (simp add: bytes_of_def)
  then have "ptr_read (literal (d # s)) 0 = Ok (of_char d)" "ptr_read p 0 = Ok c"
    using points_to_read assms(1) by fastforce+
  then have "strncmp p (literal (d # s)) (Suc n) = Ok (uint c - uint (of_char d :: byte))"
    using assms(3) by (simp add: strncmp_def)
  moreover have "uint c - uint (of_char d :: byte) \<noteq> 0" using assms(3) by simp
  ultimately show ?thesis by blast
qed

text \<open>The part of the message behind \<open>MSG FROM\<close> or \<open>ERR FROM\<close>: a name without blanks, \<open> IS \<close> and
  the contents up to the end of the line.\<close>

lemma named_contents_ok:
  assumes "points_to (buf_ptr buffer) (bytes_of word @ n @ bytes_of '' IS '' @ c @ e # rest)"
    and "length word = 9" "used buffer \<ge> length n + length c + 14"
    and "\<forall>x \<in> set n. \<not> is_blank x" "\<forall>x \<in> set c. \<not> is_line_end x" "is_line_end e"
    and "used buffer < 2 ^ 64"
  shows "\<exists>pb'. named_contents buffer pb t = Ok pb' \<and> pb_type pb' = msg_byte t \<and>
    block_of (zeroth pb') n \<and> block_of (first pb') c"
proof -
  let ?p = "ptr_add (buf_ptr buffer) 9"
  have p: "points_to ?p (n @ 32 # bytes_of ''IS '' @ c @ e # rest)"
    using points_to_word[OF assms(1)] assms(2) by (simp add: bytes_of_def)
  have len: "length n < 2 ^ 64" "length c < 2 ^ 64"
    using points_to_length[OF assms(1)] by simp_all
  have find: "findBlankCharInString ?p (size_sub (used buffer) 9) = Ok (int (length n))"
    unfolding findBlankCharInString_def
    by (rule scan_split[OF p])
      (use assms(3,4,7) in \<open>simp_all add: is_blank_def size_sub_le\<close>)
  let ?n = "\<lparr>bb_start = ?p, bb_len = length n\<rparr>"
  have q: "points_to (BBLOCK_END ?n) (bytes_of '' IS '' @ c @ e # rest)"
    using points_to_add[OF p] by (simp add: BBLOCK_END_def bytes_of_def)
  have four: "length '' IS '' = 4" by simp
  have is_: "strncmp (BBLOCK_END ?n) (literal '' IS '') 4 = Ok 0"
    using strncmp_word[OF q, unfolded four] by simp
  let ?q = "ptr_add ?p (size_add (length n) 4)"
  have add: "size_add (length n) 4 = length (n @ bytes_of '' IS '')"
    using assms(3,7) by (simp add: size_add_def)
  have "points_to ?p ((n @ bytes_of '' IS '') @ c @ e # rest)"
    using p by (simp add: bytes_of_def)
  then have r: "points_to ?q (c @ e # rest)"
    unfolding add by (rule points_to_add)
  have find2: "findNewLineInString ?q (size_sub (size_sub (used buffer) 9) (length n))
      = Ok (int (length c))"
    unfolding findNewLineInString_def
    by (rule scan_split[OF r]) (use assms(3,5,6,7) in \<open>simp_all add: size_sub_le\<close>)
  have "named_contents buffer pb t = Ok (pb\<lparr>zeroth := ?n,
      first := \<lparr>bb_start = ?q, bb_len = length c\<rparr>, pb_type := msg_byte t\<rparr>)"
    using find is_ find2 len by (simp add: named_contents_def Let_def size_of_long_nat)
  then show ?thesis
    using block_of_prefix[OF p] block_of_prefix[OF r] by simp
qed

lemma decodeTCP_named:
  assumes "points_to (buf_ptr buffer) (bytes_of word @ n @ bytes_of '' IS '' @ c @ e # rest)"
    and "t = msg_MSG \<and> word = ''MSG FROM '' \<or> t = msg_ERR \<and> word = ''ERR FROM ''"
    and "used buffer \<ge> length n + length c + 14" "used buffer < 2 ^ 64"
    and "\<forall>x \<in> set n. \<not> is_blank x" "\<forall>x \<in> set c. \<not> is_line_end x" "is_line_end e"
  shows "\<exists>pb'. disassebleProtocolTCP buffer pb = Ok pb' \<and> pb_type pb' = msg_byte t \<and>
    block_of (zeroth pb') n \<and> block_of (first pb') c"
proof -
  let ?tail = "n @ bytes_of '' IS '' @ c @ e # rest"
  have word: "length word = 9" using assms(2) by auto
  have eq: "strncmp (buf_ptr buffer) (literal word) 9 = Ok 0"
    using strncmp_word[OF assms(1)] word by simp
  have "disassebleProtocolTCP buffer pb = named_contents buffer pb t"
    using assms(2)
  proof (elim disjE)
    assume "t = msg_MSG \<and> word = ''MSG FROM ''"
    then show ?thesis using eq by (simp add: disassebleProtocolTCP_def)
  next
    assume t: "t = msg_ERR \<and> word = ''ERR FROM ''"
    then have E: "points_to (buf_ptr buffer) (69 # bytes_of ''RR FROM '' @ ?tail)"
      using assms(1) by (simp add: bytes_of_def)
    obtain r1 r2 r3 where
      "strncmp (buf_ptr buffer) (literal ''MSG FROM '') (Suc 8) = Ok r1" "r1 \<noteq> 0"
      "strncmp (buf_ptr buffer) (literal ''REPLY '') (Suc 5) = Ok r2" "r2 \<noteq> 0"
      "strncmp (buf_ptr buffer) (literal ''BYE'') (Suc 2) = Ok r3" "r3 \<noteq> 0"
      using strncmp_other[OF E, of "''SG FROM ''" "CHR ''M''" 8]
        strncmp_other[OF E, of "''EPLY ''" "CHR ''R''" 5]
        strncmp_other[OF E, of "''YE''" "CHR ''B''" 2] by auto
    then show ?thesis
      using eq t by (simp add: disassebleProtocolTCP_def)
  qed
  then show ?thesis
    using named_contents_ok[OF assms(1) word assms(3,5,6,7,4), of pb t] by simp
qed


lemma decodeTCP_reply_blocks:
  assumes "points_to (buf_ptr buffer) (bytes_of ''REPLY '' @ bytes_of res @ c @ e # rest)"
    and "ok \<and> res = ''OK IS '' \<or> \<not> ok \<and> res = ''NOK IS ''"
    and "used buffer \<ge> length c + 14" "used buffer < 2 ^ 64"
    and "\<forall>x \<in> set c. \<not> is_blank x" "is_blank e"
  shows "\<exists>pb'. disassebleProtocolTCP buffer pb = Ok pb' \<and> pb_type pb' = msg_byte msg_REPLY \<and>
    msg_reply_result_bool pb' = ok \<and> block_of (msg_reply_MsgContents pb') c \<and>
    points_to (bb_start (msg_reply_MsgContents pb')) (c @ e # rest) \<and>
    bb_start (msg_reply_MsgContents pb') = ptr_add (ptr_add (buf_ptr buffer) 6) (length res)"
proof -
  let ?p = "ptr_add (buf_ptr buffer) 6"
  have six: "length ''REPLY '' = 6" by simp
  have p: "points_to ?p (bytes_of res @ c @ e # rest)"
    using points_to_word[OF assms(1), unfolded six] .
  have R: "points_to (buf_ptr buffer) (82 # bytes_of ''EPLY '' @ bytes_of res @ c @ e # rest)"
    using assms(1) by (simp add: bytes_of_def)
  obtain r1 where r1: "strncmp (buf_ptr buffer) (literal ''MSG FROM '') 9 = Ok r1" "r1 \<noteq> 0"
    using strncmp_other[OF R, of "''SG FROM ''" "CHR ''M''" 8] by auto
  have reply: "strncmp (buf_ptr buffer) (literal ''REPLY '') 6 = Ok 0"
    using strncmp_word[OF assms(1), unfolded six] by simp
  have len: "length res < 2 ^ 64 - 1" using assms(2) by auto
  let ?q = "ptr_add ?p (length res)"
  have q: "points_to ?q (c @ e # rest)" using p by (rule points_to_word)
  have find: "findBlankCharInString ?q k = Ok (int (length c))" if "length c \<le> k" for k
    unfolding findBlankCharInString_def using assms(5,6) that by (intro scan_split[OF q]) auto
  have c: "size_of_long (int (length c)) = length c"
    using points_to_length[OF q] by (intro size_of_long_nat) simp
  have "disassebleProtocolTCP buffer pb = Ok (pb\<lparr>
      zeroth := \<lparr>bb_start = ?p, bb_len = (if ok then 2 else 3)\<rparr>, msg_reply_result_bool := ok,
      second := \<lparr>bb_start = ?q, bb_len = length c\<rparr>, pb_type := msg_byte msg_REPLY\<rparr>)"
    using assms(2)
  proof (elim disjE)
    assume a: "ok \<and> res = ''OK IS ''"
    then have l: "length res = 6" by simp
    then have "strncmp ?p (literal ''OK IS '') 6 = Ok 0"
      using strncmp_word[OF p len] a by (simp only: l)
    then show ?thesis
      unfolding l using a r1 reply find[of "size_sub (used buffer) 8", unfolded l] c assms(3,4)
      by (simp add: disassebleProtocolTCP_def Let_def size_sub_le)
  next
    assume a: "\<not> ok \<and> res = ''NOK IS ''"
    then have l: "length res = 7" by simp
    then have "strncmp ?p (literal ''NOK IS '') 7 = Ok 0"
      using strncmp_word[OF p len] a by (simp only: l)
    moreover have "points_to ?p (78 # bytes_of ''OK IS '' @ c @ e # rest)"
      using p a by (simp add: bytes_of_def)
    then obtain r2 where "strncmp ?p (literal ''OK IS '') 6 = Ok r2" "r2 \<noteq> 0"
      using strncmp_other[of ?p 78 "bytes_of ''OK IS '' @ c @ e # rest" "''K IS ''" "CHR ''O''" 5]
      by auto
    ultimately show ?thesis
      unfolding l using a r1 reply find[of "size_sub (used buffer) 9", unfolded l] c assms(3,4)
      by (simp add: disassebleProtocolTCP_def Let_def size_sub_le)
  qed
  then show ?thesis
    using block_of_prefix[OF q] q by simp
qed

section \<open>Properties\<close>

text \<open>A received message: the bytes at the start of the receive buffer.\<close>

definition received :: "Buffer \<Rightarrow> byte list \<Rightarrow> bool" where
  "received buffer bs \<longleftrightarrow> points_to (buf_ptr buffer) bs \<and> used buffer = length bs"

lemma received_length: "received buffer bs \<Longrightarrow> used buffer < 2 ^ 64"
  using points_to_length[of "buf_ptr buffer" bs] by (simp add: received_def)

lemma sample_received: "length bs < 2 ^ 64 \<Longrightarrow> received (sample_buffer bs) bs"
  by (simp add: received_def points_to_def buf_ptr_def sample_buffer_def)

text \<open>C35: UDP round trip. A MSG or ERR datagram built by \<open>assembleProtocolUDP\<close>, labelled with any
  identifier bytes and received as it was sent, is split by \<open>disassebleProtocolUDP\<close> into the
  same display name and contents and the same type.\<close>

theorem UDP_message_roundtrip:
  assumes "buffer_wf buffer" "\<forall>n. alloc n" "pb_type pb = cmd_byte c"
    and "c = cmd_MSG \<and> t = msg_MSG \<or> c = cmd_ERR \<and> t = msg_ERR"
    and "stores (displayName cd) d" "block_of (cmd_msg_MsgContents pb) m"
    and "length m + bb_len (first pb) + bb_len (second pb) + bb_len (third pb) + 10 + length d < 2 ^ 64"
    and "d \<noteq> []" "0 \<notin> set d" "m \<noteq> []" "0 \<notin> set m"
  shows "\<exists>b. assembleProtocolUDP alloc cd pb buffer = Ok (True, pb\<lparr>pb_type := msg_byte t\<rparr>, b, []) \<and>
    (\<forall>rx bs low high. map Some bs = (contents b)[1 := Some low, 2 := Some high] \<longrightarrow> received rx bs \<longrightarrow>
       (\<exists>pb'. disassebleProtocolUDP rx pb0 = Ok (pb', convert2BytesToU16Int low high) \<and>
          pb_type pb' = msg_byte t \<and> block_of (msg_msg_displayname pb') d \<and>
          block_of (msg_msg_MsgContents pb') m))"
proof -
  obtain b i1 i2 where b: "assembleProtocolUDP alloc cd pb buffer
      = Ok (True, pb\<lparr>pb_type := msg_byte t\<rparr>, b, [])"
    "contents b = [Some (msg_byte t), i1, i2] @ map Some (d @ 0 # m @ [0])"
    using assembleUDP_message_bytes[OF assms(1-7)] by blast
  have t: "t = msg_MSG \<or> t = msg_ERR \<or> t = msg_JOIN" using assms(4) by auto
  have "\<exists>pb'. disassebleProtocolUDP rx pb0 = Ok (pb', convert2BytesToU16Int low high) \<and>
      pb_type pb' = msg_byte t \<and> block_of (zeroth pb') d \<and> block_of (first pb') m"
    if "map Some bs = (contents b)[1 := Some low, 2 := Some high]" "received rx bs" for rx bs low high
  proof -
    have "map Some bs = map Some (msg_byte t # low # high # d @ 0 # m @ [0])"
      using that(1) b(2) by (simp add: numeral_2_eq_2)
    then have "bs = msg_byte t # low # high # d @ 0 # m @ 0 # []"
      by (rule map_injective) (simp add: inj_on_def)
    then show ?thesis
      using that(2) assms(8-11) by (intro decodeUDP_named[OF _ _ t, where rest = "[]"])
        (simp_all add: received_def)
  qed
  then show ?thesis using b(1) by blast
qed

theorem UDP_message_roundtrip_witness:
  "\<exists>b. assembleProtocolUDP (\<lambda>_. True) (details ''Bob'' ''y'') (sample_msg cmd_MSG) bufferInit
      = Ok (True, (sample_msg cmd_MSG)\<lparr>pb_type := msg_byte msg_MSG\<rparr>, b, []) \<and>
    (\<forall>rx bs low high. map Some bs = (contents b)[1 := Some low, 2 := Some high] \<longrightarrow> received rx bs \<longrightarrow>
       (\<exists>pb'. disassebleProtocolUDP rx (sample_msg cmd_MSG)
            = Ok (pb', convert2BytesToU16Int low high) \<and>
          pb_type pb' = msg_byte msg_MSG \<and> block_of (msg_msg_displayname pb') (bytes_of ''Bob'') \<and>
          block_of (msg_msg_MsgContents pb') (bytes_of ''hi'')))"
  by (rule UDP_message_roundtrip[where c = cmd_MSG])
    (simp_all add: example_simps sample_msg_def no_block_def, simp_all add: bytes_of_def)

text \<open>C37: a datagram whose first string is empty (a MSG, ERR or JOIN with an empty name, an AUTH with
  an empty user name) is not treated as a malformed message but ends the program: the search
  for its end calls \<open>errHandling\<close> with \<open>err_INTERNAL_BAD_ARG\<close>.\<close>

theorem decodeUDP_empty_name:
  assumes "received buffer (msg_byte t # low # high # 0 # rest)"
    and "t = msg_MSG \<or> t = msg_ERR \<or> t = msg_JOIN \<or> t = msg_AUTH"
  shows "disassebleProtocolUDP buffer pb = Err err_INTERNAL_BAD_ARG"
  using decodeUDP_empty_string[of buffer t low high rest pb] assms by (simp add: received_def)

theorem decodeUDP_empty_name_witness:
  "disassebleProtocolUDP (sample_buffer [4, 0, 0, 0, 104, 105, 0]) (sample_msg cmd_MSG)
     = Err err_INTERNAL_BAD_ARG"
  by (rule decodeUDP_empty_name[where t = msg_MSG and low = 0 and high = 0 and rest = "[104, 105, 0]"])
    (simp_all add: sample_received)

text \<open>C36: TCP round trip. A MSG or ERR line built by \<open>assembleProtocolTCP\<close>, from a display name
  without blanks and contents without line ends, and received as it was sent, is split by
  \<open>disassebleProtocolTCP\<close> into the same name, contents and type.\<close>

theorem TCP_message_roundtrip:
  assumes "buffer_wf buffer" "\<forall>n. alloc n" "pb_type pb = cmd_byte c"
    and "c = cmd_MSG \<and> t = msg_MSG \<and> word = ''MSG FROM '' \<or>
         c = cmd_ERR \<and> t = msg_ERR \<and> word = ''ERR FROM ''"
    and "stores (displayName cd) d" "block_of (cmd_msg_MsgContents pb) m"
    and "length m + bb_len (first pb) + bb_len (second pb) + bb_len (third pb) + 16 + length d < 2 ^ 64"
    and "\<forall>x \<in> set d. \<not> is_blank x" "\<forall>x \<in> set m. \<not> is_line_end x"
  shows "\<exists>b. assembleProtocolTCP alloc cd pb buffer = Ok (True, pb\<lparr>pb_type := msg_byte t\<rparr>, b, []) \<and>
    (\<forall>rx bs. map Some bs = contents b \<longrightarrow> received rx bs \<longrightarrow>
       (\<exists>pb'. disassebleProtocolTCP rx pb0 = Ok pb' \<and> pb_type pb' = msg_byte t \<and>
          block_of (msg_msg_displayname pb') d \<and> block_of (msg_msg_MsgContents pb') m))"
proof -
  obtain b where b: "assembleProtocolTCP alloc cd pb buffer
      = Ok (True, pb\<lparr>pb_type := msg_byte t\<rparr>, b, [])"
    "contents b = map Some (bytes_of word @ d @ bytes_of '' IS '' @ m @ CRLF)"
    using assembleTCP_message_bytes[OF assms(1-7)] by blast
  have t: "t = msg_MSG \<and> word = ''MSG FROM '' \<or> t = msg_ERR \<and> word = ''ERR FROM ''"
    and word: "length word = 9"
    using assms(4) by auto
  have "\<exists>pb'. disassebleProtocolTCP rx pb0 = Ok pb' \<and> pb_type pb' = msg_byte t \<and>
      block_of (zeroth pb') d \<and> block_of (first pb') m"
    if "map Some bs = contents b" "received rx bs" for rx bs
  proof -
    have "map Some bs = map Some (bytes_of word @ d @ bytes_of '' IS '' @ m @ 13 # [10])"
      using that(1) b(2) by (simp add: CRLF_def)
    then have bs: "bs = bytes_of word @ d @ bytes_of '' IS '' @ m @ 13 # [10]"
      by (rule map_injective) (simp add: inj_on_def)
    have r: "points_to (buf_ptr rx) (bytes_of word @ d @ bytes_of '' IS '' @ m @ 13 # [10])"
      and u: "used rx = length d + length m + 15"
      using that(2) word bs by (simp_all add: received_def)
    show ?thesis
      by (rule decodeTCP_named[OF r t])
        (use u assms(7-9) in \<open>simp_all add: is_line_end_def\<close>)
  qed
  then show ?thesis using b(1) by blast
qed

theorem TCP_message_roundtrip_witness:
  "\<exists>b. assembleProtocolTCP (\<lambda>_. True) (details ''Bob'' ''y'') (sample_msg cmd_MSG) bufferInit
      = Ok (True, (sample_msg cmd_MSG)\<lparr>pb_type := msg_byte msg_MSG\<rparr>, b, []) \<and>
    (\<forall>rx bs. map Some bs = contents b \<longrightarrow> received rx bs \<longrightarrow>
       (\<exists>pb'. disassebleProtocolTCP rx (sample_msg cmd_MSG) = Ok pb' \<and> pb_type pb' = msg_byte msg_MSG \<and>
          block_of (msg_msg_displayname pb') (bytes_of ''Bob'') \<and>
          block_of (msg_msg_MsgContents pb') (bytes_of ''hi'')))"
  by (rule TCP_message_roundtrip[where c = cmd_MSG])
    (simp_all add: example_simps sample_msg_def no_block_def,
     simp_all add: bytes_of_def is_blank_def is_line_end_def)

end
