(* ===== verification/Chat_Input.thy ===== *)
theory Chat_Input
  imports Chat_Protocol_Decoding
begin

text \<open>
  What \<open>controlWord\<close> and \<open>userInputToCmds\<close> make of a line the user typed.
\<close>

section \<open>Control of words\<close>

lemma read_from_ok:
  "points_to p bs \<Longrightarrow> i + n \<le> length bs \<Longrightarrow> read_from p i n = Ok (take n (drop i bs))"
proof (induction n arbitrary: i)
  case 0
  then show ?case by simp
next
  case (Suc n)
  then have "drop i bs = bs ! i # drop (Suc i) bs" by (simp add: Cons_nth_drop_Suc)
  then show ?case
    using Suc by (simp add: points_to_read)
qed

lemma bad_from_ok:
  assumes "points_to p bs" "i + n \<le> length bs"
  shows "\<exists>r. bad_from ty p i n = Ok r \<and> (r = None \<longleftrightarrow> (\<forall>x \<in> set (take n (drop i bs)). allowed ty x))"
  using assms(2)
proof (induction n arbitrary: i)
  case 0
  then show ?case by simp
next
  case (Suc n)
  then have "drop i bs = bs ! i # drop (Suc i) bs" by (simp add: Cons_nth_drop_Suc)
  then show ?case
    using Suc.prems Suc.IH[of "Suc i"] assms(1) by (auto simp: points_to_read)
qed

text \<open>A word is valid when it is not empty, not too long and made of allowed characters.\<close>

definition valid_word :: "word_type \<Rightarrow> nat \<Rightarrow> byte list \<Rightarrow> bool" where
  "valid_word ty maxLen bs \<longleftrightarrow> bs \<noteq> [] \<and> length bs \<le> maxLen \<and> (\<forall>x \<in> set bs. allowed ty x)"

lemma controlWord_value:
  assumes "block_of blk bs"
  shows "\<exists>text. controlWord blk maxLen ty = Ok (valid_word ty maxLen bs, text) \<and>
    (valid_word ty maxLen bs \<longrightarrow> text = [])"
proof -
  have p: "points_to (bb_start blk) bs" "bb_len blk = length bs"
    using assms by (simp_all add: block_of_def)
  obtain r where r: "bad_from ty (bb_start blk) 0 (length bs) = Ok r"
    "r = None \<longleftrightarrow> (\<forall>x \<in> set bs. allowed ty x)"
    using bad_from_ok[OF p(1), of 0 "length bs" ty] by auto
  have "read_from (bb_start blk) 0 (length bs) = Ok bs"
    using read_from_ok[OF p(1), of 0 "length bs"] by simp
  then show ?thesis
    using r p(2) by (cases r) (auto simp: controlWord_def valid_word_def)
qed

lemma controlWord_valid:
  "block_of blk bs \<Longrightarrow> valid_word ty maxLen bs \<Longrightarrow> controlWord blk maxLen ty = Ok (True, [])"
  using controlWord_value[of blk bs maxLen ty] by auto

lemma valid_word_not_blank:
  assumes "valid_word ty k bs" "ty \<noteq> ToW_MessageContent" "x \<in> set bs"
  shows "\<not> is_blank x"
proof
  assume "is_blank x"
  then have "\<not> allowed ty x"
    using assms(2) by (cases ty) (auto simp: is_blank_def allowedCharsInCredentials_def allowedCharsInName_def)
  then show False using assms(1,3) by (simp add: valid_word_def)
qed

lemma valid_word_not_line_end:
  "valid_word ty k bs \<Longrightarrow> x \<in> set bs \<Longrightarrow> \<not> is_line_end x"
  by (cases ty) (auto simp: valid_word_def is_line_end_def allowedCharsInCredentials_def
      allowedCharsInName_def allowedCharsInMessage_def)

section \<open>The line in the buffer\<close>

text \<open>The input buffer after a line was read: the line, its terminator, and its length.\<close>

definition input_line :: "Buffer \<Rightarrow> byte list \<Rightarrow> bool" where
  "input_line buffer line \<longleftrightarrow> points_to (buf_ptr buffer) (line @ [0]) \<and> used buffer = length line"

text \<open>The blocks after the command word was found.\<close>

definition cmd_blocks :: "Buffer \<Rightarrow> nat \<Rightarrow> ProtocolBlocks \<Rightarrow> ProtocolBlocks" where
  "cmd_blocks buffer n pb =
     pb\<lparr>zeroth := \<lparr>bb_start = buf_ptr buffer, bb_len = n\<rparr>, first := no_block, second := no_block,
        third := no_block, pb_type := cmd_byte cmd_NONE\<rparr>"

text \<open>The word the line starts with.\<close>

lemma command_word:
  assumes "points_to p (w @ c # rest)" "\<forall>x \<in> set w. \<not> is_blank x" "is_blank c" "length w \<le> n"
  shows "findBlankCharInString p n = Ok (int (length w))" "size_of_long (int (length w)) = length w"
proof -
  show "findBlankCharInString p n = Ok (int (length w))"
    unfolding findBlankCharInString_def using assms by (intro scan_split) auto
  show "size_of_long (int (length w)) = length w"
    using points_to_length[OF assms(1)] by (intro size_of_long_nat) simp
qed

text \<open>Comparing the command word with a command: they agree, or they differ at some position.\<close>

lemma is_command:
  assumes "points_to p (bytes_of s @ rest)" "length s < 2 ^ 64 - 1"
  shows "strncmp p (literal s) (length s) = Ok 0"
  using assms by (rule strncmp_word)

lemma not_command:
  assumes "points_to p (w @ rest)" "k < length w" "k \<le> length s" "length s < 2 ^ 64 - 1"
    and "take k w = take k (bytes_of s @ [0])" "0 \<notin> set (take k w)" "w ! k \<noteq> (bytes_of s @ [0]) ! k"
  shows "\<exists>r. strncmp p (literal s) (length w) = Ok r \<and> r \<noteq> 0"
proof -
  have s: "points_to (literal s) (bytes_of s @ [0])" using assms(4) by (rule points_to_literal)
  have eq: "take k (w @ rest) = take k w" "(w @ rest) ! k = w ! k"
    using assms(2) by (simp_all add: nth_append)
  obtain r where "strncmp p (literal s) (length w) = Ok r" "r \<noteq> 0"
    by (rule strncmp_differ[OF assms(1) s, of k "length w"]) (use eq assms(2,3,5-7) in auto)
  then show ?thesis by blast
qed


section \<open>Commands\<close>

text \<open>One word of the line, as \<open>getWord\<close> finds it behind the previous one.\<close>

definition blanks :: "byte list \<Rightarrow> bool" where
  "blanks bs \<longleftrightarrow> bs \<noteq> [] \<and> (\<forall>x \<in> set bs. x = 32 \<or> x = 9)"

lemma next_word:
  assumes "points_to p (xs @ w @ c # ys)" "blanks xs" "w \<noteq> []" "\<forall>x \<in> set w. \<not> is_blank x"
    and "is_blank c" "length xs + length w \<le> n" "n < 2 ^ 64"
  shows "\<exists>blk. getWord no_block p n = Ok (True, blk) \<and> block_of blk w \<and>
    points_to (BBLOCK_END blk) (c # ys) \<and> bb_len blk = length w"
proof -
  have len: "length xs < n" "length w \<le> n"
    using assms(3,6) by (cases w; simp)+
  have "getWord no_block p n = Ok (True, \<lparr>bb_start = ptr_add p (length xs), bb_len = length w\<rparr>)"
    by (rule getWord_ok[OF assms(1) _ assms(3,4,5) len assms(7)])
      (use assms(2) in \<open>auto simp: blanks_def no_block_def\<close>)
  moreover have q: "points_to (ptr_add p (length xs)) (w @ c # ys)"
    using assms(1) by (rule points_to_add)
  ultimately show ?thesis
    using block_of_prefix[OF q] points_to_add[OF q] by (simp add: BBLOCK_END_def)
qed

lemma valid_nonempty: "valid_word ty k bs \<Longrightarrow> bs \<noteq> []"
  by (simp add: valid_word_def)

lemma blanks_Cons: "blanks bs \<Longrightarrow> \<exists>c cs. bs = c # cs \<and> is_blank c"
  by (cases bs) (auto simp: blanks_def is_blank_def)

lemma parse_auth_ok:
  assumes "points_to (BBLOCK_END cmd) (b1 @ u @ b2 @ s @ b3 @ d @ [0])"
    and "used buffer = bb_len cmd + length (b1 @ u @ b2 @ s @ b3 @ d)" "used buffer < 2 ^ 64"
    and "blanks b1" "blanks b2" "blanks b3"
    and "valid_word ToW_Username 20 u" "valid_word ToW_Secret 128 s" "valid_word ToW_DisplayName 20 d"
  shows "\<exists>pb'. parse_auth buffer cmd pb flags = Ok (True, pb', msg_flag_AUTH, []) \<and>
    pb_type pb' = cmd_byte cmd_AUTH \<and> zeroth pb' = zeroth pb \<and> block_of (cmd_auth_username pb') u \<and>
    block_of (cmd_auth_secret pb') s \<and> block_of (cmd_auth_displayname pb') d"
proof -
  note nb = valid_word_not_blank
  obtain c2 cs2 c3 cs3 where b: "b2 = c2 # cs2" "is_blank c2" "b3 = c3 # cs3" "is_blank c3"
    using blanks_Cons[OF assms(5)] blanks_Cons[OF assms(6)] by blast
  have z: "is_blank 0" by (simp add: is_blank_def)
  have p1: "points_to (BBLOCK_END cmd) (b1 @ u @ c2 # (cs2 @ s @ b3 @ d @ [0]))"
    using assms(1) b by simp
  let ?n1 = "size_sub (used buffer) (bb_len cmd)"
  have n1: "?n1 = length (b1 @ u @ b2 @ s @ b3 @ d)" "?n1 < 2 ^ 64"
    using assms(2,3) by (simp_all add: size_sub_le)
  have l1: "length b1 + length u \<le> ?n1" unfolding n1(1) by simp
  obtain f where f: "getWord no_block (BBLOCK_END cmd) ?n1 = Ok (True, f)" "block_of f u"
    "points_to (BBLOCK_END f) (c2 # (cs2 @ s @ b3 @ d @ [0]))" "bb_len f = length u"
    using next_word[OF p1 assms(4) valid_nonempty[OF assms(7)] ballI[OF nb[OF assms(7)]] b(2) l1 n1(2)]
    by auto
  have p2: "points_to (BBLOCK_END f) (b2 @ s @ c3 # (cs3 @ d @ [0]))"
    using f(3) b by simp
  let ?n2 = "size_sub (used buffer) (size_add (bb_len cmd) (bb_len f))"
  have n2: "?n2 = length (b1 @ b2 @ s @ b3 @ d)" "?n2 < 2 ^ 64"
    using assms(2,3) f(4) by (simp_all add: size_sub_le size_add_def)
  have l2: "length b2 + length s \<le> ?n2" unfolding n2(1) by simp
  obtain g where g: "getWord no_block (BBLOCK_END f) ?n2 = Ok (True, g)" "block_of g s"
    "points_to (BBLOCK_END g) (c3 # (cs3 @ d @ [0]))" "bb_len g = length s"
    using next_word[OF p2 assms(5) valid_nonempty[OF assms(8)] ballI[OF nb[OF assms(8)]] b(4) l2 n2(2)]
    by auto
  have p3: "points_to (BBLOCK_END g) (b3 @ d @ 0 # [])"
    using g(3) b by simp
  let ?n3 = "size_sub (used buffer) (size_add (size_add (bb_len cmd) (bb_len f)) (bb_len g))"
  have n3: "?n3 = length (b1 @ b2 @ b3 @ d)" "?n3 < 2 ^ 64"
    using assms(2,3) f(4) g(4) by (simp_all add: size_sub_le size_add_def)
  have l3: "length b3 + length d \<le> ?n3" unfolding n3(1) by simp
  obtain h where h: "getWord no_block (BBLOCK_END g) ?n3 = Ok (True, h)" "block_of h d"
    using next_word[OF p3 assms(6) valid_nonempty[OF assms(9)] ballI[OF nb[OF assms(9)]] z l3 n3(2)]
    by auto
  have "parse_auth buffer cmd pb flags
      = Ok (True, pb\<lparr>pb_type := cmd_byte cmd_AUTH, first := f, second := g, third := h\<rparr>, msg_flag_AUTH, [])"
    using f(1) g(1) h(1) controlWord_valid[OF f(2) assms(7)] controlWord_valid[OF g(2) assms(8)]
      controlWord_valid[OF h(2) assms(9)]
    by (simp add: parse_auth_def TRY_GET_WORD_def CONTROL_WORD_def)
  then show ?thesis using f(2) g(2) h(2) by simp
qed


lemma parse_name_ok:
  assumes "points_to (BBLOCK_END cmd) (b @ w @ [0])" "used buffer = bb_len cmd + length (b @ w)"
    and "used buffer < 2 ^ 64" "blanks b"
    and "valid_word (if join then ToW_ChannelID else ToW_DisplayName) 20 w"
  shows "\<exists>pb'. parse_name buffer cmd join pb flags = Ok (True, pb', flags, []) \<and>
    pb_type pb' = cmd_byte (if join then cmd_JOIN else cmd_RENAME) \<and> zeroth pb' = zeroth pb \<and>
    second pb' = second pb \<and> third pb' = third pb \<and> block_of (first pb') w"
proof -
  let ?n = "size_sub (used buffer) (bb_len cmd)"
  have n: "?n = length b + length w" using assms(2,3) by (simp add: size_sub_le)
  obtain x xs where w: "w = x # xs" using valid_nonempty[OF assms(5)] by (cases w) auto
  have nb: "\<not> is_blank y" if "y \<in> set w" for y
    using valid_word_not_blank[OF assms(5) _ that] by simp
  have "points_to (BBLOCK_END cmd) (b @ x # (xs @ [0]))" using assms(1) w by simp
  moreover have "x \<noteq> 32" "x \<noteq> 9" using nb[of x] w by (auto simp: is_blank_def)
  moreover have "\<forall>y \<in> set b. y = 32 \<or> y = 9" using assms(4) by (simp add: blanks_def)
  moreover have "length b < ?n" using n w by simp
  ultimately have skip: "skipBlankCharsInString (BBLOCK_END cmd) ?n = Ok (int (length b))"
    by (rule skip_split)
  let ?p = "ptr_add (BBLOCK_END cmd) (length b)"
  have p: "points_to ?p (w @ 0 # [])" using points_to_add[OF assms(1)] by simp
  have "findNewLineInString ?p ?n = Ok (int (length w))"
    unfolding findNewLineInString_def
    by (rule scan_split[OF p]) (use n valid_word_not_line_end[OF assms(5)] in \<open>auto simp: is_line_end_def\<close>)
  moreover have "size_of_long (int (length b)) = length b" "size_of_long (int (length w)) = length w"
    using assms(2,3) by (simp_all add: size_of_long_nat)
  moreover have blk: "block_of \<lparr>bb_start = ?p, bb_len = length w\<rparr> w" using block_of_prefix[OF p] .
  ultimately show ?thesis
    using skip controlWord_valid[OF blk assms(5)]
    by (cases join) (simp_all add: parse_name_def Let_def CONTROL_WORD_def)
qed

text \<open>The dispatch on the command word.\<close>

lemma dispatch_auth:
  assumes "input_line buffer (bytes_of ''/auth'' @ c # rest)" "is_blank c"
  shows "userInputToCmds buffer pb flags
    = parse_auth buffer \<lparr>bb_start = buf_ptr buffer, bb_len = 5\<rparr> (cmd_blocks buffer 5 pb) flags"
proof -
  have five: "length ''/auth'' = 5" by simp
  have p: "points_to (buf_ptr buffer) (bytes_of ''/auth'' @ c # (rest @ [0]))"
    and u: "used buffer = 6 + length rest"
    using assms(1) by (simp_all add: input_line_def)
  have nb: "\<forall>x \<in> set (bytes_of ''/auth''). \<not> is_blank x" by (simp add: bytes_of_def is_blank_def)
  have le: "length (bytes_of ''/auth'') \<le> used buffer" using u by simp
  note find = command_word[OF p nb assms(2) le, unfolded length_bytes_of five]
  have "strncmp (buf_ptr buffer) (literal ''/auth'') 5 = Ok 0"
    using is_command[OF p, unfolded five] by simp
  then show ?thesis
    using find u by (simp add: userInputToCmds_def cmd_blocks_def Let_def)
qed

lemma dispatch_name:
  assumes "input_line buffer (bytes_of s @ c # rest)" "is_blank c"
    and "join \<and> s = ''/join'' \<or> \<not> join \<and> s = ''/rename''"
  shows "userInputToCmds buffer pb flags
    = parse_name buffer \<lparr>bb_start = buf_ptr buffer, bb_len = length s\<rparr> join
        (cmd_blocks buffer (length s) pb) flags"
proof -
  have p: "points_to (buf_ptr buffer) (bytes_of s @ c # (rest @ [0]))"
    and u: "used buffer = Suc (length s) + length rest"
    using assms(1) by (simp_all add: input_line_def)
  have nb: "\<forall>x \<in> set (bytes_of s). \<not> is_blank x"
    using assms(3) by (auto simp: bytes_of_def is_blank_def)
  have le: "length (bytes_of s) \<le> used buffer" using u by simp
  note find = command_word[OF p nb assms(2) le, unfolded length_bytes_of]
  have eq: "strncmp (buf_ptr buffer) (literal s) (length s) = Ok 0"
    using assms(3) by (intro is_command[OF p]) auto
  obtain r where r: "strncmp (buf_ptr buffer) (literal ''/auth'') (length s) = Ok r" "r \<noteq> 0"
    using not_command[OF p, of 1 "''/auth''"] assms(3) by (auto simp: bytes_of_def)
  have r2: "\<exists>r. strncmp (buf_ptr buffer) (literal ''/join'') (length s) = Ok r \<and> r \<noteq> 0" if "\<not> join"
    using not_command[OF p, of 1 "''/join''"] assms(3) that by (auto simp: bytes_of_def)
  show ?thesis
  proof (cases join)
    case True
    then show ?thesis
      using eq r find u assms(3) by (auto simp: userInputToCmds_def cmd_blocks_def Let_def)
  next
    case False
    then show ?thesis
      using eq r r2 find u assms(3) by (auto simp: userInputToCmds_def cmd_blocks_def Let_def)
  qed
qed


lemma not_slash:
  assumes "points_to p (w @ rest)" "w \<noteq> []" "hd w \<noteq> 47" "length s < 2 ^ 64 - 2"
  shows "\<exists>r. strncmp p (literal (CHR ''/'' # s)) (length w) = Ok r \<and> r \<noteq> 0"
proof -
  obtain x xs where w: "w = x # xs" using assms(2) by (cases w) auto
  have "points_to p (x # (xs @ rest))" "x \<noteq> of_char CHR ''/''" using assms(1,3) w by simp_all
  then show ?thesis
    using strncmp_other[of p x "xs @ rest" s "CHR ''/''" "length xs"] assms(4) w by simp
qed

lemma dispatch_message:
  assumes "input_line buffer line" "line \<noteq> []" "hd line \<noteq> 47" "\<not> is_blank (hd line)"
    and "valid_word ToW_MessageContent 14000 line"
  shows "\<exists>pb'. userInputToCmds buffer pb flags = Ok (True, pb', flags, []) \<and>
    pb_type pb' = cmd_byte cmd_MSG \<and> block_of (cmd_msg_MsgContents pb') line \<and>
    first pb' = no_block \<and> second pb' = no_block \<and> third pb' = no_block"
proof -
  have p: "points_to (buf_ptr buffer) (line @ [0])" and u: "used buffer = length line"
    using assms(1) by (simp_all add: input_line_def)
  define w where "w = takeWhile (\<lambda>x. \<not> is_blank x) (line @ [0])"
  define rest where "rest = dropWhile (\<lambda>x. \<not> is_blank x) (line @ [0])"
  have split: "line @ [0] = w @ rest" by (simp add: w_def rest_def)
  have nb: "\<forall>x \<in> set w. \<not> is_blank x" by (auto simp: w_def dest: set_takeWhileD)
  have "is_blank 0" by (simp add: is_blank_def)
  then have "rest \<noteq> []" unfolding rest_def dropWhile_eq_Nil_conv by auto
  then obtain c ys where c: "rest = c # ys" "is_blank c"
    unfolding rest_def using hd_dropWhile[of "\<lambda>x. \<not> is_blank x" "line @ [0]"]
    by (metis list.exhaust_sel)
  have w: "w \<noteq> []" "hd w = hd line"
    using assms(2,4) by (cases line; simp add: w_def)+
  have len: "length w \<le> used buffer"
    using arg_cong[OF split, of length] c u by simp
  have q: "points_to (buf_ptr buffer) (w @ c # ys)" using p split c by simp
  note find = command_word[OF q nb c(2) len]
  have no: "\<exists>r. strncmp (buf_ptr buffer) (literal s) (length w) = Ok r \<and> r \<noteq> 0"
    if "s \<in> {''/auth'', ''/join'', ''/rename'', ''/help'', ''/exit''}" for s
    using that not_slash[OF q w(1), of "tl s"] w(2) assms(3) by auto
  obtain r1 r2 r3 r4 r5 where r:
    "strncmp (buf_ptr buffer) (literal ''/auth'') (length w) = Ok r1" "r1 \<noteq> 0"
    "strncmp (buf_ptr buffer) (literal ''/join'') (length w) = Ok r2" "r2 \<noteq> 0"
    "strncmp (buf_ptr buffer) (literal ''/rename'') (length w) = Ok r3" "r3 \<noteq> 0"
    "strncmp (buf_ptr buffer) (literal ''/help'') (length w) = Ok r4" "r4 \<noteq> 0"
    "strncmp (buf_ptr buffer) (literal ''/exit'') (length w) = Ok r5" "r5 \<noteq> 0"
    using no[of "''/auth''"] no[of "''/join''"] no[of "''/rename''"] no[of "''/help''"]
      no[of "''/exit''"] by auto
  have blk: "block_of \<lparr>bb_start = buf_ptr buffer, bb_len = length line\<rparr> line"
    using p by (rule block_of_prefix)
  have "used buffer \<noteq> 0" using u assms(2) by simp
  then show ?thesis
    using find r u blk controlWord_valid[OF blk assms(5)]
    by (simp add: userInputToCmds_def Let_def CONTROL_WORD_def)
qed

section \<open>Properties\<close>

text \<open>C38: \<open>controlWord\<close> accepts a word exactly when it is not empty, not longer than the maximum and
  made of characters allowed for its kind; an accepted word prints nothing.\<close>

theorem controlWord_spec:
  assumes "block_of blk bs"
  shows "\<exists>text. controlWord blk maxLen ty = Ok (valid_word ty maxLen bs, text) \<and>
    (valid_word ty maxLen bs \<longrightarrow> text = [])"
  using assms by (rule controlWord_value)

theorem controlWord_spec_witness:
  "\<exists>text. controlWord (text_block ''a.b'') 20 ToW_ChannelID
      = Ok (valid_word ToW_ChannelID 20 (bytes_of ''a.b''), text) \<and>
    (valid_word ToW_ChannelID 20 (bytes_of ''a.b'') \<longrightarrow> text = [])"
  by (rule controlWord_spec) (simp add: text_block_of)

text \<open>An \<open>/auth\<close> line. The command followed by three valid words, separated by blanks, is
  recognised as an authentication with exactly these words as user name, secret and display name.\<close>

lemma auth_words:
  assumes "input_line buffer (bytes_of ''/auth'' @ b1 @ u @ b2 @ s @ b3 @ d)"
    and "blanks b1" "blanks b2" "blanks b3"
    and "valid_word ToW_Username 20 u" "valid_word ToW_Secret 128 s" "valid_word ToW_DisplayName 20 d"
  shows "\<exists>pb'. userInputToCmds buffer pb flags = Ok (True, pb', msg_flag_AUTH, []) \<and>
    pb_type pb' = cmd_byte cmd_AUTH \<and> block_of (cmd_auth_username pb') u \<and>
    block_of (cmd_auth_secret pb') s \<and> block_of (cmd_auth_displayname pb') d \<and> bb_len (zeroth pb') = 5"
proof -
  obtain c cs where b1: "b1 = c # cs" "is_blank c" using blanks_Cons[OF assms(2)] by blast
  let ?cmd = "\<lparr>bb_start = buf_ptr buffer, bb_len = 5\<rparr>"
  let ?tail = "b1 @ u @ b2 @ s @ b3 @ d"
  have p: "points_to (buf_ptr buffer) (bytes_of ''/auth'' @ ?tail @ [0])"
    and len: "used buffer = bb_len ?cmd + length ?tail"
    using assms(1) by (simp_all add: input_line_def)
  have five: "length ''/auth'' = 5" by simp
  have "points_to (BBLOCK_END ?cmd) (?tail @ [0])"
    using points_to_word[OF p, unfolded five] by (simp add: BBLOCK_END_def)
  moreover have "used buffer < 2 ^ 64"
    using points_to_length[OF p] len by simp
  moreover have "userInputToCmds buffer pb flags = parse_auth buffer ?cmd (cmd_blocks buffer 5 pb) flags"
    using assms(1) b1 by (intro dispatch_auth[of _ c]) simp_all
  ultimately show ?thesis
    using parse_auth_ok[of ?cmd b1 u b2 s b3 d buffer "cmd_blocks buffer 5 pb" flags] len assms(2-7)
    by (auto simp: cmd_blocks_def)
qed

text \<open>A buffer with a typed line.\<close>

definition typed :: "string \<Rightarrow> Buffer" where
  "typed s = \<lparr>data = Some (map Some (bytes_of s @ [0])), allocated = length s + 1, used = length s\<rparr>"

lemma typed_line: "length s < 2 ^ 64 - 1 \<Longrightarrow> bs = bytes_of s \<Longrightarrow> input_line (typed s) bs"
  by (simp add: input_line_def typed_def points_to_def buf_ptr_def)

lemmas word_simps = valid_word_def allowedCharsInCredentials_def allowedCharsInName_def
  allowedCharsInMessage_def blanks_def bytes_of_def

text \<open>A \<open>/join\<close> or \<open>/rename\<close> line with one valid name is recognised as such, with exactly this
  name.\<close>

theorem user_name_line:
  assumes "input_line buffer (bytes_of s @ b @ w)" "blanks b"
    and "join \<and> s = ''/join'' \<or> \<not> join \<and> s = ''/rename''"
    and "valid_word (if join then ToW_ChannelID else ToW_DisplayName) 20 w"
  shows "\<exists>pb'. userInputToCmds buffer pb flags = Ok (True, pb', flags, []) \<and>
    pb_type pb' = cmd_byte (if join then cmd_JOIN else cmd_RENAME) \<and> block_of (first pb') w"
proof -
  obtain c cs where b: "b = c # cs" "is_blank c" using blanks_Cons[OF assms(2)] by blast
  let ?cmd = "\<lparr>bb_start = buf_ptr buffer, bb_len = length s\<rparr>"
  have p: "points_to (buf_ptr buffer) (bytes_of s @ b @ w @ [0])"
    and len: "used buffer = bb_len ?cmd + length (b @ w)"
    using assms(1) by (simp_all add: input_line_def)
  have "points_to (BBLOCK_END ?cmd) (b @ w @ [0])"
    using points_to_word[OF p] by (simp add: BBLOCK_END_def)
  moreover have "used buffer < 2 ^ 64"
    using points_to_length[OF p] len by simp
  moreover have "userInputToCmds buffer pb flags
      = parse_name buffer ?cmd join (cmd_blocks buffer (length s) pb) flags"
    using assms(1,3) b by (intro dispatch_name[of _ _ c]) simp_all
  ultimately show ?thesis
    using parse_name_ok[of ?cmd b w buffer join "cmd_blocks buffer (length s) pb" flags] len assms(2,4)
    by auto
qed

theorem user_name_line_witness:
  "\<exists>pb'. userInputToCmds (typed ''/join chan-1'') (sample_msg cmd_NONE) msg_flag_NONE
      = Ok (True, pb', msg_flag_NONE, []) \<and>
    pb_type pb' = cmd_byte (if True then cmd_JOIN else cmd_RENAME) \<and>
    block_of (first pb') (bytes_of ''chan-1'')"
  by (rule user_name_line[where b = "[32]" and s = "''/join''"])
    (rule typed_line, simp_all add: word_simps)

text \<open>A line that starts neither with a blank nor with a slash, has at most 14000 characters and only
  printable ones, is a message with the whole line as contents.\<close>

theorem user_message_line:
  assumes "input_line buffer line" "line \<noteq> []" "hd line \<noteq> 47" "\<not> is_blank (hd line)"
    and "valid_word ToW_MessageContent 14000 line"
  shows "\<exists>pb'. userInputToCmds buffer pb flags = Ok (True, pb', flags, []) \<and>
    pb_type pb' = cmd_byte cmd_MSG \<and> block_of (cmd_msg_MsgContents pb') line"
  using dispatch_message[OF assms] by blast

theorem user_message_line_witness:
  "\<exists>pb'. userInputToCmds (typed ''hi all'') (sample_msg cmd_NONE) msg_flag_NONE
      = Ok (True, pb', msg_flag_NONE, []) \<and>
    pb_type pb' = cmd_byte cmd_MSG \<and> block_of (cmd_msg_MsgContents pb') (bytes_of ''hi all'')"
  by (rule user_message_line) (rule typed_line, simp_all add: word_simps is_blank_def)


text \<open>C39: commands are matched by prefix. The comparison is over the length of the typed word, so
  \<open>/e\<close>, \<open>/ex\<close> and \<open>/exi\<close> are the command \<open>/exit\<close>.\<close>

theorem exit_abbreviated:
  assumes "input_line buffer (take k (bytes_of ''/exit''))" "2 \<le> k" "k \<le> 5"
  shows "\<exists>pb'. userInputToCmds buffer pb flags = Ok (True, pb', flags, []) \<and>
    pb_type pb' = cmd_byte cmd_EXIT"
proof -
  let ?w = "take k (bytes_of ''/exit'')"
  have p: "points_to (buf_ptr buffer) (?w @ 0 # [])" and u: "used buffer = k"
    using assms(1,3) by (simp_all add: input_line_def)
  have len: "length ?w = k" using assms(3) by simp
  have nb: "\<forall>x \<in> set ?w. \<not> is_blank x"
    by (auto simp: bytes_of_def is_blank_def dest!: in_set_takeD)
  have z: "is_blank 0" by (simp add: is_blank_def)
  have le: "length ?w \<le> used buffer" using len u by simp
  note find = command_word[OF p nb z le, unfolded len]
  have hd: "take 1 ?w = [47]" "?w ! 1 = 101" using assms(2) by (simp_all add: bytes_of_def take_Cons')
  have no: "\<exists>r. strncmp (buf_ptr buffer) (literal (CHR ''/'' # s)) k = Ok r \<and> r \<noteq> 0"
    if "s \<in> {''auth'', ''join'', ''rename'', ''help''}" for s
    using not_command[OF p, of 1 "CHR ''/'' # s", unfolded len] hd assms(2) that
    by (auto simp: bytes_of_def)
  have ex: "strncmp (buf_ptr buffer) (literal ''/exit'') k = Ok 0"
  proof (rule strncmp_eq[OF p])
    show "points_to (literal ''/exit'') (bytes_of ''/exit'' @ [0])" by (rule points_to_literal) simp
  qed (use assms(3) len in simp_all)
  obtain r1 r2 r3 r4 where "strncmp (buf_ptr buffer) (literal ''/auth'') k = Ok r1" "r1 \<noteq> 0"
    "strncmp (buf_ptr buffer) (literal ''/join'') k = Ok r2" "r2 \<noteq> 0"
    "strncmp (buf_ptr buffer) (literal ''/rename'') k = Ok r3" "r3 \<noteq> 0"
    "strncmp (buf_ptr buffer) (literal ''/help'') k = Ok r4" "r4 \<noteq> 0"
    using no[of "''auth''"] no[of "''join''"] no[of "''rename''"] no[of "''help''"] by auto
  then show ?thesis
    using find u assms(2) ex by (simp add: userInputToCmds_def Let_def)
qed

theorem exit_abbreviated_witness:
  "\<exists>pb'. userInputToCmds (typed ''/e'') (sample_msg cmd_NONE) msg_flag_NONE
      = Ok (True, pb', msg_flag_NONE, []) \<and> pb_type pb' = cmd_byte cmd_EXIT"
  by (rule exit_abbreviated[where k = 2]) (rule typed_line, simp_all add: bytes_of_def)

text \<open>A scan over blanks only, and the word \<open>getWord\<close> finds then: the last character before them.\<close>

lemma skip_only_blanks:
  assumes "points_to string bs" "len \<le> length bs" "\<And>j. j < len \<Longrightarrow> bs ! j = 32 \<or> bs ! j = 9"
  shows "skipBlankCharsInString string len = Ok (- 1)"
proof -
  have "skip_from string len index = Ok (- 1)" for index
  proof (induction "len - index" arbitrary: index)
    case 0
    then show ?case by (simp add: skip_from.simps[of _ _ index])
  next
    case (Suc d)
    then have lt: "index < len" by simp
    have "skip_from string len (Suc index) = Ok (- 1)" using Suc by (intro Suc.hyps) simp
    then show ?case
      using lt assms(3)[OF lt] assms(1,2) by (auto simp: skip_from.simps[of _ _ index] points_to_read)
  qed
  then show ?thesis by (simp add: skipBlankCharsInString_def)
qed

lemma getWord_only_blanks:
  assumes "points_to q (h # bl @ rest)" "\<not> is_blank h" "blanks bl" "1 \<le> n" "n \<le> length bl"
  shows "getWord no_block (ptr_add q 1) n = Ok (True, \<lparr>bb_start = q, bb_len = 1\<rparr>)"
proof -
  obtain m off where q: "q = Some (m, off)" using assms(1) by (auto simp: points_to_def split: option.splits)
  have m: "length m < 2 ^ 64" "off + Suc (length bl + length rest) \<le> length m" using assms(1) q by (simp_all add: points_to_def)
  obtain x xs where bl: "bl = x # xs" "is_blank x" using assms(3) by (cases bl) (auto simp: blanks_def is_blank_def)
  have p: "points_to (ptr_add q 1) (bl @ rest)" using points_to_add[of q "[h]" "bl @ rest"] assms(1) by simp
  have "(bl @ rest) ! j = 32 \<or> (bl @ rest) ! j = 9" if "j < n" for j
    using that assms(3,5) by (simp add: blanks_def nth_append)
  then have skip: "skipBlankCharsInString (ptr_add q 1) n = Ok (- 1)"
    using assms(5) by (intro skip_only_blanks[OF p]) auto
  have before: "ptr_add (ptr_add q 1) (size_of_long (- 1)) = q"
    using m q by (simp add: ptr_add_def size_of_long_def)
  have n: "size_sub n 0 = n" using m assms(5) by (simp add: size_sub_def)
  have find: "findBlankCharInString q n = Ok 1"
    using scan_split[of q "[h]" x "xs @ rest" is_blank n] assms(1,2,4) bl by (simp add: findBlankCharInString_def)
  show ?thesis
    using skip before find n q assms(4) by (simp add: getWord_def no_block_def ptr_add_def Let_def size_of_long_def)
qed

text \<open>C40: \<open>/auth\<close> followed by blanks and nothing else. With three blanks or more it is accepted as an authentication: the
  search for a first non-blank character fails, its result \<open>-1\<close> makes the word start one byte \<^emph>\<open>before\<close>
  the blanks, and user name, secret and display name all are the last letter of the command. With one or
  two blanks the room that is left for the third word is used up, and an argument is missing.\<close>

theorem auth_without_words:
  assumes "input_line buffer (bytes_of ''/auth'' @ bl)" "blanks bl"
  shows "\<exists>pb'. if 3 \<le> length bl
    then userInputToCmds buffer pb flags = Ok (True, pb', msg_flag_AUTH, []) \<and> pb_type pb' = cmd_byte cmd_AUTH \<and>
      block_of (cmd_auth_username pb') (bytes_of ''h'') \<and> block_of (cmd_auth_secret pb') (bytes_of ''h'') \<and>
      block_of (cmd_auth_displayname pb') (bytes_of ''h'')
    else userInputToCmds buffer pb flags = Ok (False, pb', flags, []) \<and> pb_type pb' = cmd_byte cmd_MISSING"
proof -
  let ?cmd = "\<lparr>bb_start = buf_ptr buffer, bb_len = 5\<rparr>"
  let ?q = "ptr_add (buf_ptr buffer) 4"
  let ?blk = "\<lparr>bb_start = ?q, bb_len = 1\<rparr>"
  obtain c cs where bl: "bl = c # cs" "is_blank c" using blanks_Cons[OF assms(2)] by blast
  have p: "points_to (buf_ptr buffer) (bytes_of ''/aut'' @ 104 # bl @ [0])" and len: "used buffer = 5 + length bl"
    using assms(1) by (simp_all add: input_line_def bytes_of_def)
  have four: "length ''/aut'' = 4" by simp
  have q: "points_to ?q (104 # bl @ [0])" using points_to_word[OF p, unfolded four] .
  have small: "used buffer < 2 ^ 64" using points_to_length[OF p] len by simp
  have "\<not> is_blank 104" by (simp add: is_blank_def)
  note word = getWord_only_blanks[OF q this assms(2)]
  obtain m off where "buf_ptr buffer = Some (m, off)" "off + 5 < 2 ^ 64"
    using p by (auto simp: points_to_def bytes_of_def split: option.splits)
  then have ends: "BBLOCK_END ?cmd = ptr_add ?q 1" "BBLOCK_END ?blk = ptr_add ?q 1"
    by (simp_all add: BBLOCK_END_def ptr_add_def)
  have room: "size_sub (used buffer) 5 = length bl" "size_sub (used buffer) (size_add 5 1) = length bl - 1"
    "2 \<le> length bl \<Longrightarrow> size_sub (used buffer) (size_add (size_add 5 1) 1) = length bl - 2"
    using small len bl(1) by (auto simp: size_add_def size_sub_le)
  have blk: "block_of ?blk (bytes_of ''h'')"
    using block_of_prefix[of ?q "[104]" "bl @ [0]"] q by (simp add: bytes_of_def)
  have valid: "controlWord ?blk 20 ToW_Username = Ok (True, [])" "controlWord ?blk 128 ToW_Secret = Ok (True, [])"
    "controlWord ?blk 20 ToW_DisplayName = Ok (True, [])"
    by (intro controlWord_valid[OF blk]; simp add: word_simps)+
  have "userInputToCmds buffer pb flags = parse_auth buffer ?cmd (cmd_blocks buffer 5 pb) flags"
    using assms(1) bl by (intro dispatch_auth[of _ c cs]) simp_all
  moreover have "length bl = 1 \<or> length bl = 2 \<or> 3 \<le> length bl" using arg_cong[OF bl(1), of length] unfolding list.size by linarith
  ultimately show ?thesis
    using word[of "length bl"] word[of "length bl - 1"] word[of "length bl - 2"] room ends valid blk bl(1)
    by (elim disjE) (auto simp: parse_auth_def TRY_GET_WORD_def CONTROL_WORD_def getWord_def[of _ _ 0])
qed

theorem auth_without_words_witness:
  "\<exists>pb'. userInputToCmds (typed ''/auth   '') (sample_msg cmd_NONE) msg_flag_NONE
      = Ok (True, pb', msg_flag_AUTH, []) \<and> pb_type pb' = cmd_byte cmd_AUTH \<and>
    block_of (cmd_auth_username pb') (bytes_of ''h'') \<and> block_of (cmd_auth_secret pb') (bytes_of ''h'') \<and>
    block_of (cmd_auth_displayname pb') (bytes_of ''h'')"
proof -
  have "input_line (typed ''/auth   '') (bytes_of ''/auth'' @ [32, 32, 32])"
    by (rule typed_line) (simp_all add: bytes_of_def)
  then show ?thesis
    using auth_without_words[of "typed ''/auth   ''" "[32, 32, 32]" "sample_msg cmd_NONE" msg_flag_NONE]
    by (simp add: blanks_def)
qed

end
