(* ===== verification/Chat_Receiver.thy ===== *)
theory Chat_Receiver
  imports Chat_Input
begin

text \<open>
  The receiving thread, \<open>protocolReceiver.c\<close>: what it does with each message of the server, and the
  three functions that put CONFIRM, BYE and ERR messages into the sending queue. The pointers
  the functions of the code are given (\<open>serverResponse\<close>, \<open>receiverSendMsgs\<close>, the queues) always are
  those of the program interface, so the model reads them there.
\<close>

section \<open>Sending control messages\<close>

text \<open>A \<open>ProtocolBlocks\<close> variable after \<open>resetProtocolBlocks\<close>.\<close>

definition fresh_blocks :: "cmd_t \<Rightarrow> ProtocolBlocks" where
  "fresh_blocks c = resetProtocolBlocks
     \<lparr>pb_type = cmd_byte c, pb_msgID = 0, zeroth = no_block, first = no_block, second = no_block,
      third = no_block, msg_reply_result_bool = False\<rparr>"

text \<open>The call of an assembling function: the buffer is updated and the text printed.\<close>

definition assemble ::
  "(CommunicationDetails \<Rightarrow> ProtocolBlocks \<Rightarrow> Buffer \<Rightarrow> assembled res) \<Rightarrow> out_buffer \<Rightarrow> ProtocolBlocks
     \<Rightarrow> (bool \<times> ProtocolBlocks) thread"
where
  "assemble f ob pb s =
     bind_prog (lift_res (f (comDetails s) pb (out_get ob s))) (\<lambda>(res, pb, b, text).
     bind_prog (modify (out_set ob b)) (\<lambda>_.
     bind_prog (if text = [] then ret () else safePrintStderr text) (\<lambda>_.
     ret (res, pb)))) s"

text \<open>The UDP or the TCP function, by the configured protocol; \<open>None\<close> with neither.\<close>

definition assemble_variant ::
  "allocator \<Rightarrow> out_buffer \<Rightarrow> ProtocolBlocks \<Rightarrow> (bool \<times> ProtocolBlocks) option thread"
where
  "assemble_variant alloc ob pb s =
     (if is_UDP s then bind_prog (assemble (assembleProtocolUDP alloc) ob pb) (\<lambda>r. ret (Some r)) s
      else if is_TCP s then bind_prog (assemble (assembleProtocolTCP alloc) ob pb) (\<lambda>r. ret (Some r)) s
      else Done None s)"

definition confirm_blocks :: "ProgramInterface \<Rightarrow> ProtocolBlocks" where
  "confirm_blocks s =
     (fresh_blocks cmd_CONF)
       \<lparr>zeroth := \<lparr>bb_start = ptr_add (buf_ptr (serverResponse (cleanUp s))) 1, bb_len = 1\<rparr>,
        first := \<lparr>bb_start = ptr_add (buf_ptr (serverResponse (cleanUp s))) 2, bb_len = 1\<rparr>\<rparr>"

definition sendConfirm :: "allocator \<Rightarrow> msg_flags \<Rightarrow> unit thread" where
  "sendConfirm alloc flags =
     bind_prog (resize_out alloc By_Receiver 4) (\<lambda>_.
     bind_prog (asks confirm_blocks) (\<lambda>pb.
     bind_prog (assemble (assembleProtocolUDP alloc) By_Receiver pb) (\<lambda>(res, pb).
     if \<not> res then errExit err_INTERNAL_UNEXPECTED_RESULT
     else bind_prog (asks (out_get By_Receiver)) (\<lambda>b.
       on_sending (\<lambda>h q. queueAddMessagePriority alloc h (Some q) b flags (pb_type pb))))))"

definition sendBye :: "allocator \<Rightarrow> unit thread" where
  "sendBye alloc =
     bind_prog lockSending (\<lambda>_.
     bind_prog (assemble_variant alloc By_Main (fresh_blocks cmd_EXIT)) (\<lambda>_.
     bind_prog (asks (out_get By_Main)) (\<lambda>b.
     bind_prog (on_sending (\<lambda>h q.
       queueAddMessage alloc h (Some q) b msg_flag_BYE (msg_byte msg_BYE))) (\<lambda>_.
     unlockSending))))"

text \<open>Without a configured protocol \<open>res\<close> is read uninitialised. The queue gets the message with
  \<open>cmd_ERR\<close> as its type.\<close>

definition sendError :: "allocator \<Rightarrow> out_buffer \<Rightarrow> string \<Rightarrow> unit thread" where
  "sendError alloc ob message =
     bind_prog (asks (\<lambda>s. size_add (size_add (length message) (used (displayName (comDetails s)))) 5))
       (\<lambda>newSize.
     bind_prog (resize_out alloc ob newSize) (\<lambda>_.
     bind_prog (assemble_variant alloc ob
         ((fresh_blocks cmd_ERR)\<lparr>zeroth := \<lparr>bb_start = literal message, bb_len = length message\<rparr>\<rparr>))
       (\<lambda>r.
     bind_prog lockSending (\<lambda>_.
     case r of
       None \<Rightarrow> lift_res (Fault Uninit_Read)
     | Some (res, pb) \<Rightarrow>
         if \<not> res then errExit err_INTERNAL_UNEXPECTED_RESULT
         else
           bind_prog (asks (out_get ob)) (\<lambda>b.
           bind_prog (on_sending (\<lambda>h q.
             queueAddMessage alloc h (Some q) b msg_flag_ERR (cmd_byte cmd_ERR))) (\<lambda>_.
           unlockSending))))))"

section \<open>Printing\<close>

text \<open>\<open>%s\<close>: the bytes up to the terminator.\<close>

fun string_cells :: "cell list \<Rightarrow> byte list res" where
  "string_cells [] = Fault Out_Of_Bounds"
| "string_cells (None # cs) = Fault Uninit_Read"
| "string_cells (Some c # cs) =
     (if c = 0 then Ok [] else res_bind (string_cells cs) (\<lambda>bs. Ok (c # bs)))"

definition c_string :: "ptr \<Rightarrow> byte list res" where
  "c_string p = (case p of None \<Rightarrow> Fault Null_Deref | Some (m, off) \<Rightarrow> string_cells (drop off m))"

text \<open>The string is read before the mutex of the output is looked at; the code takes the mutex first.\<close>

definition print_reply :: "string \<Rightarrow> ProtocolBlocks \<Rightarrow> unit thread" where
  "print_reply word pb =
     bind_prog (lift_res (c_string (bb_start (msg_reply_MsgContents pb)))) (\<lambda>bs.
     safePrintStderr (bytes_of word @ bs @ [10]))"

text \<open>For a message that is neither ERR nor MSG the pointers are uninitialised.\<close>

definition printIncomingMessage :: "ProtocolBlocks \<Rightarrow> unit thread" where
  "printIncomingMessage pb =
     bind_prog lockStdout (\<lambda>_.
     let ty = uchar2msgType (pb_type pb);
         displayname = zeroth pb;
         contents = first pb in
     if ty \<noteq> msg_ERR \<and> ty \<noteq> msg_MSG then lift_res (Fault Uninit_Read)
     else
       bind_prog (if ty = msg_ERR then modify (emit [Stderr (bytes_of ''ERR FROM '')]) else ret ()) (\<lambda>_.
       if bb_start displayname = None \<or> bb_start contents = None
       then errExit err_MISING_PROGRAM_ARG
       else
         bind_prog (lift_res (read_from (bb_start displayname) 0 (bb_len displayname))) (\<lambda>name.
         bind_prog (lift_res (read_from (bb_start contents) 0 (bb_len contents))) (\<lambda>text.
         let line = name @ bytes_of '': '' @ text @ [10] in
         bind_prog (modify (emit [if ty = msg_ERR then Stderr line else Stdout line])) (\<lambda>_.
         unlockStdout)))))"

section \<open>Confirmations and replies over UDP\<close>

definition handleConfirmUDP :: "16 word \<Rightarrow> unit thread" where
  "handleConfirmUDP msgID =
     bind_prog lockSending (\<lambda>_.
     bind_prog (read_sending (\<lambda>h q. queueGetMessage (Some q))) (\<lambda>topOfQueue.
     if topOfQueue = None then unlockSending
     else
       bind_prog (read_sending (\<lambda>h q. queueGetMessageID h (Some q))) (\<lambda>queueTopMsgID.
       bind_prog (read_sending (\<lambda>h q. deref h topOfQueue)) (\<lambda>m.
       if msgID \<noteq> queueTopMsgID \<and> mtype m \<noteq> msg_byte msg_AUTH then unlockSending
       else
         bind_prog (on_memory (\<lambda>h q. heap_upd h topOfQueue (\<lambda>m. m\<lparr>u_low := 1\<rparr>))) (\<lambda>_.
         bind_prog (modify (set_msgCounter (msgID + 1))) (\<lambda>_.
         bind_prog getProgramState (\<lambda>st.
         bind_prog
           (case st of
              fsm_AUTH_SENDED \<Rightarrow> setProgramState fsm_W84_REPLY
            | fsm_END_W84_CONF \<Rightarrow> steps [setProgramState fsm_END, cond_signal mainCond]
            | fsm_OPEN \<Rightarrow> cond_signal mainCond
            | _ \<Rightarrow> ret ()) (\<lambda>_.
         steps [cond_signal rec2SenderCond, unlockSending]))))))))"

definition setFirstFlags :: "msg_flags \<Rightarrow> unit thread" where
  "setFirstFlags f = on_memory (\<lambda>h q. queueSetMessageFlags h (Some q) f)"

definition handleReplyUDP :: "allocator \<Rightarrow> 16 word \<Rightarrow> ProtocolBlocks \<Rightarrow> unit thread" where
  "handleReplyUDP alloc msgID pb =
     when_state (\<lambda>s. fsm s = fsm_W84_REPLY \<or> fsm s = fsm_JOIN_ATEMPT)
       (bind_prog (lift_res (ptr_read (bb_start (msg_reply_result pb)) 0)) (\<lambda>result.
        bind_prog
          (if result = 1 then
             steps
              [when_state (\<lambda>s. fsm s = fsm_W84_REPLY)
                 (steps [lockSending, setFirstFlags msg_flag_CONFIRMED, unlockSending]),
               setProgramState fsm_W84_REPLY_CONF,
               lockSending, sendConfirm alloc msg_flag_CONFIRM, unlockSending,
               cond_signal senderEmptyQueueCond, cond_signal rec2SenderCond,
               print_reply ''Success: '' pb]
           else
             bind_prog lockSending (\<lambda>_.
             bind_prog (read_sending (\<lambda>h q. queueGetMessageFlags h (Some q))) (\<lambda>flags.
             steps
              [if flags = msg_flag_AUTH
               then steps [setFirstFlags msg_flag_REJECTED, setProgramState fsm_START]
               else ret (),
               when_state (\<lambda>s. fsm s = fsm_JOIN_ATEMPT) (setProgramState fsm_OPEN),
               sendConfirm alloc msg_flag_NOK_REPLY, unlockSending,
               print_reply ''Failure: '' pb, cond_signal mainCond]))) (\<lambda>_.
        modify (set_msgCounter (msgID + 1)))))"

section \<open>The receiver\<close>

text \<open>The filter for repeated messages: it records the identifier of a new one. A search that never
  ends blocks the thread.\<close>

definition filterRepeated :: "allocator \<Rightarrow> ProtocolBlocks \<Rightarrow> bool thread" where
  "filterRepeated alloc pb =
     bind_prog lockConfirmed (\<lambda>_.
     bind_prog lockSending (\<lambda>_.
     bind_prog (\<lambda>s. case queueContainsMessageId (memory s) (Some (confirmedMsgs s))
                          (serverResponse (cleanUp s)) (pb_type pb) of
                      None \<Rightarrow> Blocked s
                    | Some r \<Rightarrow> lift_res r s) (\<lambda>repetitiveMsg.
     bind_prog
       (if \<not> repetitiveMsg
        then bind_prog (asks (\<lambda>s. serverResponse (cleanUp s))) (\<lambda>b.
               on_confirmed (\<lambda>h q. queueAddMessageOnlyID alloc h (Some q) b (pb_type pb)))
        else ret ()) (\<lambda>_.
     bind_prog (steps [unlockSending, unlockConfirmed]) (\<lambda>_.
     ret repetitiveMsg)))))"

definition popAll :: "unit thread" where
  "popAll = on_sending (\<lambda>h q. queuePopAllMessages h (Some q))"

definition wakeSender :: "unit thread" where
  "wakeSender = steps [cond_signal senderEmptyQueueCond, cond_signal rec2SenderCond]"

definition confirmLocked :: "allocator \<Rightarrow> unit thread" where
  "confirmLocked alloc = steps [lockSending, sendConfirm alloc msg_flag_CONFIRM, unlockSending]"

text \<open>The reply to AUTH or JOIN over TCP.\<close>

definition replyTCP :: "ProtocolBlocks \<Rightarrow> unit thread" where
  "replyTCP pb =
     bind_prog getProgramState (\<lambda>st.
     if st = fsm_AUTH_SENDED \<or> st = fsm_JOIN_ATEMPT then
       if msg_reply_result_bool pb
       then steps [print_reply ''Success: '' pb, setProgramState fsm_OPEN]
       else
         bind_prog (print_reply ''Failure: '' pb) (\<lambda>_.
         bind_prog getProgramState (\<lambda>st.
         setProgramState (if st = fsm_JOIN_ATEMPT then fsm_OPEN else fsm_START)))
     else ret ())"

definition receiverFSM :: "allocator \<Rightarrow> 16 word \<Rightarrow> ProtocolBlocks \<Rightarrow> unit thread" where
  "receiverFSM alloc msgID pb s0 =
     bind_prog (if is_UDP s0 then filterRepeated alloc pb else ret False) (\<lambda>repetitiveMsg.
     case uchar2msgType (pb_type pb) of
       msg_CONF \<Rightarrow>
         if is_UDP s0 then handleConfirmUDP msgID
         else if is_TCP s0 then errExit err_COMMUNICATION
         else ret ()
     | msg_REPLY \<Rightarrow>
         if is_UDP s0 then
           (if repetitiveMsg then confirmLocked alloc else handleReplyUDP alloc msgID pb)
         else if is_TCP s0 then steps [replyTCP pb, cond_signal mainCond]
         else ret ()
     | msg_MSG \<Rightarrow>
         if is_UDP s0 then
           bind_prog (confirmLocked alloc) (\<lambda>_.
           if repetitiveMsg then ret () else steps [wakeSender, printIncomingMessage pb])
         else printIncomingMessage pb
     | msg_BYE \<Rightarrow>
         steps
          [if is_UDP s0 then confirmLocked alloc else ret (),
           setProgramState fsm_END, cond_signal mainCond]
     | msg_ERR \<Rightarrow>
         steps
          [lockSending, popAll,
           if is_UDP s0 then sendConfirm alloc msg_flag_CONFIRM else ret (),
           unlockSending, sendBye alloc, wakeSender, setProgramState fsm_ERR,
           printIncomingMessage pb, cond_signal mainCond]
     | _ \<Rightarrow>
         steps
          [setProgramState fsm_ERR, lockSending, popAll, unlockSending,
           if is_UDP s0 then sendConfirm alloc msg_flag_CONFIRM else ret (),
           sendError alloc By_Receiver ''Unknown message format'', sendBye alloc, wakeSender,
           safePrintStderr
             (bytes_of ''ERR: Received unknown message from server. Ending program'' @ [10]),
           cond_signal mainCond]) s0"

text \<open>
  \<open>recvfrom\<close> overwrites the address of the server by the one the message came from, as far as the given
  size allows, and stores the real size of that address; a stream has no such address, its size is 0.
\<close>

definition store_source :: "byte list \<Rightarrow> NetworkConfig \<Rightarrow> NetworkConfig res" where
  "store_source source n =
     (case serverAddress n of
        None \<Rightarrow> Ok n
      | Some address \<Rightarrow>
          let stored = take (serverAddressSize n) source in
          if length stored \<le> length address
          then Ok (n\<lparr>serverAddress := Some (overlay address 0 stored), serverAddressSize := length source\<rparr>)
          else Fault Out_Of_Bounds)"

text \<open>The bytes are stored at the start of the buffer, at most as many as it has; the result is their
  number.\<close>

definition recvfrom :: "byte list \<Rightarrow> byte list \<Rightarrow> nat thread" where
  "recvfrom source bs s =
     bind_prog (lift_res (store_source source (netConfig s))) (\<lambda>n.
     let r = serverResponse (cleanUp s);
         bs = take (allocated r) bs in
     bind_prog (modify (\<lambda>s. s\<lparr>netConfig := n, cleanUp := (cleanUp s)\<lparr>serverResponse :=
         r\<lparr>data := map_option (\<lambda>m. overlay m 0 (map Some bs)) (data r)\<rparr>\<rparr>\<rparr>)) (\<lambda>_.
     ret (length bs))) s"

definition set_responseUsed :: "nat \<Rightarrow> unit thread" where
  "set_responseUsed n =
     modify (\<lambda>s. s\<lparr>cleanUp := (cleanUp s)\<lparr>serverResponse := (serverResponse (cleanUp s))\<lparr>used := n\<rparr>\<rparr>\<rparr>)"

text \<open>What the thread does with one received message; the blocks and the identifier are variables of
  the thread that keep their values.\<close>

definition receiveOne ::
  "allocator \<Rightarrow> byte list \<Rightarrow> byte list \<Rightarrow> ProtocolBlocks \<times> 16 word \<Rightarrow> (ProtocolBlocks \<times> 16 word) thread"
where
  "receiveOne alloc source bs = (\<lambda>(pb, msgID).
     bind_prog (recvfrom source bs) (\<lambda>bytesRx.
     if bytesRx = 0 then ret (pb, msgID)
     else bind_prog (set_responseUsed bytesRx) (\<lambda>_.
     bind_prog (\<lambda>s.
       if is_UDP s then lift_res (disassebleProtocolUDP (serverResponse (cleanUp s)) pb) s
       else if is_TCP s
       then bind_prog (lift_res (disassebleProtocolTCP (serverResponse (cleanUp s)) pb))
              (\<lambda>pb. ret (pb, msgID)) s
       else Done (pb, msgID) s) (\<lambda>(pb, msgID).
     bind_prog getProgramState (\<lambda>st.
     if st = fsm_START \<and> pb_type pb \<noteq> msg_byte msg_REPLY \<and> pb_type pb \<noteq> msg_byte msg_CONF
     then ret (pb, msgID)
     else bind_prog (receiverFSM alloc msgID pb) (\<lambda>_. ret (pb, msgID)))))))"

text \<open>
  The loop: each turn receives something after the other threads acted, or nothing (the timeout of
  one second expired, or an error). The result is whether the loop was left, in state END; it is
  \<open>False\<close> when the loop still runs at the end of what is observed.
\<close>

type_synonym reception = "byte list \<times> byte list"

fun receiverLoop ::
  "allocator \<Rightarrow> (interference \<times> reception option) list \<Rightarrow> ProtocolBlocks \<times> 16 word \<Rightarrow> bool thread"
where
  "receiverLoop alloc [] v s = Done (fsm s = fsm_END) s"
| "receiverLoop alloc ((f, rx) # input) v s =
     (if fsm s = fsm_END then Done True s
      else case rx of
        None \<Rightarrow> receiverLoop alloc input v (f s)
      | Some (source, bs) \<Rightarrow> bind_prog (receiveOne alloc source bs v) (receiverLoop alloc input) (f s))"

definition RECV_SIZE :: nat where
  "RECV_SIZE = 1500"

definition protocolReceiver ::
  "allocator \<Rightarrow> bool \<Rightarrow> (interference \<times> reception option) list \<Rightarrow> ProtocolBlocks \<times> 16 word \<Rightarrow> bool thread"
where
  "protocolReceiver alloc setsockopt_ok input v s =
     bind_prog (lift_res (bufferResize alloc (serverResponse (cleanUp s)) RECV_SIZE)) (\<lambda>b.
     bind_prog (modify (\<lambda>s. s\<lparr>cleanUp := (cleanUp s)\<lparr>serverResponse := b\<rparr>\<rparr>)) (\<lambda>_.
     if \<not> setsockopt_ok then errExit err_COMMUNICATION
     else receiverLoop alloc input v)) s"

end
