(* ===== verification/Chat_Sender.thy ===== *)
theory Chat_Sender
  imports Chat_Receiver
begin

text \<open>
  The sending thread, \<open>protocolSender.c\<close>: the filter for messages that were confirmed or sent too
  often, the state machine that decides whether the first message may go out, and the loop that
  sends it. The threads that act while the sender waits are given as a list, one element for each
  wait that returns; \<open>sendto\<close> is given by the set of datagrams it accepts.
\<close>

section \<open>The filter for messages to be sent\<close>

text \<open>
  One pass of the loop of \<open>filterResentMessages\<close> up to the deletion of the message: whether the
  message is to be deleted and the loop goes on, and \<open>resetLoop\<close>.
\<close>

definition filterOne :: "allocator \<Rightarrow> bool \<Rightarrow> addr \<Rightarrow> (bool \<times> bool) thread" where
  "filterOne alloc resetLoop a =
     bind_prog (read_sending (\<lambda>h q. queueGetSendedCounter h (Some q))) (\<lambda>count.
     bind_prog (asks (\<lambda>s. udpMaxRetries (netConfig s))) (\<lambda>maxRetries.
     bind_prog getProgramState (\<lambda>st.
     if count > maxRetries then
       if st = fsm_ERR_W84_CONF then ret (True, resetLoop)
       else if st = fsm_END_W84_CONF then
         bind_prog (steps [setProgramState fsm_END, cond_signal mainCond]) (\<lambda>_. ret (True, True))
       else
         bind_prog (steps
           [safePrintStderr (bytes_of ''ERR: Request timed out.'' @ [10]), popAll,
            setProgramState fsm_ERR, unlockSending,
            sendError alloc By_Sender ''Request timed out'', sendBye alloc,
            cond_signal mainCond, lockSending]) (\<lambda>_. ret (False, resetLoop))
     else
       bind_prog (read_sending (\<lambda>h q. deref h (Some a))) (\<lambda>m.
       ret (if msgFlags m = msg_flag_REJECTED then (True, resetLoop)
            else if msgFlags m = msg_flag_AUTH then (False, resetLoop)
            else if \<not> confirmed m then (False, resetLoop)
            else (True, resetLoop))))))"

lemma filterOne_keeps_queue:
  assumes "filterOne alloc r a s = Done (True, r') s'"
  shows "sending s' = sending s"
  using assms
  by (auto simp: filterOne_def bind_prog_def read_sending_def lift_res_def asks_def ret_def
      getProgramState_def setProgramState_def cond_signal_def modify_def state_defs
      split: outcome.splits res.splits if_splits)

lemma queueGetMessage_len: "queueGetMessage (Some q) = Ok (Some a) \<Longrightarrow> 0 < q_len q"
  by (auto simp: queueGetMessage_def split: if_splits)

function filterLoop :: "allocator \<Rightarrow> bool \<Rightarrow> bool thread" where
  "filterLoop alloc resetLoop s =
     (case queueGetMessage (Some (sending s)) of
        Err c \<Rightarrow> Exits c s
      | Fault e \<Rightarrow> Crashes e
      | Ok None \<Rightarrow> Done resetLoop s
      | Ok (Some a) \<Rightarrow>
          (case filterOne alloc resetLoop a s of
             Exits c s' \<Rightarrow> Exits c s'
           | Crashes e \<Rightarrow> Crashes e
           | Blocked s' \<Rightarrow> Blocked s'
           | Done (delete, resetLoop) s' \<Rightarrow>
               if \<not> delete then Done resetLoop s'
               else (case queuePopMessage (memory s') (Some (sending s')) of
                       Err c \<Rightarrow> Exits c s'
                     | Fault e \<Rightarrow> Crashes e
                     | Ok (h, q) \<Rightarrow> filterLoop alloc resetLoop (set_sending q (s'\<lparr>memory := h\<rparr>)))))"
  by pat_completeness auto
termination
  by (relation "measure (\<lambda>(alloc, r, s). q_len (sending s))")
    (auto simp: set_sending_def dest!: filterOne_keeps_queue queuePopMessage_len
      dest: queueGetMessage_len)

declare filterLoop.simps [simp del]

definition filterResentMessages :: "allocator \<Rightarrow> bool thread" where
  "filterResentMessages alloc = filterLoop alloc False"

section \<open>The state machine of the sender\<close>

text \<open>
  The body of \<open>logicFSM\<close>; \<open>again\<close> is what happens when the thread waits for the reply to an AUTH
  message that was confirmed: the wait, and a new call of the function.
\<close>

definition logicBody :: "interference list thread \<Rightarrow> interference list \<Rightarrow> interference list thread" where
  "logicBody again others =
     bind_prog (read_sending (\<lambda>h q. queueGetMessage (Some q))) (\<lambda>msgToBeSend.
     bind_prog (read_sending (\<lambda>h q. queueGetMessageMsgType h (Some q))) (\<lambda>msgType.
     bind_prog (read_sending (\<lambda>h q. queueGetMessageFlags h (Some q))) (\<lambda>flags.
     bind_prog getProgramState (\<lambda>st.
     if st \<in> {fsm_START, fsm_AUTH_W82_BE_SENDED, fsm_AUTH_SENDED, fsm_W84_REPLY} then
       bind_prog (when_state (\<lambda>s. flags = msg_flag_AUTH \<and> fsm s \<le> fsm_AUTH_W82_BE_SENDED)
         (setProgramState fsm_AUTH_SENDED)) (\<lambda>_.
       if msgType \<noteq> msg_AUTH \<and> flags \<noteq> msg_flag_NOK_REPLY then
         bind_prog unlockSending (\<lambda>_.
         bind_prog (cond_wait rec2SenderCond others) (\<lambda>others.
         bind_prog lockSending (\<lambda>_. ret others)))
       else if msgType = msg_AUTH then
         bind_prog (read_sending (\<lambda>h q. deref h msgToBeSend)) (\<lambda>m.
         if confirmed m \<and> sendCount m > 0
         then bind_prog unlockSending (\<lambda>_. again)
         else ret others)
       else ret others)
     else if st = fsm_W84_REPLY_CONF then
       bind_prog (if msgType = msg_CONF
                  then steps [setProgramState fsm_OPEN, cond_signal mainCond] else ret ())
         (\<lambda>_. ret others)
     else if st = fsm_OPEN then
       bind_prog
         (case msgType of
            msg_AUTH \<Rightarrow>
              steps [safePrintStderr (bytes_of
                       ''ERR: You are already autheticated, this message will be ignored.''),
                     on_sending (\<lambda>h q. queuePopMessage h (Some q))]
          | msg_JOIN \<Rightarrow> setProgramState fsm_JOIN_ATEMPT
          | _ \<Rightarrow> ret ()) (\<lambda>_. ret others)
     else if st = fsm_ERR_W84_CONF \<or> st = fsm_ERR then
       bind_prog
         (if flags = msg_flag_BYE then
            (\<lambda>s. if is_UDP s then setProgramState fsm_END_W84_CONF s
                 else if is_TCP s
                 then steps [setProgramState fsm_END, cond_signal mainCond] s
                 else Done () s)
          else if flags = msg_flag_ERR then when_state is_UDP (setProgramState fsm_ERR_W84_CONF)
          else if flags = msg_flag_CONFIRM then ret ()
          else errExit err_INTERNAL_BAD_ARG) (\<lambda>_. ret others)
     else ret others))))"

fun logicFSM :: "interference list \<Rightarrow> interference list thread" where
  "logicFSM [] = logicBody (\<lambda>s. Blocked s) []"
| "logicFSM (f # others) =
     logicBody (bind_prog (modify f) (\<lambda>_. bind_prog lockSending (\<lambda>_. logicFSM others))) (f # others)"

section \<open>The loop\<close>

text \<open>Sending the first message: its bytes, as many as are in use, are handed to \<open>sendto\<close> with the address
  the server has by then.\<close>

definition sendFirst :: "(byte list option \<Rightarrow> cell list \<Rightarrow> bool) \<Rightarrow> addr option \<Rightarrow> msg_flags thread" where
  "sendFirst sendto msgToBeSend =
     bind_prog (read_sending (\<lambda>h q. deref h msgToBeSend)) (\<lambda>m.
     bind_prog (lift_res (msg_buffer m)) (\<lambda>b.
     bind_prog (read_sending (\<lambda>h q. queueGetMessageFlags h (Some q))) (\<lambda>flags.
     bind_prog (asks (\<lambda>s. server_address (netConfig s))) (\<lambda>address.
     if \<not> sendto address (contents b) then errExit err_COMMUNICATION
     else bind_prog (modify (emit [Sent address (contents b)])) (\<lambda>_. ret flags)))))"

text \<open>
  One pass of the loop. The mutex is not taken over TCP before the queue is looked at. Before the state
  machine the mutex is released for a moment, to make room for a thread that waits for it; \<open>room\<close> is what
  the others do then. The pass returns what the other threads still will do; a \<open>continue\<close> with the mutex held is
  the case \<open>resetLoop\<close>.
\<close>

definition senderTurnWith ::
  "interference \<Rightarrow> allocator \<Rightarrow> (byte list option \<Rightarrow> cell list \<Rightarrow> bool) \<Rightarrow> interference list
     \<Rightarrow> interference list thread"
where
  "senderTurnWith room alloc sendto others s0 =
     bind_prog
       (if is_UDP s0 then bind_prog lockSending (\<lambda>_. filterResentMessages alloc) else ret False)
       (\<lambda>resetLoop.
     if resetLoop then ret others
     else
     bind_prog (read_sending (\<lambda>h q. queueIsEmpty (Some q))) (\<lambda>empty.
     if empty then
       bind_prog getProgramState (\<lambda>st.
       if st = fsm_EMPTY_Q_BYE \<or> st = fsm_SIGINT_BYE then
         bind_prog (steps [setProgramState fsm_END, unlockSending, cond_signal mainCond])
           (\<lambda>_. ret others)
       else bind_prog unlockSending (\<lambda>_. cond_wait senderEmptyQueueCond others))
     else
       bind_prog (steps [unlockSending, modify room, lockSending]) (\<lambda>_.
       bind_prog (logicFSM others) (\<lambda>others.
       bind_prog (read_sending (\<lambda>h q. queueGetMessage (Some q))) (\<lambda>msgToBeSend.
       bind_prog
         (if is_UDP s0
          then (\<lambda>s. on_memory (\<lambda>h q. queueSetMessageID h (Some q) (msgCounter (comDetails s))) s)
          else if is_TCP s0 then modify (\<lambda>s. set_msgCounter (msgCounter (comDetails s) + 1) s)
          else ret ()) (\<lambda>_.
       bind_prog (sendFirst sendto msgToBeSend) (\<lambda>sendedMessageFlags.
       bind_prog
         (if is_UDP s0 then
            (if sendedMessageFlags \<in> {msg_flag_DO_NOT_RESEND, msg_flag_CONFIRM, msg_flag_NOK_REPLY}
             then on_sending (\<lambda>h q. queuePopMessage h (Some q))
             else on_memory (\<lambda>h q. queueMessageSended h (Some q)))
          else if is_TCP s0 then
            bind_prog (read_sending (\<lambda>h q. deref h msgToBeSend)) (\<lambda>m.
            steps [if mtype m = msg_byte msg_MSG then cond_signal mainCond else ret (),
                   on_sending (\<lambda>h q. queuePopMessage h (Some q))])
          else ret ()) (\<lambda>_.
       bind_prog unlockSending (\<lambda>_.
       cond_wait rec2SenderCond others)))))))))
     s0"

text \<open>The pass in which nobody waits for the mutex.\<close>

definition senderTurn ::
  "allocator \<Rightarrow> (byte list option \<Rightarrow> cell list \<Rightarrow> bool) \<Rightarrow> interference list \<Rightarrow> interference list thread"
where
  "senderTurn = senderTurnWith (\<lambda>s. s)"

text \<open>The thread, observed for a number of turns; the result is whether the loop was left.\<close>

fun protocolSender ::
  "nat \<Rightarrow> allocator \<Rightarrow> (byte list option \<Rightarrow> cell list \<Rightarrow> bool) \<Rightarrow> interference list \<Rightarrow> bool thread"
where
  "protocolSender 0 alloc sendto others s = Done (fsm s = fsm_END) s"
| "protocolSender (Suc n) alloc sendto others s =
     (if fsm s = fsm_END then Done True s
      else bind_prog (senderTurn alloc sendto others) (\<lambda>others. protocolSender n alloc sendto others) s)"

text \<open>
  \<open>TIMEOUT_CALCULATION\<close>: the absolute time the wait after sending ends at, in seconds and
  nanoseconds, from the time of day in seconds and microseconds and the timeout in milliseconds.
\<close>

definition TIMEOUT_CALCULATION :: "int \<times> int \<Rightarrow> 16 word \<Rightarrow> int \<times> int" where
  "TIMEOUT_CALCULATION = (\<lambda>(tv_sec, tv_usec) millis.
     let sec = tv_sec + uint millis div 1000;
         nsec = tv_usec * 1000 + 1000 * 1000 * (uint millis mod 1000) in
     (sec + nsec div (1000 * 1000 * 1000), nsec mod (1000 * 1000 * 1000)))"

end
