(* ===== verification/Chat_CleanUp.thy ===== *)
theory Chat_CleanUp
  imports Chat_Sender
begin

text \<open>
  Creating and destroying the program interface and the handler of SIGINT, \<open>libs/cleanUpMaster.c\<close>,
  and the error handler of \<open>main.c\<close>, which shares its steps.
\<close>

section \<open>Creating the program interface\<close>

text \<open>
  The allocations of \<open>programInterfaceInit\<close>, in order, by what they are for. Those that are tested
  end the program when they are refused; the conditions, the mutexes, \<open>CleanUp\<close> and the queue of
  confirmed messages are not tested (the code tests an array or another pointer), so a refused one
  is used as a null pointer.
\<close>

datatype allocation =
    Alloc_ThreadCommunication | Alloc_sendingQueue | Alloc_condition | Alloc_mutex
  | Alloc_NetworkConfig | Alloc_CommunicationDetails | Alloc_CleanUp | Alloc_confirmedMessages

definition init_allocations :: "(allocation \<times> bool) list" where
  "init_allocations =
     [(Alloc_ThreadCommunication, True), (Alloc_sendingQueue, True)]
     @ replicate 3 (Alloc_condition, False) @ replicate 5 (Alloc_mutex, False)
     @ [(Alloc_NetworkConfig, True), (Alloc_CommunicationDetails, True), (Alloc_CleanUp, False),
        (Alloc_confirmedMessages, False)]"

fun run_allocations :: "(allocation \<Rightarrow> bool) \<Rightarrow> (allocation \<times> bool) list \<Rightarrow> unit res" where
  "run_allocations granted [] = Ok ()"
| "run_allocations granted ((a, tested) # as) =
     (if granted a then run_allocations granted as
      else if tested then Err err_MEMORY_FAIL
      else Fault Null_Deref)"

text \<open>The network configuration is allocated but not filled in here; \<open>main\<close> does that next.\<close>

definition initial_interface :: "NetworkConfig \<Rightarrow> ProgramInterface" where
  "initial_interface net =
     \<lparr>comDetails = \<lparr>displayName = bufferInit, channelID = bufferInit, msgCounter = 0\<rparr>,
      netConfig = net,
      threads = \<lparr>fsmState = fsm_START, stdoutMutex = False, sendingQueue = queueInit\<rparr>,
      cleanUp = \<lparr>clientInput = bufferInit, protocolToSendedByMain = bufferInit,
        protocolToSendedByReceiver = bufferInit, protocolToSendedBySender = bufferInit,
        serverResponse = bufferInit, confirmedMessages = queueInit\<rparr>,
      memory = empty_heap, events = []\<rparr>"

definition programInterfaceInit ::
  "(allocation \<Rightarrow> bool) \<Rightarrow> NetworkConfig \<Rightarrow> ProgramInterface res"
where
  "programInterfaceInit granted net =
     res_bind (run_allocations granted init_allocations) (\<lambda>_. Ok (initial_interface net))"

section \<open>Destroying it\<close>

text \<open>What is left of it: the heap of messages, and which of its seven buffers had memory to free.\<close>

definition programInterfaceDestroy :: "ProgramInterface \<Rightarrow> (heap \<times> bool list) res" where
  "programInterfaceDestroy s =
     (let freed = map bufferDestroy
            [clientInput (cleanUp s), protocolToSendedByMain (cleanUp s),
             protocolToSendedByReceiver (cleanUp s), protocolToSendedBySender (cleanUp s),
             serverResponse (cleanUp s)] in
      res_bind (queueDestroy (memory s) (Some (confirmedMessages (cleanUp s)))) (\<lambda>h.
      let freed = freed @ map bufferDestroy
            [displayName (comDetails s), channelID (comDetails s)] in
      res_bind (queueDestroy h (Some (sending s))) (\<lambda>h.
      Ok (h, freed))))"

section \<open>Ending the program\<close>

text \<open>The exit of the program: the exit code, and the heap of messages at that moment.\<close>

definition destroyAndExit :: "err_code \<Rightarrow> (err_code \<times> heap) thread" where
  "destroyAndExit code s =
     bind_prog (lift_res (programInterfaceDestroy s)) (\<lambda>(h, freed). ret (code, h)) s"

text \<open>The steps \<open>errHandling\<close> and \<open>sigintHandler\<close> share: emptying the queue and adding BYE.\<close>

definition replaceByBye :: "allocator \<Rightarrow> unit thread" where
  "replaceByBye alloc = steps [lockSending, popAll, unlockSending, sendBye alloc]"

text \<open>\<open>errHandling\<close>: for the two internal errors the program first says good bye to the server and
  waits for the sender; \<open>fprintf\<close> does not take the output mutex.\<close>

definition errHandling ::
  "allocator \<Rightarrow> interference list \<Rightarrow> byte list \<Rightarrow> err_code \<Rightarrow> (err_code \<times> heap) thread"
where
  "errHandling alloc others msg errorCode =
     (if errorCode = err_INTERNAL_UNEXPECTED_RESULT \<or> errorCode = err_INTERNAL_BAD_ARG then
        bind_prog (steps
          [setProgramState fsm_ERR, modify (emit [Stderr (bytes_of ''ERR: '' @ msg @ [10])]),
           cond_signal mainCond, replaceByBye alloc]) (\<lambda>_.
        bind_prog (cond_wait mainCond others) (\<lambda>_.
        destroyAndExit errorCode))
      else
        bind_prog (modify (emit [Stderr (bytes_of ''ERR: '' @ msg @ [10])])) (\<lambda>_.
        destroyAndExit errorCode))"

definition sigintHandler :: "allocator \<Rightarrow> interference list \<Rightarrow> (err_code \<times> heap) thread" where
  "sigintHandler alloc others =
     bind_prog (steps
       [setProgramState fsm_SIGINT_BYE, cond_signal mainCond, replaceByBye alloc, wakeSender]) (\<lambda>_.
     bind_prog (cond_wait mainCond others) (\<lambda>_.
     bind_prog (modify (emit [Shutdown])) (\<lambda>_.
     destroyAndExit err_NO_ERR)))"

text \<open>A thread that calls \<open>errHandling\<close>, with the handler run.\<close>

definition with_errHandling ::
  "allocator \<Rightarrow> interference list \<Rightarrow> byte list \<Rightarrow> 'a thread \<Rightarrow> ('a + err_code \<times> heap) thread"
where
  "with_errHandling alloc others msg p s =
     (case p s of
        Done a s' \<Rightarrow> Done (Inl a) s'
      | Exits c s' \<Rightarrow> bind_prog (errHandling alloc others msg c) (\<lambda>r. ret (Inr r)) s'
      | Crashes e \<Rightarrow> Crashes e
      | Blocked s' \<Rightarrow> Blocked s')"

end
