(* ===== verification/Chat_Main.thy ===== *)
theory Chat_Main
  imports Chat_CleanUp
begin

text \<open>
  The main thread, \<open>main.c\<close>: the command line, the commands of the user filtered by the state of the
  program, and the loop that reads them.
\<close>

section \<open>The command line\<close>

text \<open>\<open>atoi\<close> of the C library: blanks, an optional sign, digits. The number is read as a \<open>long\<close>, which
  saturates, and converted to \<open>int\<close>.\<close>

definition is_space :: "char \<Rightarrow> bool" where
  "is_space c \<longleftrightarrow> c = CHR '' '' \<or> (9 \<le> (of_char c :: nat) \<and> (of_char c :: nat) \<le> 13)"

definition is_digit :: "char \<Rightarrow> bool" where
  "is_digit c \<longleftrightarrow> 48 \<le> (of_char c :: nat) \<and> (of_char c :: nat) \<le> 57"

definition digits_value :: "string \<Rightarrow> int" where
  "digits_value s = foldl (\<lambda>n c. 10 * n + (of_char c - 48)) 0 (takeWhile is_digit s)"

definition strtol :: "string \<Rightarrow> int" where
  "strtol s =
     (case dropWhile is_space s of
        [] \<Rightarrow> 0
      | c # cs \<Rightarrow>
          max (- (2 ^ 63)) (min (2 ^ 63 - 1)
            (if c = CHR ''-'' then - digits_value cs
             else if c = CHR ''+'' then digits_value cs
             else digits_value (c # cs))))"

definition atoi :: "string \<Rightarrow> int" where
  "atoi s = sint (word_of_int (strtol s) :: 32 word)"

text \<open>What \<open>getopt\<close> returns for the option string of the program: an option with its argument, or
  \<open>'?'\<close> for anything else.\<close>

datatype cli_option = Opt_h | Opt_t string | Opt_s string | Opt_p string | Opt_d string | Opt_r string
  | Opt_unknown

definition upd_net :: "(NetworkConfig \<Rightarrow> NetworkConfig) \<Rightarrow> unit thread" where
  "upd_net f = modify (\<lambda>s. s\<lparr>netConfig := f (netConfig s)\<rparr>)"

definition set_ipAddress :: "allocator \<Rightarrow> string \<Rightarrow> Buffer \<Rightarrow> Buffer res" where
  "set_ipAddress alloc optarg ip =
     (let optLen = length optarg in
      res_bind (bufferResize alloc ip (optLen + 1)) (\<lambda>ip.
      res_bind (stringReplace (data ip) 0 (literal optarg) optLen) (\<lambda>d.
      res_bind (buf_write (ip\<lparr>data := d\<rparr>) optLen 0) (\<lambda>ip.
      Ok (ip\<lparr>used := optLen + 1\<rparr>)))))"

definition setClientInput :: "Buffer \<Rightarrow> unit thread" where
  "setClientInput b = modify (\<lambda>s. s\<lparr>cleanUp := (cleanUp s)\<lparr>clientInput := b\<rparr>\<rparr>)"

text \<open>The pointers the function is given are those of the program interface: its network
  configuration, and its buffer \<open>clientInput\<close> for the address of the server.\<close>

fun processArguments :: "allocator \<Rightarrow> cli_option list \<Rightarrow> unit thread" where
  "processArguments alloc [] = ret ()"
| "processArguments alloc (opt # opts) =
     bind_prog
       (case opt of
          Opt_h \<Rightarrow> bind_prog (printCliHelpMenu ''ipk24chat-client'') (\<lambda>_. errExit err_NO_ERR)
        | Opt_t optarg \<Rightarrow>
            if optarg = ''udp'' then upd_net (\<lambda>n. n\<lparr>protocol := prot_UDP\<rparr>)
            else if optarg = ''tcp'' then upd_net (\<lambda>n. n\<lparr>protocol := prot_TCP\<rparr>)
            else errExit err_MISING_PROGRAM_ARG
        | Opt_s optarg \<Rightarrow>
            (\<lambda>s. bind_prog (lift_res (set_ipAddress alloc optarg (clientInput (cleanUp s))))
                   setClientInput s)
        | Opt_p optarg \<Rightarrow> upd_net (\<lambda>n. n\<lparr>portNumber := word_of_int (atoi optarg)\<rparr>)
        | Opt_d optarg \<Rightarrow> upd_net (\<lambda>n. n\<lparr>udpTimeout := word_of_int (atoi optarg)\<rparr>)
        | Opt_r optarg \<Rightarrow> upd_net (\<lambda>n. n\<lparr>udpMaxRetries := word_of_int (atoi optarg)\<rparr>)
        | Opt_unknown \<Rightarrow> errExit err_MISING_PROGRAM_ARG)
       (\<lambda>_. processArguments alloc opts)"

text \<open>The part of \<open>main\<close> between the creation of the program interface and the socket.\<close>

definition configure :: "allocator \<Rightarrow> cli_option list \<Rightarrow> unit thread" where
  "configure alloc opts = steps
     [upd_net (\<lambda>_. defaultNetworkConfig), processArguments alloc opts,
      when_state (\<lambda>s. protocol (netConfig s) = prot_ERR) (errExit err_MISING_PROGRAM_ARG),
      when_state (\<lambda>s. data (clientInput (cleanUp s)) = None) (errExit err_MISING_PROGRAM_ARG)]"

section \<open>The network\<close>

text \<open>The system: \<open>socket\<close> by the type of the socket, the name resolution from a name to the bytes
  of the first address, \<open>connect\<close> by the address.\<close>

record system_calls =
  sys_socket :: "int \<Rightarrow> int"
  sys_gethostbyname :: "byte list \<Rightarrow> byte list option"
  sys_connect :: "byte list \<Rightarrow> int"

definition SOCK_STREAM :: int where "SOCK_STREAM = 1"
definition SOCK_DGRAM :: int where "SOCK_DGRAM = 2"

definition getSocket :: "system_calls \<Rightarrow> prot_t \<Rightarrow> int res" where
  "getSocket sys prot =
     res_bind
       (case prot of
          prot_UDP \<Rightarrow> Ok SOCK_DGRAM
        | prot_TCP \<Rightarrow> Ok SOCK_STREAM
        | prot_ERR \<Rightarrow> Err err_NETWORK_INIT) (\<lambda>family.
     let newSocket = sys_socket sys family in
     if newSocket < 0 then Err err_NETWORK_INIT else Ok newSocket)"

text \<open>\<open>struct sockaddr_in\<close> on a little-endian machine: the family \<open>AF_INET\<close>, the port in network
  order, the address and eight zero bytes.\<close>

definition sizeof_sockaddr_in :: nat where
  "sizeof_sockaddr_in = 16"

definition findServer :: "system_calls \<Rightarrow> ptr \<Rightarrow> 16 word \<Rightarrow> byte list thread" where
  "findServer sys serverHostname serverPort =
     bind_prog (lift_res (c_string serverHostname)) (\<lambda>name.
     case sys_gethostbyname sys name of
       None \<Rightarrow>
         bind_prog (modify (emit [Stderr (bytes_of ''ERR: No such host '' @ name @ [10])])) (\<lambda>_.
         errExit err_NETWORK_INIT)
     | Some address \<Rightarrow>
         let serverAddress = replicate sizeof_sockaddr_in (0 :: byte);
             serverAddress = overlay serverAddress 0 [2, 0];
             serverAddress = overlay serverAddress 2
               [ucast (drop_bit 8 serverPort), ucast serverPort] in
         if 4 + length address \<le> sizeof_sockaddr_in
         then ret (overlay serverAddress 4 address)
         else lift_res (Fault Out_Of_Bounds))"

definition connectServer :: "system_calls \<Rightarrow> unit thread" where
  "connectServer sys s =
     bind_prog (lift_res (getSocket sys (protocol (netConfig s)))) (\<lambda>sock.
     bind_prog (upd_net (\<lambda>n. n\<lparr>openedSocket := sock\<rparr>)) (\<lambda>_.
     bind_prog (findServer sys (buf_ptr (clientInput (cleanUp s))) (portNumber (netConfig s))) (\<lambda>address.
     bind_prog (upd_net (\<lambda>n.
       n\<lparr>serverAddress := Some address, serverAddressSize := sizeof_sockaddr_in\<rparr>)) (\<lambda>_.
     if is_TCP s \<and> sys_connect sys address \<noteq> 0 then errExit err_NETWORK_INIT else ret ())))) s"

section \<open>Commands and the state of the program\<close>

text \<open>Storing a name: the resize, the copy, the length and the terminator.\<close>

definition store_name :: "allocator \<Rightarrow> BytesBlock \<Rightarrow> Buffer \<Rightarrow> Buffer res" where
  "store_name alloc block b =
     res_bind (bufferResize alloc b (size_add (bb_len block) 1)) (\<lambda>b.
     res_bind (stringReplace (data b) 0 (bb_start block) (bb_len block)) (\<lambda>d.
     buf_write (b\<lparr>data := d, used := bb_len block\<rparr>) (bb_len block) 0))"

definition store_displayName :: "allocator \<Rightarrow> BytesBlock \<Rightarrow> unit thread" where
  "store_displayName alloc block s =
     bind_prog (lift_res (store_name alloc block (displayName (comDetails s)))) (\<lambda>b.
     modify (\<lambda>s. s\<lparr>comDetails := (comDetails s)\<lparr>displayName := b\<rparr>\<rparr>)) s"

definition store_channelID :: "allocator \<Rightarrow> BytesBlock \<Rightarrow> unit thread" where
  "store_channelID alloc block s =
     bind_prog (lift_res (store_name alloc block (channelID (comDetails s)))) (\<lambda>b.
     modify (\<lambda>s. s\<lparr>comDetails := (comDetails s)\<lparr>channelID := b\<rparr>\<rparr>)) s"

definition not_connected :: "byte list" where
  "not_connected = bytes_of (''ERR: You are not connected to server! '' @
     ''Use /auth to connect to server or /help for more information.'') @ [10]"

definition bad_argument :: "byte list" where
  "bad_argument = bytes_of ''ERR: Bad command argument / not enough arguments.'' @ [10]"

definition filterCommandsByFSM ::
  "allocator \<Rightarrow> ProtocolBlocks \<Rightarrow> msg_flags \<Rightarrow> (bool \<times> msg_flags) thread"
where
  "filterCommandsByFSM alloc pb flags =
     (let refuse = bind_prog (safePrintStderr not_connected) (\<lambda>_. ret (False, flags));
          in_open = (\<lambda>p. bind_prog getProgramState (\<lambda>st. if st = fsm_OPEN then p else refuse)) in
      case uchar2CommandType (pb_type pb) of
        cmd_NONE \<Rightarrow> ret (False, flags)
      | cmd_AUTH \<Rightarrow>
          bind_prog (store_displayName alloc (cmd_auth_displayname pb)) (\<lambda>_.
          bind_prog getProgramState (\<lambda>st.
          if st = fsm_START
          then bind_prog (setProgramState fsm_AUTH_W82_BE_SENDED) (\<lambda>_. ret (True, msg_flag_AUTH))
          else refuse))
      | cmd_HELP \<Rightarrow> bind_prog (printUserHelpMenu) (\<lambda>_. ret (False, flags))
      | cmd_JOIN \<Rightarrow>
          in_open (bind_prog (store_channelID alloc (cmd_join_channelID pb)) (\<lambda>_. ret (True, flags)))
      | cmd_RENAME \<Rightarrow>
          in_open (bind_prog (store_displayName alloc (cmd_rename_displayname pb)) (\<lambda>_. ret (False, flags)))
      | cmd_MSG \<Rightarrow> in_open (ret (True, flags))
      | cmd_EXIT \<Rightarrow> ret (True, flags)
      | cmd_MISSING \<Rightarrow> bind_prog (safePrintStderr bad_argument) (\<lambda>_. ret (False, flags))
      | _ \<Rightarrow> refuse)"

section \<open>The loop over the input\<close>

text \<open>The variables of \<open>userCommandHandling\<close> that live across turns, the input still to be read, and
  what the other threads do while it waits.\<close>

record main_vars =
  eofDetected :: bool
  mBlocks :: ProtocolBlocks
  stdin :: "byte list"
  mothers :: "interference list"

text \<open>Adding the assembled message to the queue.\<close>

definition enqueueMessage :: "allocator \<Rightarrow> msg_flags \<Rightarrow> byte \<Rightarrow> unit thread" where
  "enqueueMessage alloc flags ty =
     bind_prog lockSending (\<lambda>_.
     bind_prog (read_sending (\<lambda>h q. queueIsEmpty (Some q))) (\<lambda>signalSender.
     bind_prog (asks (out_get By_Main)) (\<lambda>b.
     steps
      [on_sending (\<lambda>h q. queueAddMessage alloc h (Some q) b flags ty),
       if signalSender \<or> ty = msg_byte msg_AUTH \<or> ty = cmd_byte cmd_AUTH
       then cond_signal senderEmptyQueueCond else ret (),
       unlockSending])))"

text \<open>What a turn does with the blocks of a command: the filter, the assembling, the queue, and the wait
  until the message was processed.\<close>

definition sendCommand ::
  "allocator \<Rightarrow> ProtocolBlocks \<Rightarrow> msg_flags \<Rightarrow> main_vars \<Rightarrow> main_vars thread"
where
  "sendCommand alloc pb flags v =
     bind_prog (filterCommandsByFSM alloc pb flags) (\<lambda>(canBeSended, flags).
     if \<not> canBeSended then ret (v\<lparr>mBlocks := pb\<rparr>)
     else
       bind_prog (assemble_variant alloc By_Main pb) (\<lambda>r.
       let (canBeSended, pb) = (case r of None \<Rightarrow> (True, pb) | Some x \<Rightarrow> x);
           v = v\<lparr>mBlocks := pb\<rparr> in
       if \<not> canBeSended then ret v
       else
         bind_prog (enqueueMessage alloc flags (pb_type pb)) (\<lambda>_.
         bind_prog
           (if pb_type pb = cmd_byte cmd_EXIT \<or> pb_type pb = msg_byte msg_BYE
            then steps [setProgramState fsm_EMPTY_Q_BYE, cond_signal senderEmptyQueueCond]
            else ret ()) (\<lambda>_.
         bind_prog (cond_wait mainCond (mothers v)) (\<lambda>others.
         ret (v\<lparr>mothers := others\<rparr>))))))"

text \<open>
  One turn. The results of \<open>userInputToCmds\<close> and of the filter overwrite each other in the code, so
  only the filter decides; its verdict on a line that was rejected rests on the type left in the
  blocks.
\<close>

definition commandTurn :: "allocator \<Rightarrow> main_vars \<Rightarrow> main_vars thread" where
  "commandTurn alloc v =
     (if eofDetected v then
        bind_prog (steps
          [setProgramState fsm_EMPTY_Q_BYE, sendBye alloc, cond_signal senderEmptyQueueCond])
          (\<lambda>_. ret v)
      else
        bind_prog (\<lambda>s. lift_res (loadBufferFromStdin alloc (clientInput (cleanUp s)) False (stdin v)) s)
          (\<lambda>(buf, eof, rest, len).
        bind_prog (setClientInput (buf\<lparr>used := len\<rparr>)) (\<lambda>_.
        bind_prog (lift_res (userInputToCmds (buf\<lparr>used := len\<rparr>) (mBlocks v) msg_flag_NONE))
          (\<lambda>(ok, pb, flags, text).
        bind_prog (if text = [] then ret () else modify (emit [Stderr text])) (\<lambda>_.
        sendCommand alloc pb flags (v\<lparr>eofDetected := eof, stdin := rest\<rparr>))))))"

text \<open>The loop, observed for a number of turns. The result is whether it was left: \<open>Done False\<close> is a loop that still
  runs, which a thread that waits for ever (\<open>Blocked\<close>) does not.\<close>

fun userCommandHandling :: "nat \<Rightarrow> allocator \<Rightarrow> main_vars \<Rightarrow> bool thread" where
  "userCommandHandling 0 alloc v s = Done (\<not> fsm s < fsm_EMPTY_Q_BYE) s"
| "userCommandHandling (Suc n) alloc v s =
     (if \<not> fsm s < fsm_EMPTY_Q_BYE then Done True s
      else bind_prog (commandTurn alloc v) (userCommandHandling n alloc) s)"

section \<open>The program\<close>

text \<open>
  \<open>main\<close>. A failure inside \<open>programInterfaceInit\<close> calls \<open>errHandling\<close> before \<open>globalProgInt\<close> is set,
  so the handler works on a null pointer. The two threads act while the main thread waits; what they
  do until they are joined is \<open>rest\<close>. The result is the exit code and the heap of messages left, and \<open>None\<close>
  when the loop over the input still runs after the turns that are observed.
\<close>

definition main ::
  "allocator \<Rightarrow> (allocation \<Rightarrow> bool) \<Rightarrow> NetworkConfig \<Rightarrow> system_calls \<Rightarrow> byte list \<Rightarrow> cli_option list
     \<Rightarrow> nat \<Rightarrow> main_vars \<Rightarrow> interference \<Rightarrow> ((err_code \<times> heap) option, ProgramInterface) outcome"
where
  "main alloc granted net sys msg opts n v rest =
     (case programInterfaceInit granted net of
        Err c \<Rightarrow> Crashes Null_Deref
      | Fault e \<Rightarrow> Crashes e
      | Ok s \<Rightarrow>
          bind_prog (with_errHandling alloc (mothers v) msg (
            bind_prog (steps [configure alloc opts, connectServer sys]) (\<lambda>_.
            bind_prog (userCommandHandling n alloc v) (\<lambda>left.
            bind_prog (if left then steps [modify rest, modify (emit [Shutdown])] else ret ()) (\<lambda>_.
            ret left))))) (\<lambda>r.
          case r of
            Inl left \<Rightarrow> if left then bind_prog (destroyAndExit err_NO_ERR) (\<lambda>x. ret (Some x)) else ret None
          | Inr (c, h) \<Rightarrow> ret (Some (c, h))) s)"

end
