(* ===== verification/Chat_Invariant.thy ===== *)
theory Chat_Invariant
  imports Chat_Main
begin

text \<open>
  The invariant of the shared state: both queues are well-formed chains of messages that share no
  message, every message on the heap is in one of them, and every buffer is well formed. The rules
  here show for the operations on the queues and buffers that they keep it, however they end.
\<close>

section \<open>The invariant\<close>

definition buffers :: "ProgramInterface \<Rightarrow> Buffer list" where
  "buffers s =
     [displayName (comDetails s), channelID (comDetails s), clientInput (cleanUp s),
      protocolToSendedByMain (cleanUp s), protocolToSendedByReceiver (cleanUp s),
      protocolToSendedBySender (cleanUp s), serverResponse (cleanUp s)]"

definition queues_wf :: "heap \<Rightarrow> MessageQueue \<Rightarrow> MessageQueue \<Rightarrow> bool" where
  "queues_wf h q q2 \<longleftrightarrow>
     queue_wf h q \<and> queue_wf h q2 \<and> set (queue_addrs h q) \<inter> set (queue_addrs h q2) = {} \<and>
     dom (cells h) \<subseteq> set (queue_addrs h q) \<union> set (queue_addrs h q2)"

text \<open>No object is larger than a quarter of the address space.\<close>

definition buf_ok :: "Buffer \<Rightarrow> bool" where
  "buf_ok b \<longleftrightarrow> buffer_wf b \<and> allocated b < 2 ^ 62"

definition state_inv :: "ProgramInterface \<Rightarrow> bool" where
  "state_inv s \<longleftrightarrow>
     queues_wf (memory s) (sending s) (confirmedMsgs s) \<and> (\<forall>b \<in> set (buffers s). buf_ok b)"

text \<open>An allocator that refuses such objects.\<close>

definition sane :: "allocator \<Rightarrow> bool" where
  "sane alloc \<longleftrightarrow> (\<forall>n. alloc n \<longrightarrow> n < 2 ^ 62)"

lemma queues_wf_alt:
  "queues_wf h q q2 \<longleftrightarrow>
     (\<exists>as bs. represents h q as \<and> represents h q2 bs \<and> set as \<inter> set bs = {} \<and>
        dom (cells h) \<subseteq> set as \<union> set bs)"
  unfolding queues_wf_def queue_wf_def by (metis queue_addrs_represents)

section \<open>Rules\<close>

lemma keeps_read_bind:
  assumes "\<And>s a. I s \<Longrightarrow> g s = Ok a \<Longrightarrow> keeps I (f a)"
  shows "keeps I (bind_prog (\<lambda>s. lift_res (g s) s) f)"
proof (rule keepsI)
  fix s assume I: "I s"
  show "ensures I (bind_prog (\<lambda>s. lift_res (g s) s) f s)"
    using I keepsD[OF assms[OF I]] by (cases "g s") (simp_all add: bind_prog_def lift_res_def)
qed

lemma keeps_asks_bind:
  "(\<And>s. I s \<Longrightarrow> keeps I (f (g s))) \<Longrightarrow> keeps I (bind_prog (asks g) f)"
  by (auto simp: keeps_def bind_prog_def asks_def)

lemma keeps_lift_bind:
  "(\<And>a. r = Ok a \<Longrightarrow> keeps I (f a)) \<Longrightarrow> keeps I (bind_prog (lift_res r) f)"
  by (rule keeps_read_bind[where g = "\<lambda>_. r"])

lemma keeps_read_sending [keeps_intros]: "keeps I (read_sending f)"
  by (auto simp: keeps_def read_sending_def lift_res_def split: res.splits)

lemma keeps_read_sending_bind:
  "(\<And>s a. I s \<Longrightarrow> g (memory s) (sending s) = Ok a \<Longrightarrow> keeps I (f a)) \<Longrightarrow>
     keeps I (bind_prog (read_sending g) f)"
  using keeps_read_bind[of I "\<lambda>s. g (memory s) (sending s)" f]
  by (simp add: read_sending_def[abs_def])

lemma keeps_errExit [keeps_intros]: "keeps I (errExit c)"
  by (simp add: keeps_def errExit_def)

lemma keeps_steps [keeps_intros]: "(\<And>p. p \<in> set ps \<Longrightarrow> keeps I p) \<Longrightarrow> keeps I (steps ps)"
  by (induction ps) (auto intro: keeps_intros)

lemma keeps_when_state [keeps_intros]: "keeps I p \<Longrightarrow> keeps I (when_state b p)"
  by (simp add: keeps_def when_state_def)

lemma keeps_getProgramState [keeps_intros]: "keeps I getProgramState"
  by (simp add: getProgramState_def keeps_asks)

lemma keeps_cond_wait:
  "(\<And>f s. f \<in> set others \<Longrightarrow> I s \<Longrightarrow> I (f s)) \<Longrightarrow> keeps I (cond_wait c others)"
  by (cases others) (simp_all add: keeps_def)

text \<open>A part of the state the invariant does not look at.\<close>

lemma state_inv_simps [simp]:
  "state_inv (set_fsm x s) = state_inv s"
  "state_inv (emit es s) = state_inv s"
  "state_inv (set_msgCounter n s) = state_inv s"
  "state_inv (s\<lparr>threads := (threads s)\<lparr>stdoutMutex := x'\<rparr>\<rparr>) = state_inv s"
  by (simp_all add: state_inv_def buffers_def state_defs)

lemma keeps_setProgramState [keeps_intros]: "keeps state_inv (setProgramState x)"
  by (simp add: setProgramState_def keeps_modify)

lemma keeps_cond_signal [keeps_intros]: "keeps state_inv (cond_signal c)"
  by (simp add: cond_signal_def keeps_modify)

lemma keeps_emit [keeps_intros]: "keeps state_inv (modify (emit es))"
  by (simp add: keeps_modify)

lemma keeps_set_msgCounter [keeps_intros]: "keeps state_inv (modify (set_msgCounter n))"
  by (simp add: keeps_modify)

lemma keeps_safePrint [keeps_intros]:
  "keeps state_inv (safePrintStderr t)" "keeps state_inv (safePrintStdout t)"
  by (simp_all add: keeps_def safePrintStderr_def safePrintStdout_def safePrint_def)

lemma keeps_stdout_mutex [keeps_intros]: "keeps state_inv lockStdout" "keeps state_inv unlockStdout"
  by (simp_all add: keeps_def lockStdout_def unlockStdout_def modify_def)

lemma queue_wf_locked:
  "queue_wf h (q\<lparr>q_locked := x\<rparr>) = queue_wf h q"
  "queue_addrs h (q\<lparr>q_locked := x\<rparr>) = queue_addrs h q"
  by (simp_all add: queue_wf_def queue_addrs_def represents_def)

lemma keeps_locks [keeps_intros]:
  "keeps state_inv lockSending" "keeps state_inv unlockSending"
  "keeps state_inv lockConfirmed" "keeps state_inv unlockConfirmed"
  by (auto simp: keeps_def lockSending_def unlockSending_def lockConfirmed_def unlockConfirmed_def
      queueLock_def queueUnlock_def bind_prog_def lift_res_def modify_def state_inv_def buffers_def
      state_defs queues_wf_def queue_wf_locked split: option.splits res.splits)

section \<open>The queues\<close>

text \<open>A change of one queue that only touches its own messages and a fresh one, and frees the messages
  it drops.\<close>

definition queue_step :: "heap \<Rightarrow> addr list \<Rightarrow> heap \<Rightarrow> MessageQueue \<Rightarrow> bool" where
  "queue_step h as h' q' \<longleftrightarrow>
     (\<exists>cs. represents h' q' cs \<and> heap_frame as h h' \<and> set cs \<subseteq> insert (next_addr h) (set as) \<and>
        dom (cells h') \<subseteq> set cs \<union> (dom (cells h) - set as))"

lemma queue_stepI:
  "represents h' q' cs \<Longrightarrow> heap_frame as h h' \<Longrightarrow> set cs \<subseteq> insert (next_addr h) (set as) \<Longrightarrow>
     dom (cells h') \<subseteq> set cs \<union> (dom (cells h) - set as) \<Longrightarrow> queue_step h as h' q'"
  by (auto simp: queue_step_def)

definition sending_step :: "(heap \<Rightarrow> MessageQueue \<Rightarrow> (heap \<times> MessageQueue) res) \<Rightarrow> bool" where
  "sending_step f \<longleftrightarrow>
     (\<forall>h q as h' q'. represents h q as \<longrightarrow> f h q = Ok (h', q') \<longrightarrow> queue_step h as h' q')"

lemma queues_wf_step:
  assumes "sending_step f" "queues_wf h q q2" "f h q = Ok (h', q')"
  shows "queues_wf h' q' q2"
proof -
  obtain as bs where r: "represents h q as" "represents h q2 bs" "set as \<inter> set bs = {}"
    "dom (cells h) \<subseteq> set as \<union> set bs"
    using assms(2) by (auto simp: queues_wf_alt)
  obtain cs where cs: "represents h' q' cs" "heap_frame as h h'"
    "set cs \<subseteq> insert (next_addr h) (set as)" "dom (cells h') \<subseteq> set cs \<union> (dom (cells h) - set as)"
    using assms(1,3) r(1) unfolding sending_step_def queue_step_def by blast
  have "next_addr h \<notin> set bs" using r(2) by (auto simp: represents_def)
  then have "set cs \<inter> set bs = {}" using cs(3) r(3) by auto
  moreover have "dom (cells h') \<subseteq> set cs \<union> set bs" using cs(4) r(4) by blast
  ultimately show ?thesis
    using cs(1) represents_frame(1)[OF r(2) cs(2) r(3)] unfolding queues_wf_alt by blast
qed

lemma queues_wf_sym: "queues_wf h q q2 = queues_wf h q2 q"
  unfolding queues_wf_def by blast

lemma queues_wf_step2:
  "sending_step f \<Longrightarrow> queues_wf h q2 q \<Longrightarrow> f h q = Ok (h', q') \<Longrightarrow> queues_wf h' q2 q'"
  by (metis queues_wf_step queues_wf_sym)

lemma keeps_on_sending:
  assumes "sending_step f"
  shows "keeps state_inv (on_sending f)"
  using queues_wf_step[OF assms]
  by (auto simp: keeps_def on_sending_def bind_prog_def lift_res_def modify_def state_inv_def
      buffers_def state_defs split: res.splits)

lemma keeps_on_confirmed:
  assumes "sending_step f"
  shows "keeps state_inv (on_confirmed f)"
  using queues_wf_step2[OF assms]
  by (auto simp: keeps_def on_confirmed_def bind_prog_def lift_res_def modify_def state_inv_def
      buffers_def state_defs split: res.splits)

lemma keeps_on_memory:
  assumes "sending_step (\<lambda>h q. res_bind (f h q) (\<lambda>h. Ok (h, q)))"
  shows "keeps state_inv (on_memory f)"
  using queues_wf_step[OF assms]
  by (auto simp: keeps_def on_memory_def bind_prog_def lift_res_def modify_def state_inv_def
      buffers_def state_defs res_bind_eq_Ok split: res.splits)


text \<open>The operations of the queue are such changes.\<close>

lemma bufferCopy_wf:
  assumes "buffer_wf dst" "buffer_wf src" "bufferCopy alloc (Some dst) (Some src) = Ok b"
  shows "buffer_wf b"
proof -
  have lt: "used src < 2 ^ 64" using assms(2) by (simp add: buffer_wf_def)
  obtain d where d: "(if allocated dst < used src then bufferResize alloc dst (used src) else Ok dst) = Ok d"
    "res_bind (buf_copy_loop d src) (\<lambda>dst. Ok (dst\<lparr>used := used src\<rparr>)) = Ok b"
    using assms(3) by (auto simp: bufferCopy_def res_bind_eq_Ok)
  have wf: "buffer_wf d"
    using d(1) assms(1) bufferResize_wf[OF assms(1) lt] by (simp split: if_splits)
  have "used src \<le> allocated d"
    using d(1) by (auto simp: bufferResize_def split: if_splits)
  then obtain c where "buf_copy_loop d src = Ok c" "buffer_wf (c\<lparr>used := used src\<rparr>)"
    using buf_copy_loop_ok[OF wf assms(2)] by blast
  then show ?thesis using d(2) by simp
qed

lemma createMessage_wf:
  "buffer_wf b \<Longrightarrow> createMessage alloc b flags = Ok m \<Longrightarrow> message_wf m"
  by (auto simp: createMessage_def message_wf_def res_bind_eq_Ok split: if_splits
      intro: bufferCopy_wf[OF buffer_wf_init])

lemma step_add: "buffer_wf b \<Longrightarrow> sending_step (\<lambda>h q. queueAddMessage alloc h (Some q) b f t)"
  unfolding sending_step_def
proof (intro allI impI)
  fix h q as h' q'
  assume b: "buffer_wf b" and r: "represents h q as"
    and ok: "queueAddMessage alloc h (Some q) b f t = Ok (h', q')"
  obtain m where m: "createMessage alloc b f = Ok m"
    using ok by (auto simp: queueAddMessage_def res_bind_eq_Ok)
  let ?m = "m\<lparr>behindMe := None, mtype := t\<rparr>"
  have "message_wf ?m" using createMessage_wf[OF b m] by simp
  then have "represents (snoc_heap h as ?m) (snoc_queue h q) (as @ [next_addr h])"
    by (intro snoc_represents[OF r]) simp_all
  moreover have "h' = snoc_heap h as ?m" "q' = snoc_queue h q"
    using queueAddMessage_eval[OF r m, of t] ok by simp_all
  moreover have "dom (cells (snoc_heap h as ?m)) \<subseteq> insert (next_addr h) (dom (cells h))"
    by (auto simp: snoc_heap_def split: if_splits)
  ultimately show "queue_step h as h' q'"
    using heap_frame_snoc[of as h ?m] by (intro queue_stepI[of _ _ "as @ [next_addr h]"]) auto
qed

lemma step_push:
  assumes "message_wf m" "represents h q as" "push_front h q m = Ok (h', q')"
  shows "queue_step h as h' q'"
proof (rule queue_stepI)
  show "represents h' q' (next_addr h # as)" "heap_frame as h h'"
    using push_front_ok[OF assms(2,1)] assms(3) by (auto simp: heap_frame_def)
  have "dom (cells h') = insert (next_addr h) (dom (cells h))"
    using assms(3) by (auto simp: push_front_def heap_new_def heap_upd_def deref_def heap_put_def Let_def)
  then show "dom (cells h') \<subseteq> set (next_addr h # as) \<union> (dom (cells h) - set as)" by auto
qed auto

lemma step_priority:
  "buffer_wf b \<Longrightarrow> sending_step (\<lambda>h q. queueAddMessagePriority alloc h (Some q) b f t)"
  unfolding sending_step_def
proof (intro allI impI)
  fix h q as h' q'
  assume b: "buffer_wf b" and r: "represents h q as"
    and "queueAddMessagePriority alloc h (Some q) b f t = Ok (h', q')"
  then obtain m where m: "createMessage alloc b f = Ok m" "push_front h q (m\<lparr>mtype := t\<rparr>) = Ok (h', q')"
    by (auto simp: queueAddMessagePriority_def res_bind_eq_Ok)
  then show "queue_step h as h' q'"
    using createMessage_wf[OF b m(1)] by (intro step_push[OF _ r m(2)]) simp
qed

lemma step_onlyID: "sending_step (\<lambda>h q. queueAddMessageOnlyID alloc h (Some q) b t)"
  unfolding sending_step_def
  by (auto simp: queueAddMessageOnlyID_def res_bind_eq_Ok message_wf_def split: if_splits
      intro!: step_push)

lemma step_pop: "sending_step (\<lambda>h q. queuePopMessage h (Some q))"
  unfolding sending_step_def
proof (intro allI impI)
  fix h q as h' q'
  assume r: "represents h q as" and pop: "queuePopMessage h (Some q) = Ok (h', q')"
  have "represents h' q' (tl as)" "heap_frame as h h'"
    using queuePopMessage_ok[OF r] pop by auto
  moreover have "dom (cells h') \<subseteq> set (tl as) \<union> (dom (cells h) - set as)"
    using queuePopMessage_Cons[of h q "hd as" "tl as"] queuePopMessage_empty[of q h] r pop
    by (cases as) (auto simp: heap_free_def represents_def split: if_splits)
  moreover have "set (tl as) \<subseteq> set as" by (cases as) auto
  ultimately show "queue_step h as h' q'" by (intro queue_stepI[of _ _ "tl as"]) auto
qed

lemma step_popAll: "sending_step (\<lambda>h q. queuePopAllMessages h (Some q))"
  unfolding sending_step_def
proof (intro allI impI)
  fix h q as h' q'
  assume r: "represents h q as" and "queuePopAllMessages h (Some q) = Ok (h', q')"
  then have "represents h' q' []" "h' = free_all h as"
    using queuePopAllMessages_ok[OF r] by auto
  then show "queue_step h as h' q'"
    using heap_frame_free_all[of as h]
    by (intro queue_stepI[of _ _ "[]"]) (auto simp: free_all_def split: if_splits)
qed

text \<open>An update of the first message that keeps its link and its well-formedness.\<close>

lemma step_upd_first:
  assumes "\<And>m. message_wf m \<Longrightarrow> message_wf (g m) \<and> behindMe (g m) = behindMe m"
    and "represents h q as" "heap_upd h (q_first q) g = Ok h'"
  shows "queue_step h as h' q"
proof (cases as)
  case Nil
  then show ?thesis
    using assms(2,3) by (simp add: heap_upd_def deref_def)
next
  case (Cons a as')
  then obtain m where m: "cells h a = Some m" "message_wf m"
    using assms(2) by (auto elim: represents_cell[of _ _ _ a])
  have r: "represents h q (a # as')" using assms(2) Cons by simp
  have "h' = heap_put h a (g m)" "represents (heap_put h a (g m)) q (a # as')"
    "heap_frame [a] h (heap_put h a (g m))"
    using upd_first_ok[OF r m(1), of g] assms(1)[OF m(2)] assms(3) by auto
  then show ?thesis
    using Cons m(1) by (intro queue_stepI[of _ _ "a # as'"]) (auto simp: heap_frame_def heap_put_def)
qed

lemma step_same: "represents h q as \<Longrightarrow> queue_step h as h q"
  by (rule queue_stepI) (auto simp: heap_frame_def)

lemma keeps_setFlags [keeps_intros]: "keeps state_inv (setFirstFlags f)"
  unfolding setFirstFlags_def
  by (rule keeps_on_memory) (auto simp: sending_step_def queueSetMessageFlags_def res_bind_eq_Ok
      intro!: step_same step_upd_first[of "\<lambda>m. m\<lparr>msgFlags := f\<rparr>"])

lemma keeps_messageSended [keeps_intros]: "keeps state_inv (on_memory (\<lambda>h q. queueMessageSended h (Some q)))"
  by (rule keeps_on_memory) (auto simp: sending_step_def queueMessageSended_def res_bind_eq_Ok
      intro!: step_upd_first[of "\<lambda>m. m\<lparr>u_high := u_high m + 1\<rparr>"])

lemmas queue_keeps [keeps_intros] =
  keeps_on_sending[OF step_pop] keeps_on_sending[OF step_popAll] keeps_on_sending[OF step_add]
  keeps_on_sending[OF step_priority] keeps_on_confirmed[OF step_onlyID]

lemma buf_write_wf: "buffer_wf b \<Longrightarrow> buf_write b i c = Ok b' \<Longrightarrow> buffer_wf b'"
  by (auto simp: buf_write_def buffer_wf_def split: option.splits if_splits)

lemma keeps_setMessageID [keeps_intros]:
  "keeps state_inv (on_memory (\<lambda>h q. queueSetMessageID h (Some q) n))"
proof (rule keeps_on_memory, unfold sending_step_def, intro allI impI)
  fix h q as h1 q1
  assume r: "represents h q as"
    and ok: "res_bind (queueSetMessageID h (Some q) n) (\<lambda>h. Ok (h, q)) = Ok (h1, q1)"
  have [simp]: "q1 = q" and set: "queueSetMessageID h (Some q) n = Ok h1"
    using ok by (auto simp: res_bind_eq_Ok)
  show "queue_step h as h1 q1"
  proof (cases "h1 = h")
    case True
    then show ?thesis using step_same[OF r] by simp
  next
    case False
    then obtain a m b b1 b2 c1 c2 where "q_first q = Some a" "cells h a = Some m" "m_buffer m = Some b"
      "buf_write b HIGHER_MSGID_BYTE_POSTION c1 = Ok b1" "buf_write b1 LOWER_MSGID_BYTE_POSTION c2 = Ok b2"
      and upd: "heap_upd h (q_first q) (\<lambda>m. m\<lparr>m_buffer := Some b2\<rparr>) = Ok h1"
      using set by (auto simp: queueSetMessageID_def res_bind_eq_Ok msg_buffer_def deref_def Let_def
          split: if_splits option.splits prod.splits)
    moreover have "a \<in> set as" using r \<open>q_first q = Some a\<close> represents_first[OF r] by (cases as) auto
    then have "message_wf m"
      using \<open>cells h a = Some m\<close> by (auto elim: represents_cell[OF r])
    then have "buffer_wf b" using \<open>m_buffer m = Some b\<close> by (simp add: message_wf_def)
    ultimately have "buffer_wf b2" using buf_write_wf by blast
    then show ?thesis
      using step_upd_first[OF _ r upd] by (simp add: message_wf_def)
  qed
qed


section \<open>The buffers\<close>

lemma bufferResize_keeps:
  "sane alloc \<Longrightarrow> buf_ok b \<Longrightarrow> bufferResize alloc b n = Ok b' \<Longrightarrow> buf_ok b' \<and> n \<le> allocated b'"
  by (auto simp: bufferResize_def buf_ok_def buffer_wf_def sane_def split: if_splits option.splits)

lemma buf_write_keeps:
  "buf_ok b \<Longrightarrow> buf_write b i c = Ok b' \<Longrightarrow> buf_ok b' \<and> allocated b' = allocated b \<and> i < allocated b'"
  by (auto simp: buf_write_def buf_ok_def buffer_wf_def split: option.splits if_splits)

text \<open>The position of the appending macros stays inside the buffer.\<close>

definition fits :: "outbuf \<Rightarrow> bool" where
  "fits = (\<lambda>(b, pos). buf_ok b \<and> data b \<noteq> None \<and> pos \<le> allocated b)"

definition keeps_fit :: "(outbuf \<Rightarrow> outbuf res) \<Rightarrow> bool" where
  "keeps_fit f \<longleftrightarrow> (\<forall>out out'. fits out \<longrightarrow> f out = Ok out' \<longrightarrow> fits out')"

lemma copy_bytes_bounds:
  assumes "copy_bytes dst d src s n = Ok dst'"
  shows "length dst' = length dst \<and> (n = 0 \<or> d + n \<le> length dst)"
proof (cases "n = 0")
  case True
  then show ?thesis using assms by simp
next
  case False
  then have "s + n \<le> length src \<and> d + n \<le> length dst"
    using assms copy_bytes_fault[of s n src d dst] by (cases "s + n \<le> length src \<and> d + n \<le> length dst") simp_all
  then show ?thesis using assms by (auto simp: copy_bytes_ok)
qed

lemma stringReplace_fits:
  assumes "stringReplace (data b) pos p n = Ok d" "fits (b, pos)" "p = None \<longrightarrow> n = 0"
  shows "fits (b\<lparr>data := d\<rparr>, size_add pos n)"
proof -
  obtain m where m: "data b = Some m" "length m = allocated b" "allocated b < 2 ^ 62"
    "pos \<le> allocated b" "used b \<le> allocated b" "0 < allocated b"
    using assms(2) by (auto simp: fits_def buf_ok_def buffer_wf_def)
  obtain m' where m': "d = Some m'" "length m' = length m" "n = 0 \<or> pos + n \<le> length m"
    using assms(1,3) m(1) copy_bytes_bounds
    by (cases p) (fastforce simp: stringReplace_def res_bind_eq_Ok)+
  then have "size_add pos n = pos + n" "pos + n \<le> allocated b"
    using m by (auto simp: size_add_def)
  then show ?thesis
    using m m' by (simp add: fits_def buf_ok_def buffer_wf_def)
qed

lemma fit_block: "(bb_start blk = None \<longrightarrow> bb_len blk = 0) \<Longrightarrow> keeps_fit (ADD_BLOCK_TO_BUFFER blk)"
  by (auto simp: keeps_fit_def ADD_BLOCK_TO_BUFFER_def res_bind_eq_Ok intro!: stringReplace_fits)

lemma fit_stored: "buffer_wf src \<Longrightarrow> keeps_fit (ADD_STORED_INFO_TO_BUFFER src)"
  by (auto simp: keeps_fit_def ADD_STORED_INFO_TO_BUFFER_def res_bind_eq_Ok buf_ptr_def buffer_wf_def
      intro!: stringReplace_fits split: option.splits)

lemma fit_string: "keeps_fit (ADD_STRING_TO_BUFFER s)"
  by (auto simp: keeps_fit_def ADD_STRING_TO_BUFFER_def res_bind_eq_Ok literal_def
      intro!: stringReplace_fits)

lemma fit_zero: "keeps_fit ADD_ZERO_BYTE"
proof -
  have "fits (b', size_add pos 1)" if "fits (b, pos)" "buf_write b pos 0 = Ok b'" for b b' pos
  proof -
    have b': "buf_ok b'" "allocated b' = allocated b" "pos < allocated b'"
      using that buf_write_keeps[of b pos 0 b'] by (simp_all add: fits_def)
    moreover have "data b' \<noteq> None"
      using that(2) by (auto simp: buf_write_def split: option.splits if_splits)
    moreover have "size_add pos 1 = pos + 1"
      using b'(1,3) by (intro size_add_small) (simp add: buf_ok_def)
    ultimately show ?thesis by (simp add: fits_def)
  qed
  then show ?thesis
    by (auto simp: keeps_fit_def ADD_ZERO_BYTE_def res_bind_eq_Ok)
qed

lemma fit_appends: "(\<And>f. f \<in> set fs \<Longrightarrow> keeps_fit f) \<Longrightarrow> keeps_fit (appends fs)"
proof (induction fs)
  case Nil
  then show ?case by (simp add: keeps_fit_def)
next
  case (Cons f fs)
  then have f: "keeps_fit f" and fs: "keeps_fit (appends fs)" by simp_all
  show ?case
    unfolding keeps_fit_def
  proof (intro allI impI)
    fix out out'
    assume "fits out" "appends (f # fs) out = Ok out'"
    then obtain mid where "f out = Ok mid" "appends fs mid = Ok out'" "fits mid"
      using f by (auto simp: res_bind_eq_Ok keeps_fit_def simp del: split_paired_All split_paired_Ex)
    then show "fits out'" using fs by (simp add: keeps_fit_def del: split_paired_All)
  qed
qed

lemma fits_used: "fits (b, n) \<Longrightarrow> buf_ok (b\<lparr>used := n\<rparr>)"
  by (auto simp: fits_def buf_ok_def buffer_wf_def)

text \<open>The blocks the threads assemble messages from: a null block is empty (the pointers of a CONFIRM are
  checked when they are read), and the lengths of the
  words are far below the limits of \<open>size_t\<close>; the command word alone can have the length that stands for
  \<open>-1\<close>.\<close>

definition pb_ok :: "ProtocolBlocks \<Rightarrow> bool" where
  "pb_ok pb \<longleftrightarrow>
     (uchar2CommandType (pb_type pb) \<noteq> cmd_CONF \<longrightarrow>
        (\<forall>blk \<in> {zeroth pb, first pb, second pb, third pb}. bb_start blk = None \<longrightarrow> bb_len blk = 0)) \<and>
     bb_len (first pb) + bb_len (second pb) + bb_len (third pb) < 2 ^ 20 \<and>
     (bb_len (zeroth pb) < 2 ^ 62 \<or> bb_len (zeroth pb) = 2 ^ 64 - 1)"

lemma pb_ok_size:
  assumes "pb_ok pb" "k \<in> {1, 10}"
  shows "k - 1 \<le> size_add (sum_of_lengths pb) k" "size_add (sum_of_lengths pb) k < 2 ^ 62 + 2 ^ 21"
proof -
  let ?r = "bb_len (first pb) + bb_len (second pb) + bb_len (third pb)"
  let ?z = "bb_len (zeroth pb)"
  have sum: "sum_of_lengths pb = (?z + ?r) mod 2 ^ 64"
    by (simp add: sum_of_lengths_def size_add_def mod_add_left_eq add.assoc)
  have eq: "size_add (sum_of_lengths pb) k = (?z + ?r + k) mod 2 ^ 64"
    unfolding sum size_add_def by (simp add: mod_add_left_eq)
  have r: "?r < 2 ^ 20" "?z < 2 ^ 62 \<or> ?z = 2 ^ 64 - 1" using assms(1) by (simp_all add: pb_ok_def)
  then consider "?z < 2 ^ 62" | "?z + ?r + k = 2 ^ 64 + (?r + k - 1)" using assms(2) by auto
  then have "(?z + ?r + k) mod 2 ^ 64 = ?z + ?r + k \<and> ?z < 2 ^ 62 \<or>
      (?z + ?r + k) mod 2 ^ 64 = ?r + k - 1"
    by cases (use r(1) assms(2) in auto)
  then show "k - 1 \<le> size_add (sum_of_lengths pb) k" "size_add (sum_of_lengths pb) k < 2 ^ 62 + 2 ^ 21"
    unfolding eq using r(1) assms(2) by auto
qed

end
