(* ===== verification/Chat_Invariant_Threads.thy ===== *)
theory Chat_Invariant_Threads
  imports Chat_Invariant
begin

text \<open>
  The functions of the three threads keep the invariant of the shared state: bottom up, first
  the assembling of messages, then the receiver, the sender, the error handler and the main thread.
\<close>

section \<open>Assembling\<close>

lemma bufferResize_mono: "bufferResize alloc b n = Ok b' \<Longrightarrow> allocated b \<le> allocated b'"
  by (auto simp: bufferResize_def split: if_splits)

lemma buf_ok_data: "buf_ok b \<Longrightarrow> 0 < allocated b \<Longrightarrow> data b \<noteq> None"
  by (auto simp: buf_ok_def buffer_wf_def split: option.splits)

lemma buf_ok_used: "buf_ok b \<Longrightarrow> n \<le> allocated b \<Longrightarrow> buf_ok (b\<lparr>used := n\<rparr>)"
  by (auto simp: buf_ok_def buffer_wf_def split: option.splits)

lemma fits_appends:
  assumes "appends fs out = Ok out'" "fits out" "\<And>f. f \<in> set fs \<Longrightarrow> keeps_fit f"
  shows "fits out'"
  using fit_appends[OF assms(3)] assms(1,2) unfolding keeps_fit_def by blast

text \<open>The blocks of well-behaved protocol blocks.\<close>

lemma pb_ok_blocks:
  assumes "pb_ok pb" "uchar2CommandType (pb_type pb) \<noteq> cmd_CONF"
  shows "keeps_fit (ADD_BLOCK_TO_BUFFER (zeroth pb))" "keeps_fit (ADD_BLOCK_TO_BUFFER (first pb))"
    "keeps_fit (ADD_BLOCK_TO_BUFFER (second pb))" "keeps_fit (ADD_BLOCK_TO_BUFFER (third pb))"
  using assms by (auto simp: pb_ok_def intro!: fit_block)

lemmas fit_rules = pb_ok_blocks fit_zero fit_string fit_stored

lemma assembleUDP_keeps:
  assumes "sane alloc" "pb_ok pb" "buf_ok b" "buf_ok (displayName cd)"
    and res: "assembleProtocolUDP alloc cd pb b = Ok (r, pb', b', t)"
  shows "buf_ok b'"
proof -
  obtain b1 where b1: "bufferResize alloc b (size_add (sum_of_lengths pb) 10) = Ok b1"
    using res by (auto simp: assembleProtocolUDP_def res_bind_eq_Ok Let_def)
  have ok1: "buf_ok b1" "9 \<le> allocated b1"
    using bufferResize_keeps[OF assms(1,3) b1] pb_ok_size(1)[OF assms(2), of 10] by auto
  have start: "fits (b3, 3)" if w: "buf_write b1 0 c = Ok b2" and r: "bufferResize alloc b2 n = Ok b3"
    for c b2 n b3
  proof -
    have "buf_ok b2" "9 \<le> allocated b2" using buf_write_keeps[OF ok1(1) w] ok1(2) by auto
    then have "buf_ok b3" "9 \<le> allocated b3"
      using bufferResize_keeps[OF assms(1) _ r] bufferResize_mono[OF r] by auto
    then show ?thesis using buf_ok_data[of b3] by (auto simp: fits_def)
  qed
  have wr: "buf_ok y \<and> 3 \<le> allocated y" if "buf_ok x \<and> 3 \<le> allocated x" "buf_write x i c = Ok y" for x y i c
    using that buf_write_keeps[of x i c y] by simp
  have run: "fits out'"
    if "appends fs out = Ok out'" "fits out" "set fs \<subseteq> {f. keeps_fit f}" for fs out out'
    using fits_appends[OF that(1,2)] that(3) by auto
  have stored: "keeps_fit (ADD_STORED_INFO_TO_BUFFER (displayName cd))"
    using assms(4) by (intro fit_stored) (simp add: buf_ok_def)
  note step = run[OF _ start] run
  note facts = stored fit_zero pb_ok_blocks[OF assms(2)]
  have finish: "buf_ok b'"
    if "buf_write b1 0 c = Ok b2" "bufferResize alloc b2 n = Ok b3"
      "b' = b3 \<or> (\<exists>b5 p'. appends fs (b3, 3) = Ok (b5, p') \<and> b' = b5\<lparr>used := p'\<rparr>)"
      "set fs \<subseteq> {f. keeps_fit f}" for c b2 n b3 fs
  proof -
    have "fits (b3, 3)" using start[OF that(1,2)] .
    then show ?thesis
      using that(3) run[OF _ _ that(4)] fits_used by (auto simp del: appends.simps) (auto simp: fits_def)
  qed
  let ?named = "[ADD_STORED_INFO_TO_BUFFER (displayName cd), ADD_ZERO_BYTE,
    ADD_BLOCK_TO_BUFFER (zeroth pb), ADD_ZERO_BYTE]"
  show ?thesis
  proof (cases "uchar2CommandType (pb_type pb)")
    case cmd_AUTH
    then show ?thesis
      using res b1 by (auto simp: assembleProtocolUDP_def res_bind_eq_Ok Let_def facts
          dest!: step(1) intro: fits_used simp del: appends.simps)
  next
    case cmd_JOIN
    let ?stored = "[ADD_STORED_INFO_TO_BUFFER (displayName cd), ADD_ZERO_BYTE]"
    obtain b2 b3 b4 p where 4: "buf_write b1 0 3 = Ok b2"
      "bufferResize alloc b2 (size_add (size_add (sum_of_lengths pb) 10) (used (channelID cd))) = Ok b3"
      "appends [ADD_BLOCK_TO_BUFFER (first pb), ADD_ZERO_BYTE] (b3, 3) = Ok (b4, p)"
      "b' = b4 \<or> (\<exists>b5 p'. appends ?stored (b4, p) = Ok (b5, p') \<and> b' = b5\<lparr>used := p'\<rparr>)"
      using res b1 cmd_JOIN
      by (cases "data (displayName cd)")
        (auto simp: assembleProtocolUDP_def res_bind_eq_Ok Let_def simp del: appends.simps)
    have fits4: "fits (b4, p)" using step(1)[OF 4(3) 4(1,2)] facts cmd_JOIN by simp
    have "fits (b5, p')" if "appends ?stored (b4, p) = Ok (b5, p')" for b5 p'
      using run[OF that fits4] facts by simp
    then show ?thesis
      using 4(4) fits4 fits_used by (auto simp del: appends.simps) (auto simp: fits_def)
  next
    case cmd_CONF
    then obtain low high b2 b3 b4 where 4: "buf_write b1 0 0 = Ok b2" "buf_write b2 1 low = Ok b3"
      "buf_write b3 2 high = Ok b4" "b' = b4\<lparr>used := 3\<rparr>"
      using res b1 by (auto simp: assembleProtocolUDP_def res_bind_eq_Ok Let_def)
    have "buf_ok b4 \<and> 3 \<le> allocated b4"
      using wr[OF wr[OF wr[OF _ 4(1)] 4(2)] 4(3)] ok1 by simp
    then show ?thesis using 4(4) buf_ok_used by simp
  next
    case cmd_EXIT
    then obtain b2 where 2: "buf_write b1 0 0xFF = Ok b2" "b' = b2\<lparr>used := 3\<rparr>"
      using res b1 by (auto simp: assembleProtocolUDP_def res_bind_eq_Ok Let_def)
    show ?thesis using wr[OF _ 2(1)] ok1 2(2) buf_ok_used by simp
  next
    case cmd_MSG
    obtain b2 b3 c n where "buf_write b1 0 c = Ok b2" "bufferResize alloc b2 n = Ok b3"
      "b' = b3 \<or> (\<exists>b5 p'. appends ?named (b3, 3) = Ok (b5, p') \<and> b' = b5\<lparr>used := p'\<rparr>)"
      using res b1 cmd_MSG
      by (cases "data (displayName cd)")
        (auto simp: assembleProtocolUDP_def res_bind_eq_Ok Let_def simp del: appends.simps)
    then show ?thesis by (rule finish) (use facts cmd_MSG in simp)
  next
    case cmd_ERR
    obtain b2 b3 c n where "buf_write b1 0 c = Ok b2" "bufferResize alloc b2 n = Ok b3"
      "b' = b3 \<or> (\<exists>b5 p'. appends ?named (b3, 3) = Ok (b5, p') \<and> b' = b5\<lparr>used := p'\<rparr>)"
      using res b1 cmd_ERR
      by (cases "data (displayName cd)")
        (auto simp: assembleProtocolUDP_def res_bind_eq_Ok Let_def simp del: appends.simps)
    then show ?thesis by (rule finish) (use facts cmd_ERR in simp)
  qed (use res b1 in \<open>simp_all add: assembleProtocolUDP_def Let_def\<close>)
qed


lemma assembleTCP_size:
  assumes "pb_ok pb" "m < 100" "u < 2 ^ 62" "0 < m"
  shows "0 < size_add (size_add (size_add (size_add (sum_of_lengths pb) 1) m) u) 2"
proof -
  let ?e = "size_add (sum_of_lengths pb) 1"
  have e: "?e < 2 ^ 62 + 2 ^ 21" using pb_ok_size(2)[OF assms(1), of 1] by simp
  have "size_add ?e m = ?e + m" using e assms(2) by (intro size_add_small) simp
  moreover have "size_add (?e + m) u = ?e + m + u" using e assms(2,3) by (intro size_add_small) simp
  moreover have "size_add (?e + m + u) 2 = ?e + m + u + 2" using e assms(2,3) by (intro size_add_small) simp
  ultimately show ?thesis by simp
qed

lemma assembleTCP_keeps:
  assumes "sane alloc" "pb_ok pb" "buf_ok b" "buf_ok (displayName cd)" "buf_ok (channelID cd)"
    and res: "assembleProtocolTCP alloc cd pb b = Ok (r, pb', b', t)"
  shows "buf_ok b'"
proof -
  have used: "used (displayName cd) < 2 ^ 62" "used (channelID cd) < 2 ^ 62"
    using assms(4,5) by (auto simp: buf_ok_def buffer_wf_def)
  have zero: "size_add (size_add e m) 2 = size_add (size_add (size_add e m) 0) 2" for e m
    by (simp add: size_add_def)
  note sizes = assembleTCP_size[OF assms(2) _ used(1)] assembleTCP_size[OF assms(2) _ used(2)]
    assembleTCP_size[OF assms(2), of _ 0, folded zero]
  have finish: "buf_ok b'"
    if n: "bufferResize alloc b n = Ok b1"
      "b' = b1 \<or> (\<exists>out b5 p'. appends fs (b1, 0) = Ok out \<and>
         ADD_STRING_TO_BUFFER [CHR 0x0D, CHR 0x0A] out = Ok (b5, p') \<and> b' = b5\<lparr>used := p'\<rparr>)"
      "0 < n"
      and fs: "set fs \<subseteq> {f. keeps_fit f}" for n b1 fs
  proof -
    have b1: "buf_ok b1" "0 < allocated b1" using bufferResize_keeps[OF assms(1,3) n(1)] n(3) by auto
    then have "fits (b1, 0)" using buf_ok_data[of b1] by (auto simp: fits_def)
    then have "fits (b5, p')" if "appends fs (b1, 0) = Ok out"
      "ADD_STRING_TO_BUFFER [CHR 0x0D, CHR 0x0A] out = Ok (b5, p')" for out b5 p'
      using fits_appends[OF that(1)] fs fit_string[unfolded keeps_fit_def] that(2) by blast
    then show ?thesis using n(2) b1(1) fits_used by blast
  qed
  have stored: "keeps_fit (ADD_STORED_INFO_TO_BUFFER (displayName cd))"
    "keeps_fit (ADD_STORED_INFO_TO_BUFFER (channelID cd))"
    using assms(4,5) by (auto simp: buf_ok_def intro!: fit_stored)
  note facts = stored fit_string pb_ok_blocks[OF assms(2)]
  let ?e = "size_add (sum_of_lengths pb) 1"
  show ?thesis
  proof (cases "uchar2CommandType (pb_type pb)")
    case cmd_AUTH
    obtain b1 where "bufferResize alloc b (size_add (size_add ?e 16) 2) = Ok b1"
      "b' = b1 \<or> (\<exists>out b5 p'. appends
        [ADD_STRING_TO_BUFFER ''AUTH '', ADD_BLOCK_TO_BUFFER (first pb), ADD_STRING_TO_BUFFER '' AS '',
         ADD_BLOCK_TO_BUFFER (third pb), ADD_STRING_TO_BUFFER '' USING '', ADD_BLOCK_TO_BUFFER (second pb)] (b1, 0) = Ok out \<and>
        ADD_STRING_TO_BUFFER [CHR 0x0D, CHR 0x0A] out = Ok (b5, p') \<and> b' = b5\<lparr>used := p'\<rparr>)"
      using res cmd_AUTH
      by (cases "data (displayName cd)")
        (fastforce simp: assembleProtocolTCP_def res_bind_eq_Ok Let_def simp del: appends.simps)+
    then show ?thesis by (rule finish) (use sizes facts cmd_AUTH in auto)
  next
    case cmd_JOIN
    obtain b1 where "bufferResize alloc b (size_add (size_add (size_add ?e 9) (used (channelID cd))) 2) = Ok b1"
      "b' = b1 \<or> (\<exists>out b5 p'. appends
        [ADD_STRING_TO_BUFFER ''JOIN '', ADD_STORED_INFO_TO_BUFFER (channelID cd),
         ADD_STRING_TO_BUFFER '' AS '', ADD_STORED_INFO_TO_BUFFER (displayName cd)] (b1, 0) = Ok out \<and>
        ADD_STRING_TO_BUFFER [CHR 0x0D, CHR 0x0A] out = Ok (b5, p') \<and> b' = b5\<lparr>used := p'\<rparr>)"
      using res cmd_JOIN
      by (cases "data (displayName cd)")
        (fastforce simp: assembleProtocolTCP_def res_bind_eq_Ok Let_def simp del: appends.simps)+
    then show ?thesis by (rule finish) (use sizes facts cmd_JOIN in auto)
  next
    case cmd_EXIT
    obtain b1 where "bufferResize alloc b (size_add (size_add ?e 3) 2) = Ok b1"
      "b' = b1 \<or> (\<exists>out b5 p'. appends
        [ADD_STRING_TO_BUFFER ''BYE''] (b1, 0) = Ok out \<and>
        ADD_STRING_TO_BUFFER [CHR 0x0D, CHR 0x0A] out = Ok (b5, p') \<and> b' = b5\<lparr>used := p'\<rparr>)"
      using res cmd_EXIT
      by (cases "data (displayName cd)")
        (fastforce simp: assembleProtocolTCP_def res_bind_eq_Ok Let_def simp del: appends.simps)+
    then show ?thesis by (rule finish) (use sizes facts cmd_EXIT in auto)
  next
    case cmd_MSG
    obtain b1 where "bufferResize alloc b (size_add (size_add (size_add ?e 13) (used (displayName cd))) 2) = Ok b1"
      "b' = b1 \<or> (\<exists>out b5 p'. appends
        [ADD_STRING_TO_BUFFER ''MSG FROM '', ADD_STORED_INFO_TO_BUFFER (displayName cd),
         ADD_STRING_TO_BUFFER '' IS '', ADD_BLOCK_TO_BUFFER (zeroth pb)] (b1, 0) = Ok out \<and>
        ADD_STRING_TO_BUFFER [CHR 0x0D, CHR 0x0A] out = Ok (b5, p') \<and> b' = b5\<lparr>used := p'\<rparr>)"
      using res cmd_MSG
      by (cases "data (displayName cd)")
        (fastforce simp: assembleProtocolTCP_def res_bind_eq_Ok Let_def simp del: appends.simps)+
    then show ?thesis by (rule finish) (use sizes facts cmd_MSG in auto)
  next
    case cmd_ERR
    obtain b1 where "bufferResize alloc b (size_add (size_add (size_add ?e 13) (used (displayName cd))) 2) = Ok b1"
      "b' = b1 \<or> (\<exists>out b5 p'. appends
        [ADD_STRING_TO_BUFFER ''ERR FROM '', ADD_STORED_INFO_TO_BUFFER (displayName cd),
         ADD_STRING_TO_BUFFER '' IS '', ADD_BLOCK_TO_BUFFER (zeroth pb)] (b1, 0) = Ok out \<and>
        ADD_STRING_TO_BUFFER [CHR 0x0D, CHR 0x0A] out = Ok (b5, p') \<and> b' = b5\<lparr>used := p'\<rparr>)"
      using res cmd_ERR
      by (cases "data (displayName cd)")
        (fastforce simp: assembleProtocolTCP_def res_bind_eq_Ok Let_def simp del: appends.simps)+
    then show ?thesis by (rule finish) (use sizes facts cmd_ERR in auto)
  qed (use res in \<open>simp_all add: assembleProtocolTCP_def Let_def\<close>)
qed

section \<open>The receiver\<close>

lemma keeps_prod [keeps_intros]: "(\<And>a b. keeps I (f a b)) \<Longrightarrow> keeps I (case x of (a, b) \<Rightarrow> f a b)"
  by (cases x) simp

lemma keeps_option [keeps_intros]:
  "keeps I m \<Longrightarrow> (\<And>a. keeps I (f a)) \<Longrightarrow> keeps I (case x of None \<Rightarrow> m | Some a \<Rightarrow> f a)"
  by (cases x) simp_all

lemma state_inv_bufs:
  assumes "state_inv s"
  shows "buf_ok (out_get ob s)" "buffer_wf (out_get ob s)" "buf_ok (displayName (comDetails s))"
    "buf_ok (channelID (comDetails s))" "buf_ok (clientInput (cleanUp s))"
    "buf_ok (serverResponse (cleanUp s))" "buffer_wf (serverResponse (cleanUp s))"
  using assms by (cases ob; simp add: state_inv_def buffers_def buf_ok_def)+

lemma state_inv_out_set: "state_inv s \<Longrightarrow> buf_ok b \<Longrightarrow> state_inv (out_set ob b s)"
  by (cases ob) (simp_all add: state_inv_def buffers_def)

lemma keeps_resize_out: "sane alloc \<Longrightarrow> keeps state_inv (resize_out alloc ob n)"
  using bufferResize_keeps[OF _ state_inv_bufs(1)[of _ ob]]
  by (auto simp: keeps_def resize_out_def bind_prog_def lift_res_def modify_def
      split: res.splits intro!: state_inv_out_set)

lemma keeps_assemble:
  assumes "\<And>s r pb' b t. state_inv s \<Longrightarrow> f (comDetails s) pb (out_get ob s) = Ok (r, pb', b, t) \<Longrightarrow> buf_ok b"
  shows "keeps state_inv (assemble f ob pb)"
proof (rule keepsI)
  fix s assume I: "state_inv s"
  show "ensures state_inv (assemble f ob pb s)"
  proof (cases "f (comDetails s) pb (out_get ob s)")
    case (Ok x)
    obtain r pb' b t where x: "x = (r, pb', b, t)" by (cases x) auto
    have "state_inv (out_set ob b s)" using state_inv_out_set I assms[OF I] Ok x by simp
    moreover have "keeps state_inv (bind_prog (if t = [] then ret () else safePrintStderr t) (\<lambda>_. ret (r, pb')))"
      by (intro keeps_intros)
    ultimately show ?thesis
      using Ok x by (simp add: assemble_def bind_prog_run lift_res_run modify_run keepsD)
  qed (use I in \<open>simp_all add: assemble_def bind_prog_def lift_res_def\<close>)
qed

lemma keeps_assembleUDP: "sane alloc \<Longrightarrow> pb_ok pb \<Longrightarrow> keeps state_inv (assemble (assembleProtocolUDP alloc) ob pb)"
  by (rule keeps_assemble) (use assembleUDP_keeps state_inv_bufs in blast)

lemma keeps_assembleTCP: "sane alloc \<Longrightarrow> pb_ok pb \<Longrightarrow> keeps state_inv (assemble (assembleProtocolTCP alloc) ob pb)"
  by (rule keeps_assemble) (use assembleTCP_keeps state_inv_bufs in blast)

lemma keeps_assemble_variant:
  assumes "sane alloc" "pb_ok pb"
  shows "keeps state_inv (assemble_variant alloc ob pb)"
proof (rule keepsI)
  fix s assume I: "state_inv s"
  have "keeps state_inv (bind_prog (assemble (assembleProtocolUDP alloc) ob pb) (\<lambda>r. ret (Some r)))"
    "keeps state_inv (bind_prog (assemble (assembleProtocolTCP alloc) ob pb) (\<lambda>r. ret (Some r)))"
    by (intro keeps_intros keeps_assembleUDP keeps_assembleTCP assms)+
  then show "ensures state_inv (assemble_variant alloc ob pb s)"
    using I by (simp add: assemble_variant_def keepsD)
qed

text \<open>The blocks of the control messages.\<close>

lemma pb_ok_control:
  "pb_ok (confirm_blocks s)" "pb_ok (fresh_blocks c)"
  "length m < 2 ^ 62 \<Longrightarrow> pb_ok ((fresh_blocks c)\<lparr>zeroth := \<lparr>bb_start = literal m, bb_len = length m\<rparr>\<rparr>)"
  by (auto simp: pb_ok_def confirm_blocks_def fresh_blocks_def resetProtocolBlocks_def no_block_def literal_def uchar2CommandType_def)

lemma keeps_sendConfirm:
  assumes "sane alloc"
  shows "keeps state_inv (sendConfirm alloc flags)"
  unfolding sendConfirm_def
  by (intro keeps_bind[OF keeps_resize_out] keeps_asks_bind keeps_bind[OF keeps_assembleUDP] keeps_prod
      keeps_if keeps_errExit queue_keeps(4) pb_ok_control assms)
    (erule state_inv_bufs(2))

lemma keeps_sendBye:
  assumes "sane alloc"
  shows "keeps state_inv (sendBye alloc)"
  unfolding sendBye_def
  by (intro keeps_bind[OF keeps_locks(1)] keeps_bind[OF keeps_assemble_variant] keeps_asks_bind
      keeps_bind[OF queue_keeps(3)] keeps_locks pb_ok_control assms) (erule state_inv_bufs(2))

lemma keeps_sendError:
  assumes "sane alloc" "length message < 2 ^ 62"
  shows "keeps state_inv (sendError alloc ob message)"
  unfolding sendError_def
  by (intro keeps_bind[OF keeps_resize_out] keeps_bind[OF keeps_locks(1)]
      keeps_bind[OF keeps_assemble_variant] keeps_asks_bind keeps_option keeps_prod keeps_if
      keeps_errExit keeps_lift_res keeps_bind[OF queue_keeps(3)] keeps_locks pb_ok_control assms)
    (erule state_inv_bufs(2))

text \<open>An update of any message that keeps its link and its well-formedness.\<close>

lemma represents_upd:
  assumes "represents h q as" "heap_upd h p g = Ok h'"
    and "\<And>m. message_wf m \<Longrightarrow> message_wf (g m)" "\<And>m. behindMe (g m) = behindMe m"
  shows "represents h' q as" "dom (cells h') = dom (cells h)"
proof -
  obtain a m where a: "p = Some a" "cells h a = Some m" "h' = heap_put h a (g m)"
    using assms(2) by (auto simp: heap_upd_def deref_def res_bind_eq_Ok split: option.splits)
  have wf: "message_wf m'" if "b \<in> set as" "cells h b = Some m'" for b m'
    using represents_cell[OF assms(1) that(1)] that(2) by auto
  show "represents h' q as"
    unfolding a(3)
    by (rule represents_cong[OF assms(1)])
      (use a(2) assms(3,4) wf in \<open>auto simp: heap_put_def split: if_splits\<close>)
  show "dom (cells h') = dom (cells h)"
    unfolding a(3) using a(2) by (auto simp: heap_put_def)
qed

lemma keeps_upd:
  assumes "\<And>m. message_wf m \<Longrightarrow> message_wf (g m)" "\<And>m. behindMe (g m) = behindMe m"
  shows "keeps state_inv (on_memory (\<lambda>h q. heap_upd h p g))"
proof (rule keepsI)
  fix s assume I: "state_inv s"
  have "state_inv (s\<lparr>memory := h'\<rparr>)" if "heap_upd (memory s) p g = Ok h'" for h'
  proof -
    obtain as bs where r: "represents (memory s) (sending s) as"
      "represents (memory s) (confirmedMsgs s) bs" "set as \<inter> set bs = {}"
      "dom (cells (memory s)) \<subseteq> set as \<union> set bs"
      using I by (auto simp: state_inv_def queues_wf_alt)
    have "queues_wf h' (sending s) (confirmedMsgs s)"
      using represents_upd[OF r(1) that assms] represents_upd(1)[OF r(2) that assms] r(3,4)
      unfolding queues_wf_alt by blast
    then show ?thesis using I by (simp add: state_inv_def buffers_def)
  qed
  then show "ensures state_inv (on_memory (\<lambda>h q. heap_upd h p g) s)"
    using I by (auto simp: on_memory_def bind_prog_def lift_res_def modify_def split: res.splits)
qed

lemma keeps_fsm_case [keeps_intros]:
  assumes "\<And>x. keeps I (f x)"
  shows "keeps I (bind_prog getProgramState f)"
  by (intro keeps_bind keeps_getProgramState assms)

lemma keeps_handleConfirmUDP [keeps_intros]: "keeps state_inv (handleConfirmUDP msgID)"
  unfolding handleConfirmUDP_def
  by (intro keeps_intros keeps_upd) (auto split: fsm_t.splits intro!: keeps_intros)

lemma keeps_print_reply [keeps_intros]: "keeps state_inv (print_reply w pb)"
  unfolding print_reply_def by (intro keeps_intros)

lemma keeps_printIncomingMessage [keeps_intros]: "keeps state_inv (printIncomingMessage pb)"
  unfolding printIncomingMessage_def Let_def by (intro keeps_intros)

lemma keeps_wakeSender [keeps_intros]: "keeps state_inv wakeSender"
  unfolding wakeSender_def by (auto intro!: keeps_intros)

lemma keeps_popAll [keeps_intros]: "keeps state_inv popAll"
  unfolding popAll_def by (intro keeps_intros)

lemma keeps_replyTCP [keeps_intros]: "keeps state_inv (replyTCP pb)"
  unfolding replyTCP_def by (auto intro!: keeps_intros)

lemma keeps_search: 
  "keeps I (\<lambda>s. case f s of None \<Rightarrow> Blocked s | Some r \<Rightarrow> lift_res r s)"
  by (auto simp: keeps_def lift_res_def split: option.splits res.splits)

lemma keeps_filterRepeated [keeps_intros]: "keeps state_inv (filterRepeated alloc pb)"
  unfolding filterRepeated_def
  by (intro keeps_bind[OF keeps_locks(3)] keeps_bind[OF keeps_locks(1)] keeps_bind[OF keeps_search])
    (auto intro!: keeps_intros)

text \<open>A program that looks at the state it starts in.\<close>

lemma keeps_start: "(\<And>s. keeps I (p s)) \<Longrightarrow> keeps I (\<lambda>s. p s s)"
  by (simp add: keeps_def)

lemmas keeps_bind_start = keeps_start[where p = "\<lambda>s. bind_prog (m s) (f s)" for m f]

lemma keeps_confirmLocked: "sane alloc \<Longrightarrow> keeps state_inv (confirmLocked alloc)"
  unfolding confirmLocked_def by (auto intro!: keeps_intros keeps_sendConfirm)

lemma keeps_handleReplyUDP: "sane alloc \<Longrightarrow> keeps state_inv (handleReplyUDP alloc msgID pb)"
  unfolding handleReplyUDP_def by (auto intro!: keeps_intros keeps_sendConfirm)

lemma keeps_receiverFSM:
  assumes "sane alloc"
  shows "keeps state_inv (receiverFSM alloc msgID pb)"
  unfolding receiverFSM_def
  by (rule keeps_start, rule keeps_bind)
    (auto intro!: keeps_intros keeps_confirmLocked keeps_handleReplyUDP keeps_sendConfirm keeps_sendBye
      keeps_sendError assms split: msg_t.split)

lemma state_inv_serverResponse:
  "state_inv s \<Longrightarrow> buf_ok b \<Longrightarrow> state_inv (s\<lparr>cleanUp := (cleanUp s)\<lparr>serverResponse := b\<rparr>\<rparr>)"
  by (simp add: state_inv_def buffers_def)

lemma state_inv_netConfig [simp]: "state_inv (s\<lparr>netConfig := n\<rparr>) = state_inv s"
  by (simp add: state_inv_def buffers_def)

lemma recvfrom_cases:
  obtains (received) n s' where "recvfrom source bs s = Done n s'"
  | (overflow) e where "recvfrom source bs s = Crashes e"
  by (cases "store_source source (netConfig s)")
    (auto simp: recvfrom_def bind_prog_def lift_res_def modify_def ret_def Let_def store_source_def
      split: option.splits if_splits)

text \<open>A received message stays inside the buffer, and the number of its bytes is one the buffer has.\<close>

lemma recvfrom_keeps:
  assumes "state_inv s" "recvfrom source bs s = Done n s'"
  shows "state_inv s' \<and> n \<le> allocated (serverResponse (cleanUp s'))"
proof -
  let ?r = "serverResponse (cleanUp s)"
  let ?bs = "take (allocated ?r) bs"
  let ?b = "?r\<lparr>data := map_option (\<lambda>m. overlay m 0 (map Some ?bs)) (data ?r)\<rparr>"
  obtain net where s': "s' = s\<lparr>netConfig := net, cleanUp := (cleanUp s)\<lparr>serverResponse := ?b\<rparr>\<rparr>"
    and n: "n = length ?bs"
    using assms(2)
    by (auto simp: recvfrom_def bind_prog_def lift_res_def modify_def ret_def Let_def split: res.splits)
  have "buf_ok ?b"
    using state_inv_bufs(6)[OF assms(1)] by (auto simp: buf_ok_def buffer_wf_def split: option.splits)
  moreover have "state_inv (s\<lparr>netConfig := net\<rparr>)" using assms(1) by simp
  ultimately have "state_inv s'" unfolding s' using state_inv_serverResponse by fastforce
  then show ?thesis using s' n by simp
qed

lemma keeps_receiveOne:
  assumes "sane alloc"
  shows "keeps state_inv (receiveOne alloc source bs v)"
proof -
  have decode: "keeps state_inv (\<lambda>s.
       if is_UDP s then lift_res (disassebleProtocolUDP (serverResponse (cleanUp s)) pb) s
       else if is_TCP s
       then bind_prog (lift_res (disassebleProtocolTCP (serverResponse (cleanUp s)) pb))
              (\<lambda>pb. ret (pb, msgID)) s
       else Done (pb, msgID) s)" for pb msgID
    by (auto simp: keeps_def bind_prog_def lift_res_def ret_def split: res.splits)
  have used: "ensures state_inv (bind_prog (set_responseUsed n) f s)"
    if "state_inv s" "n \<le> allocated (serverResponse (cleanUp s))" "\<And>a. keeps state_inv (f a)"
    for n f and s :: ProgramInterface
  proof -
    have "buf_ok ((serverResponse (cleanUp s))\<lparr>used := n\<rparr>)"
      using buf_ok_used[OF state_inv_bufs(6)[OF that(1)] that(2)] .
    from keepsD[OF that(3) state_inv_serverResponse[OF that(1) this]] show ?thesis
      by (simp add: set_responseUsed_def bind_prog_def modify_def)
  qed
  show ?thesis
  proof (rule keepsI)
    fix s :: ProgramInterface assume inv: "state_inv s"
    show "ensures state_inv (receiveOne alloc source bs v s)"
    proof (cases rule: recvfrom_cases[of source bs s])
      case (received n s')
      note s' = recvfrom_keeps[OF inv received]
      show ?thesis
        unfolding receiveOne_def using received s'
        by (auto intro!: used keeps_intros keeps_receiverFSM assms decode
            simp: bind_prog_def[of "recvfrom source bs"] ret_def split: prod.split)
    next
      case (overflow e)
      then show ?thesis by (simp add: receiveOne_def bind_prog_def split: prod.split)
    qed
  qed
qed

text \<open>What the other threads do keeps the invariant.\<close>

definition polite :: "interference \<Rightarrow> bool" where
  "polite f \<longleftrightarrow> (\<forall>s. state_inv s \<longrightarrow> state_inv (f s))"

lemma ensures_bind:
  "ensures I (m s) \<Longrightarrow> (\<And>a. keeps I (f a)) \<Longrightarrow> ensures I (bind_prog m f s)"
  by (cases "m s") (simp_all add: bind_prog_def keeps_def)

lemma keeps_receiverLoop:
  assumes "sane alloc" "\<forall>(f, rx) \<in> set input. polite f"
  shows "keeps state_inv (receiverLoop alloc input v)"
  using assms(2)
proof (induction input arbitrary: v)
  case Nil
  then show ?case by (simp add: keeps_def)
next
  case (Cons x input)
  obtain f rx where x: "x = (f, rx)" by (cases x)
  have f: "state_inv s \<Longrightarrow> state_inv (f s)" for s using Cons.prems x by (simp add: polite_def)
  have IH: "keeps state_inv (receiverLoop alloc input v)" for v using Cons by simp
  have "ensures state_inv (receiveOne alloc source bs v (f s))" if "state_inv s" for source bs s
    using keepsD[OF keeps_receiveOne[OF assms(1)] f[OF that]] .
  then show ?case
    using f keepsD[OF IH] by (auto simp: keeps_def x intro!: ensures_bind IH split: option.split)
qed

lemma keeps_protocolReceiver:
  assumes "sane alloc" "\<forall>(f, rx) \<in> set input. polite f"
  shows "keeps state_inv (protocolReceiver alloc opt input v)"
proof (rule keepsI)
  fix s assume I: "state_inv s"
  have "state_inv (s\<lparr>cleanUp := (cleanUp s)\<lparr>serverResponse := b\<rparr>\<rparr>)"
    if "bufferResize alloc (serverResponse (cleanUp s)) RECV_SIZE = Ok b" for b
    using that I bufferResize_keeps[OF assms(1) state_inv_bufs(6)] state_inv_serverResponse by blast
  then show "ensures state_inv (protocolReceiver alloc opt input v s)"
    using I keepsD[OF keeps_receiverLoop[OF assms]]
    by (auto simp: protocolReceiver_def bind_prog_def lift_res_def modify_def errExit_def split: res.splits)
qed

section \<open>The sender\<close>

lemma keeps_filterOne:
  assumes "sane alloc"
  shows "keeps state_inv (filterOne alloc r a)"
  unfolding filterOne_def
  by (auto intro!: keeps_intros keeps_sendError keeps_sendBye assms)

lemma queuePop_keeps:
  assumes "state_inv s" "queuePopMessage (memory s) (Some (sending s)) = Ok (h, q)"
  shows "state_inv (set_sending q (s\<lparr>memory := h\<rparr>))"
  using keepsD[OF queue_keeps(1) assms(1)] assms(2)
  by (simp add: on_sending_def bind_prog_run lift_res_run modify_run)

lemma keeps_filterLoop:
  assumes "sane alloc" "state_inv s"
  shows "ensures state_inv (filterLoop alloc r s)"
  using assms(2)
proof (induction "q_len (sending s)" arbitrary: r s rule: less_induct)
  case less
  show ?case
  proof (cases "\<exists>a. queueGetMessage (Some (sending s)) = Ok (Some a)")
    case False
    then show ?thesis
      using less.prems by (subst filterLoop.simps) (auto split: res.splits option.splits)
  next
    case True
    then obtain a where a: "queueGetMessage (Some (sending s)) = Ok (Some a)" by blast
    have one: "ensures state_inv (filterOne alloc r a s)"
      by (rule keepsD[OF keeps_filterOne[OF assms(1)] less.prems])
    have "ensures state_inv (filterLoop alloc r' (set_sending q (s'\<lparr>memory := h\<rparr>)))"
      if s': "filterOne alloc r a s = Done (True, r') s'"
        and pop: "queuePopMessage (memory s') (Some (sending s')) = Ok (h, q)" for r' s' h q
    proof (rule less.hyps)
      have "q_len (sending s) > 0" using queueGetMessage_len[OF a] .
      then show "q_len (sending (set_sending q (s'\<lparr>memory := h\<rparr>))) < q_len (sending s)"
        using queuePopMessage_len[OF pop] filterOne_keeps_queue[OF s'] by (simp add: set_sending_def)
      show "state_inv (set_sending q (s'\<lparr>memory := h\<rparr>))"
        using queuePop_keeps[OF _ pop] one s' by simp
    qed
    then show ?thesis
      using a one by (subst filterLoop.simps) (auto split: outcome.splits res.splits)
  qed
qed

lemma keeps_filterResentMessages: "sane alloc \<Longrightarrow> keeps state_inv (filterResentMessages alloc)"
  by (simp add: keeps_def filterResentMessages_def keeps_filterLoop)

lemma keeps_if_state:
  "keeps I p \<Longrightarrow> keeps I q \<Longrightarrow> keeps I (\<lambda>s. if b s then p s else q s)"
  by (simp add: keeps_def)

lemma keeps_logicBody:
  assumes "keeps state_inv again" "\<And>f. f \<in> set others \<Longrightarrow> polite f"
  shows "keeps state_inv (logicBody again others)"
proof -
  have "keeps state_inv (\<lambda>s. if is_UDP s then setProgramState fsm_END_W84_CONF s
                 else if is_TCP s
                 then steps [setProgramState fsm_END, cond_signal mainCond] s
                 else Done () s)"
    by (auto intro!: keeps_if_state keeps_intros keeps_ret[unfolded ret_def])
  moreover have "keeps state_inv (cond_wait rec2SenderCond others)"
    using assms(2) by (intro keeps_cond_wait) (simp add: polite_def)
  ultimately show ?thesis
    unfolding logicBody_def
    by (auto intro!: keeps_intros assms(1) split: msg_t.split)
qed

lemma keeps_logicFSM:
  "(\<And>f. f \<in> set others \<Longrightarrow> polite f) \<Longrightarrow> keeps state_inv (logicFSM others)"
proof (induction others)
  case Nil
  then show ?case by (auto simp: keeps_def intro!: keeps_logicBody[unfolded keeps_def, rule_format])
next
  case (Cons f others)
  then have "keeps state_inv (logicFSM others)" "keeps state_inv (modify f)"
    by (auto intro!: keeps_modify simp: polite_def)
  then show ?case
    using Cons.prems by (auto intro!: keeps_logicBody keeps_intros)
qed

text \<open>What is left of the list of interferences after a wait is a part of it.\<close>

definition returns :: "('a \<Rightarrow> bool) \<Rightarrow> ('a, 's) prog \<Rightarrow> bool" where
  "returns P m \<longleftrightarrow> (\<forall>s a s'. m s = Done a s' \<longrightarrow> P a)"

lemma returns_bind: "(\<And>a. returns P (f a)) \<Longrightarrow> returns P (bind_prog m f)"
  by (auto simp: returns_def bind_prog_def split: outcome.splits)

lemma returns_ret: "P a \<Longrightarrow> returns P (ret a)"
  by (simp add: returns_def ret_def)

lemma returns_if: "(b \<Longrightarrow> returns P m) \<Longrightarrow> (\<not> b \<Longrightarrow> returns P m') \<Longrightarrow> returns P (if b then m else m')"
  by simp

lemma keeps_bind_returns:
  assumes "keeps I m" "returns P m" "\<And>a. P a \<Longrightarrow> keeps I (f a)"
  shows "keeps I (bind_prog m f)"
  using assms by (auto simp: keeps_def returns_def bind_prog_def split: outcome.splits)
    (metis ensures.simps)+

lemma returns_cond_wait: "set others \<subseteq> A \<Longrightarrow> returns (\<lambda>x. set x \<subseteq> A) (cond_wait c others)"
  by (cases others) (auto simp: returns_def)

lemma returns_bind_returns:
  assumes "returns Q m" "\<And>a. Q a \<Longrightarrow> returns P (f a)"
  shows "returns P (bind_prog m f)"
  unfolding returns_def
proof (intro allI impI)
  fix s b s'' assume "bind_prog m f s = Done b s''"
  then obtain a s' where "m s = Done a s'" "f a s' = Done b s''"
    by (auto simp: bind_prog_def split: outcome.splits)
  then show "P b" using assms unfolding returns_def by blast
qed

lemma returns_bind_start:
  "(\<And>s. returns P (bind_prog (m s) (f s))) \<Longrightarrow> returns P (\<lambda>s. bind_prog (m s) (f s) s)"
  unfolding returns_def by blast

lemmas returns_wait_bind = returns_bind_returns[OF returns_cond_wait]

lemma returns_logicBody:
  "returns (\<lambda>x. set x \<subseteq> A) again \<Longrightarrow> set others \<subseteq> A \<Longrightarrow> returns (\<lambda>x. set x \<subseteq> A) (logicBody again others)"
  unfolding logicBody_def
  by (rule returns_ret returns_if returns_wait_bind returns_bind | assumption)+

lemma returns_logicFSM: "set others \<subseteq> A \<Longrightarrow> returns (\<lambda>x. set x \<subseteq> A) (logicFSM others)"
proof (induction others)
  case Nil
  then show ?case by (auto intro!: returns_logicBody simp: returns_def[of _ "\<lambda>s. Blocked s"])
next
  case (Cons f others)
  then show ?case by (auto intro!: returns_logicBody returns_bind)
qed

lemma keeps_sendFirst [keeps_intros]: "keeps state_inv (sendFirst sendto a)"
  unfolding sendFirst_def by (intro keeps_intros)

lemma keeps_senderTurnWith:
  assumes "sane alloc" "\<And>f. f \<in> set others \<Longrightarrow> polite f" "polite room"
  shows "keeps state_inv (senderTurnWith room alloc sendto others)"
proof -
  have room: "keeps state_inv (modify room)" using assms(3) by (intro keeps_modify) (simp add: polite_def)
  have wait: "keeps state_inv (cond_wait c others')" if "set others' \<subseteq> set others" for c others'
    using that assms(2) by (intro keeps_cond_wait) (auto simp: polite_def)
  have logic: "keeps state_inv (logicFSM others)" "returns (\<lambda>x. set x \<subseteq> set others) (logicFSM others)"
    using keeps_logicFSM[OF assms(2)] returns_logicFSM by auto
  have id: "keeps state_inv (\<lambda>s. on_memory (\<lambda>h q. queueSetMessageID h (Some q) (msgCounter (comDetails s))) s)"
    by (rule keeps_start) (rule keeps_setMessageID)
  have count: "keeps state_inv (modify (\<lambda>s. set_msgCounter (msgCounter (comDetails s) + 1) s))"
    by (simp add: keeps_modify)
  show ?thesis
    unfolding senderTurnWith_def
    apply (rule keeps_bind_start)
    apply (rule keeps_bind)
    apply (intro keeps_intros keeps_filterResentMessages assms(1))
    apply (rule keeps_if)
    apply (rule keeps_intros)
    apply (rule keeps_bind)
    apply (rule keeps_intros)
    apply (rule keeps_if)
    apply (auto intro!: keeps_intros wait)[1]
    apply (rule keeps_bind)
    apply (auto intro!: keeps_intros wait room)[1]
    apply (rule keeps_bind_returns[OF logic])
    apply (auto intro!: keeps_intros wait id count)[1]
    done
qed

lemma keeps_senderTurn:
  assumes "sane alloc" "\<And>f. f \<in> set others \<Longrightarrow> polite f"
  shows "keeps state_inv (senderTurn alloc sendto others)"
  unfolding senderTurn_def by (rule keeps_senderTurnWith[OF assms]) (simp_all add: polite_def)

lemma returns_senderTurn: "returns (\<lambda>x. set x \<subseteq> set others) (senderTurn alloc sendto others)"
proof -
  have logic: "returns (\<lambda>x. set x \<subseteq> set others) (logicFSM others)" by (rule returns_logicFSM) simp
  show ?thesis
    unfolding senderTurn_def senderTurnWith_def
    by (rule returns_bind_start)
      (rule returns_ret returns_if returns_cond_wait returns_bind_returns[OF logic] returns_bind
        | assumption | simp)+
qed

lemma keeps_protocolSender:
  assumes "sane alloc"
  shows "(\<And>f. f \<in> set others \<Longrightarrow> polite f) \<Longrightarrow> keeps state_inv (protocolSender n alloc sendto others)"
proof (induction n arbitrary: others)
  case 0
  then show ?case by (simp add: keeps_def)
next
  case (Suc n)
  have "keeps state_inv (bind_prog (senderTurn alloc sendto others) (\<lambda>others. protocolSender n alloc sendto others))"
    by (rule keeps_bind_returns[OF keeps_senderTurn[OF assms Suc.prems] returns_senderTurn])
      (use Suc in blast)+
  then show ?case by (simp add: keeps_def)
qed

end
