(* ===== verification/Chat_Invariant_Main.thy ===== *)
theory Chat_Invariant_Main
  imports Chat_Invariant_Threads
begin

text \<open>
  The main thread and the error handlers keep the invariant of the shared state, and the state
  the program starts with satisfies it.
\<close>

section \<open>The input buffer\<close>

lemma load_loop_keeps:
  assumes "sane alloc" "buf_ok b" "load_loop alloc b c inp i = Ok (b', c', inp', j)"
  shows "buf_ok b'"
  using assms
proof (induction alloc b c inp i rule: load_loop.induct)
  case (1 alloc b c inp i)
  show ?case
  proof (cases "isEndingCharacter c = 0")
    case True
    then show ?thesis using 1 by (simp add: load_loop.simps[of _ b])
  next
    case False
    then obtain b1 b2 where b1: "(if data b = None \<or> allocated b \<le> 0
           then bufferResize alloc b INITIAL_BUFFER_SIZE
           else if allocated b - 1 < i
           then bufferResize alloc b (allocated b * 2)
           else Ok b) = Ok b1"
      and b2: "buf_write b1 i c = Ok b2"
      and rec: "load_loop alloc b2 (fst (getc_char inp)) (snd (getc_char inp)) (Suc i)
        = Ok (b', c', inp', j)"
      using 1(4) by (auto simp: load_loop.simps[of _ b] res_bind_eq_Ok)
    have "buf_ok b1"
      using b1 1(3) bufferResize_keeps[OF 1(2,3)] by (auto split: if_splits)
    then have "buf_ok b2" using buf_write_keeps b2 by blast
    then show ?thesis using 1(1)[OF False b1 b2 1(2) _ rec] by blast
  qed
qed

lemma loadBufferFromStdin_keeps:
  assumes "sane alloc" "buf_ok b" "loadBufferFromStdin alloc b e inp = Ok (b', e', inp', n)"
  shows "buf_ok (b'\<lparr>used := n\<rparr>) \<and> data b' \<noteq> None"
proof -
  obtain b1 c1 where "load_loop alloc b (fst (getc_char inp)) (snd (getc_char inp)) 0 = Ok (b1, c1, inp', n)"
    and b': "buf_write b1 n 0 = Ok b'"
    using assms(3) by (auto simp: loadBufferFromStdin_def res_bind_eq_Ok Let_def)
  then have "buf_ok b1" using load_loop_keeps[OF assms(1,2)] by blast
  then have "buf_ok b'" "n < allocated b'" using buf_write_keeps b' by blast+
  then show ?thesis using buf_ok_used[of b' n] buf_ok_data[of b'] by auto
qed

section \<open>The blocks of a command\<close>

lemma scan_range: "scan stop p len i = Ok r \<Longrightarrow> r = - 1 \<or> (0 \<le> r \<and> r \<le> int len)"
proof (induction stop p len i rule: scan.induct)
  case (1 stop p len i)
  then show ?case
    by (auto simp: scan.simps[of stop p len i] res_bind_eq_Ok split: if_splits)
qed

lemma findBlank_size:
  assumes "findBlankCharInString p len = Ok r" "len < 2 ^ 62"
  shows "size_of_long r < 2 ^ 62 \<or> size_of_long r = 2 ^ 64 - 1"
proof -
  have "r = - 1 \<or> (0 \<le> r \<and> r \<le> int len)"
    using assms(1) scan_range by (simp add: findBlankCharInString_def)
  then show ?thesis
  proof
    assume r: "0 \<le> r \<and> r \<le> int len"
    then have "nat r < 2 ^ 62" using assms(2) by (simp add: nat_less_iff)
    moreover have "size_of_long r = nat r" using r calculation size_of_long_nat[of "nat r"] by simp
    ultimately show ?thesis by simp
  qed simp
qed

lemma controlWord_len: "controlWord blk n ty = Ok (True, t) \<Longrightarrow> bb_len blk \<le> n"
  by (auto simp: controlWord_def res_bind_eq_Ok split: if_splits)

lemma CONTROL_WORD_cases:
  assumes "CONTROL_WORD r pb flags k = Ok (ok, pb', f, t)"
  obtains "pb' = pb" | "k = Ok (ok, pb', f, t)" "\<exists>t. r = Ok (True, t)"
  using assms by (auto simp: CONTROL_WORD_def res_bind_eq_Ok split: if_splits)

lemma TRY_GET_WORD_cases:
  assumes "TRY_GET_WORD r pb flags k = Ok (ok, pb', f, t)"
  obtains "pb' = pb\<lparr>pb_type := cmd_byte cmd_MISSING\<rparr>"
  | b where "r = Ok (True, b)" "k b = Ok (ok, pb', f, t)"
  using assms by (auto simp: TRY_GET_WORD_def res_bind_eq_Ok split: if_splits)

lemma getWord_start: "getWord blk p n = Ok (True, b) \<Longrightarrow> bb_start b \<noteq> None"
  by (auto simp: getWord_def res_bind_eq_Ok Let_def ptr_add_def split: if_splits)

text \<open>The three ways the blocks are filled, over the blocks with the command word.\<close>

lemma parse_auth_pb_ok:
  assumes "\<And>x. pb_ok (pb\<lparr>pb_type := x\<rparr>)" "parse_auth buffer cmd pb flags = Ok (ok, pb', f, t)"
  shows "pb_ok pb'"
proof -
  have old: "pb_ok pb" using assms(1)[of "pb_type pb"] by simp
  note rules = TRY_GET_WORD_cases CONTROL_WORD_cases
  have stored: "pb_ok (pb\<lparr>pb_type := x, first := a, second := b, third := c\<rparr>)"
    if "bb_len a \<le> 20" "bb_len b \<le> 128" "bb_len c \<le> 20"
      "bb_start a \<noteq> None" "bb_start b \<noteq> None" "bb_start c \<noteq> None" for a b c x
    using that assms(1)[of x] by (auto simp: pb_ok_def)
  show ?thesis
    using assms(2) unfolding parse_auth_def
    by (elim rules) (auto simp: old assms(1) dest!: getWord_start controlWord_len intro!: stored)
qed

lemma parse_name_pb_ok:
  assumes "\<And>x. pb_ok (pb\<lparr>pb_type := x\<rparr>)" "parse_name buffer cmd j pb flags = Ok (ok, pb', f, t)"
    and "bb_start cmd \<noteq> None" "second pb = no_block" "third pb = no_block"
  shows "pb_ok pb'"
proof -
  have old: "pb_ok pb" using assms(1)[of "pb_type pb"] by simp
  have "pb' = pb \<or> pb' = pb\<lparr>pb_type := cmd_byte cmd_MISSING\<rparr> \<or>
    (\<exists>a x. bb_len a \<le> 20 \<and> bb_start a \<noteq> None \<and> pb' = pb\<lparr>pb_type := x, first := a\<rparr>)"
    using assms(2,3) unfolding parse_name_def
    by (auto simp: res_bind_eq_Ok Let_def ptr_add_def BBLOCK_END_def split: if_splits
        elim!: CONTROL_WORD_cases dest!: controlWord_len)
  then show ?thesis
    using assms(1)[of 0] old assms(1,4,5) by (auto simp: pb_ok_def no_block_def)
qed

lemma userInputToCmds_pb_ok:
  assumes "buf_ok buffer" "data buffer \<noteq> None" "userInputToCmds buffer pb flags = Ok (ok, pb', f, t)"
  shows "uchar2CommandType (pb_type pb') = cmd_NONE \<or> pb_ok pb'"
proof (cases "used buffer \<le> 0")
  case True
  then show ?thesis using assms(3) by (auto simp: userInputToCmds_def uchar2CommandType_def)
next
  case False
  obtain index where index: "findBlankCharInString (buf_ptr buffer) (used buffer) = Ok index"
    using assms(3) False by (auto simp: userInputToCmds_def res_bind_eq_Ok)
  let ?cmd = "\<lparr>bb_start = buf_ptr buffer, bb_len = size_of_long index\<rparr>"
  define base where "base = pb\<lparr>zeroth := ?cmd, first := no_block, second := no_block, third := no_block,
    pb_type := cmd_byte cmd_NONE\<rparr>"
  have start: "buf_ptr buffer \<noteq> None" using assms(2) by (auto simp: buf_ptr_def)
  have "used buffer < 2 ^ 62" using assms(1) by (simp add: buf_ok_def buffer_wf_def)
  then have ok: "pb_ok (base\<lparr>pb_type := x\<rparr>)" for x
    using findBlank_size[OF index] start by (auto simp: pb_ok_def base_def no_block_def)
  have old: "pb_ok base" using ok[of "pb_type base"] by simp
  have none: "second base = no_block" "third base = no_block" by (simp_all add: base_def)
  have msg: "pb_ok (base\<lparr>zeroth := \<lparr>bb_start = buf_ptr buffer, bb_len = used buffer\<rparr>, pb_type := x\<rparr>)" for x
    using start \<open>used buffer < 2 ^ 62\<close> by (auto simp: pb_ok_def base_def no_block_def)
  have msg0: "pb_ok (base\<lparr>zeroth := \<lparr>bb_start = buf_ptr buffer, bb_len = used buffer\<rparr>\<rparr>)"
    using start \<open>used buffer < 2 ^ 62\<close> by (auto simp: pb_ok_def base_def no_block_def)
  let ?msg = "base\<lparr>zeroth := \<lparr>bb_start = buf_ptr buffer, bb_len = used buffer\<rparr>\<rparr>"
  let ?res = "Ok (ok, pb', f, t)"
  consider "parse_auth buffer ?cmd base flags = ?res" | j where "parse_name buffer ?cmd j base flags = ?res"
    | x where "pb' = base\<lparr>pb_type := x\<rparr>"
    | r x where "CONTROL_WORD r ?msg flags (Ok (True, ?msg\<lparr>pb_type := x\<rparr>, flags, [])) = ?res"
    using assms(3) False index unfolding userInputToCmds_def base_def
    by (auto simp: res_bind_eq_Ok Let_def split: if_splits)
  then show ?thesis
  proof cases
    case 1
    then show ?thesis using parse_auth_pb_ok[OF ok] by blast
  next
    case 2
    then show ?thesis using parse_name_pb_ok[OF ok _ _ none] start by simp
  next
    case 3
    then show ?thesis using ok by simp
  next
    case 4
    then show ?thesis
      using msg[of x] msg0 by (auto elim!: CONTROL_WORD_cases)
  qed
qed

section \<open>The main thread\<close>

lemma stringReplace_length:
  "stringReplace d pos p n = Ok d' \<Longrightarrow> map_option length d' = map_option length d"
  by (auto simp: stringReplace_def res_bind_eq_Ok dest!: copy_bytes_bounds split: option.splits)

lemma buf_ok_data_length:
  "buf_ok b \<Longrightarrow> map_option length d = map_option length (data b) \<Longrightarrow> buf_ok (b\<lparr>data := d\<rparr>)"
  by (cases d; cases "data b") (auto simp: buf_ok_def buffer_wf_def)

lemma store_name_keeps:
  assumes "sane alloc" "buf_ok b" "store_name alloc blk b = Ok b'"
  shows "buf_ok b'"
proof -
  obtain b1 d where b1: "bufferResize alloc b (size_add (bb_len blk) 1) = Ok b1"
    and d: "stringReplace (data b1) 0 (bb_start blk) (bb_len blk) = Ok d"
    and w: "buf_write (b1\<lparr>data := d, used := bb_len blk\<rparr>) (bb_len blk) 0 = Ok b'"
    using assms(3) by (auto simp: store_name_def res_bind_eq_Ok)
  have "bb_len blk < allocated b1"
    using w buf_ok_data_length[OF _ stringReplace_length[OF d]] bufferResize_keeps[OF assms(1,2) b1]
    by (auto simp: buf_write_def buf_ok_def buffer_wf_def split: option.splits if_splits)
  then have "buf_ok ((b1\<lparr>data := d\<rparr>)\<lparr>used := bb_len blk\<rparr>)"
    using bufferResize_keeps[OF assms(1,2) b1] buf_ok_data_length[OF _ stringReplace_length[OF d]]
    by (intro buf_ok_used) auto
  then show ?thesis using buf_write_keeps[OF _ w] by simp
qed

lemma keeps_store_displayName:
  assumes "sane alloc"
  shows "keeps state_inv (store_displayName alloc blk)"
proof (rule keepsI)
  fix s assume I: "state_inv s"
  have "state_inv (s\<lparr>comDetails := (comDetails s)\<lparr>displayName := b\<rparr>\<rparr>)"
    if "store_name alloc blk (displayName (comDetails s)) = Ok b" for b
    using store_name_keeps[OF assms state_inv_bufs(3)[OF I] that] I by (simp add: state_inv_def buffers_def)
  then show "ensures state_inv (store_displayName alloc blk s)"
    using I by (cases "store_name alloc blk (displayName (comDetails s))")
      (simp_all add: store_displayName_def bind_prog_def lift_res_def modify_def)
qed

lemma keeps_store_channelID:
  assumes "sane alloc"
  shows "keeps state_inv (store_channelID alloc blk)"
proof (rule keepsI)
  fix s assume I: "state_inv s"
  have "state_inv (s\<lparr>comDetails := (comDetails s)\<lparr>channelID := b\<rparr>\<rparr>)"
    if "store_name alloc blk (channelID (comDetails s)) = Ok b" for b
    using store_name_keeps[OF assms state_inv_bufs(4)[OF I] that] I by (simp add: state_inv_def buffers_def)
  then show "ensures state_inv (store_channelID alloc blk s)"
    using I by (cases "store_name alloc blk (channelID (comDetails s))")
      (simp_all add: store_channelID_def bind_prog_def lift_res_def modify_def)
qed

lemma keeps_filterCommandsByFSM:
  assumes "sane alloc"
  shows "keeps state_inv (filterCommandsByFSM alloc pb flags)"
  unfolding filterCommandsByFSM_def Let_def printUserHelpMenu_def
  by (auto intro!: keeps_intros keeps_store_displayName keeps_store_channelID assms split: cmd_t.split)

lemma keeps_enqueueMessage: "keeps state_inv (enqueueMessage alloc flags ty)"
  unfolding enqueueMessage_def
  by (intro keeps_bind[OF keeps_locks(1)] keeps_bind[OF keeps_read_sending] keeps_asks_bind)
    (auto intro!: keeps_intros dest: state_inv_bufs(2)[of _ By_Main])

lemma filter_accepts_command:
  "returns (\<lambda>(ok, f). ok \<longrightarrow> uchar2CommandType (pb_type pb) \<noteq> cmd_NONE) (filterCommandsByFSM alloc pb flags)"
  by (cases "uchar2CommandType (pb_type pb) = cmd_NONE")
    (auto simp: filterCommandsByFSM_def returns_def ret_def)

lemma keeps_setClientInput: "buf_ok b \<Longrightarrow> keeps state_inv (setClientInput b)"
  unfolding setClientInput_def by (intro keeps_modify) (simp add: state_inv_def buffers_def)

lemma keeps_sendCommand:
  assumes "sane alloc" "\<And>f. f \<in> set (mothers v) \<Longrightarrow> polite f"
    and "uchar2CommandType (pb_type pb) = cmd_NONE \<or> pb_ok pb"
  shows "keeps state_inv (sendCommand alloc pb flags v)"
proof -
  have wait: "keeps state_inv (cond_wait mainCond (mothers v))"
    using assms(2) by (intro keeps_cond_wait) (simp add: polite_def)
  show ?thesis
    unfolding sendCommand_def
    by (rule keeps_bind_returns[OF keeps_filterCommandsByFSM[OF assms(1)] filter_accepts_command])
      (use assms(3) in \<open>auto simp: Let_def intro!: keeps_intros keeps_assemble_variant
        keeps_enqueueMessage assms(1) wait split: prod.split\<close>)
qed

lemma keeps_commandTurn:
  assumes "sane alloc" "\<And>f. f \<in> set (mothers v) \<Longrightarrow> polite f"
  shows "keeps state_inv (commandTurn alloc v)"
proof (cases "eofDetected v")
  case True
  then show ?thesis
    unfolding commandTurn_def by (auto intro!: keeps_intros keeps_sendBye assms(1))
next
  case False
  have line: "keeps state_inv
      (bind_prog (setClientInput (buf\<lparr>used := len\<rparr>)) (\<lambda>_.
       bind_prog (lift_res (userInputToCmds (buf\<lparr>used := len\<rparr>) (mBlocks v) msg_flag_NONE))
         (\<lambda>(ok, pb, flags, text).
       bind_prog (if text = [] then ret () else modify (emit [Stderr text])) (\<lambda>_.
       sendCommand alloc pb flags (v\<lparr>eofDetected := eof, stdin := rest\<rparr>)))))"
    if "buf_ok (buf\<lparr>used := len\<rparr>)" "data buf \<noteq> None" for buf len eof rest
    using that assms userInputToCmds_pb_ok[OF that(1)]
    by (intro keeps_bind[OF keeps_setClientInput] keeps_lift_bind)
      (auto intro!: keeps_intros keeps_sendCommand, blast)
  show ?thesis
    unfolding commandTurn_def
    by (simp only: False if_False, rule keeps_read_bind)
      (use loadBufferFromStdin_keeps[OF assms(1) state_inv_bufs(5)] line in \<open>auto\<close>)
qed

lemma returns_commandTurn: "returns (\<lambda>w. set (mothers w) \<subseteq> set (mothers v)) (commandTurn alloc v)"
proof -
  have "returns (\<lambda>w. set (mothers w) \<subseteq> set (mothers v)) (sendCommand alloc pb flags u)"
    if "mothers u = mothers v" for pb flags u
  proof -
    have wait: "returns (\<lambda>x. set x \<subseteq> set (mothers v)) (cond_wait c (mothers v))" for c
      by (rule returns_cond_wait) simp
    show ?thesis
      unfolding sendCommand_def Let_def
      by (auto simp: that intro!: returns_bind returns_ret returns_bind_returns[OF wait]
          split: prod.split) (erule (1) subsetD)+
  qed
  then show ?thesis
    unfolding commandTurn_def
    by (auto intro!: returns_bind returns_ret split: prod.split)
qed

lemma keeps_userCommandHandling:
  assumes "sane alloc"
  shows "(\<And>f. f \<in> set (mothers v) \<Longrightarrow> polite f) \<Longrightarrow> keeps state_inv (userCommandHandling n alloc v)"
proof (induction n arbitrary: v)
  case 0
  then show ?case by (simp add: keeps_def)
next
  case (Suc n)
  have "keeps state_inv (bind_prog (commandTurn alloc v) (userCommandHandling n alloc))"
    by (rule keeps_bind_returns[OF keeps_commandTurn[OF assms Suc.prems] returns_commandTurn])
      (use Suc in blast)+
  then show ?case by (simp add: keeps_def)
qed

section \<open>The error handlers\<close>

lemma keeps_replaceByBye: "sane alloc \<Longrightarrow> keeps state_inv (replaceByBye alloc)"
  unfolding replaceByBye_def by (auto intro!: keeps_intros keeps_sendBye)

lemma keeps_destroyAndExit: "keeps state_inv (destroyAndExit c)"
  by (auto simp: keeps_def destroyAndExit_def bind_prog_def lift_res_def ret_def split: res.splits prod.splits)

lemma keeps_errHandling:
  assumes "sane alloc" "\<And>f. f \<in> set others \<Longrightarrow> polite f"
  shows "keeps state_inv (errHandling alloc others msg c)"
  unfolding errHandling_def
  using assms(2)
  by (auto intro!: keeps_intros keeps_replaceByBye keeps_destroyAndExit keeps_cond_wait assms(1)
      simp: polite_def)

lemma keeps_sigintHandler:
  assumes "sane alloc" "\<And>f. f \<in> set others \<Longrightarrow> polite f"
  shows "keeps state_inv (sigintHandler alloc others)"
  unfolding sigintHandler_def
  using assms(2)
  by (auto intro!: keeps_intros keeps_replaceByBye keeps_destroyAndExit keeps_cond_wait assms(1)
      simp: polite_def)

lemma state_inv_initial: "state_inv (initial_interface net)"
  by (auto simp: state_inv_def buffers_def initial_interface_def queues_wf_def buf_ok_def
      bufferInit_def buffer_wf_def
      empty_heap_def)

section \<open>Destroying the program interface\<close>

lemma destroy_frees:
  assumes "state_inv s"
  shows "\<exists>h freed. programInterfaceDestroy s = Ok (h, freed) \<and> cells h = (\<lambda>_. None)"
proof -
  obtain as bs where r: "represents (memory s) (sending s) as" "represents (memory s) (confirmedMsgs s) bs"
    "set as \<inter> set bs = {}" "dom (cells (memory s)) \<subseteq> set as \<union> set bs"
    using assms by (auto simp: state_inv_def queues_wf_alt)
  have conf: "queueDestroy (memory s) (Some (confirmedMsgs s)) = Ok (free_all (memory s) bs)"
    using queuePopAllMessages_ok[OF r(2)] by (auto simp: queueDestroy_def)
  have "represents (free_all (memory s) bs) (sending s) as"
    using represents_frame(1)[OF r(1) heap_frame_free_all] r(3) by blast
  then have "queueDestroy (free_all (memory s) bs) (Some (sending s)) = Ok (free_all (free_all (memory s) bs) as)"
    using queuePopAllMessages_ok by (fastforce simp: queueDestroy_def)
  moreover have "cells (free_all (free_all (memory s) bs) as) = (\<lambda>_. None)"
    using r(4) by (auto simp: free_all_def fun_eq_iff)
  ultimately show ?thesis
    using conf by (auto simp: programInterfaceDestroy_def Let_def)
qed

end
