(* ===== verification/Chat_Guarantees.thy ===== *)
theory Chat_Guarantees
  imports Chat_Invariant_Main
begin

text \<open>
  What a thread guarantees the others for its steps: a relation between the shared state before and
  after. The functions on queues, buffers and output give every guarantee that their primitive updates
  give; a whole turn of a thread gives it if the moves of the program state do, and if the other
  threads give it while the thread waits.
\<close>

section \<open>Guarantees\<close>

text \<open>\<open>guar R p\<close>: however \<open>p\<close> ends, the state it leaves is related to the one it started in.\<close>

definition guar :: "(ProgramInterface \<Rightarrow> ProgramInterface \<Rightarrow> bool) \<Rightarrow> 'a thread \<Rightarrow> bool" where
  "guar R p \<longleftrightarrow> (\<forall>s. ensures (R s) (p s))"

named_theorems guar_intros \<open>programs that give a guarantee\<close>

lemma guarI: "(\<And>s. ensures (R s) (p s)) \<Longrightarrow> guar R p"
  by (simp add: guar_def)

lemma guarD: "guar R p \<Longrightarrow> ensures (R s) (p s)"
  by (simp add: guar_def)

lemma ensures_mono: "ensures P r \<Longrightarrow> (\<And>s. P s \<Longrightarrow> Q s) \<Longrightarrow> ensures Q r"
  by (cases r) simp_all

text \<open>A program that looks at the state it starts in.\<close>

lemma guar_start: "(\<And>s. guar R (p s)) \<Longrightarrow> guar R (\<lambda>s. p s s)"
  by (simp add: guar_def)

lemmas guar_bind_start = guar_start[where p = "\<lambda>s. bind_prog (m s) (f s)" for m f]

section \<open>Functions that do not change the program state\<close>

locale quiet =
  fixes R :: "ProgramInterface \<Rightarrow> ProgramInterface \<Rightarrow> bool"
  assumes R_refl: "R s s"
    and R_trans: "R s1 s2 \<Longrightarrow> R s2 s3 \<Longrightarrow> R s1 s3"
    and R_sending: "R s (set_sending q s)"
    and R_confirmed: "R s (set_confirmed q s)"
    and R_memory: "R s (s\<lparr>memory := h\<rparr>)"
    and R_emit: "R s (emit es s)"
    and R_msgCounter: "R s (set_msgCounter n s)"
    and R_out: "R s (out_set ob b s)"
    and R_displayName: "R s (s\<lparr>comDetails := (comDetails s)\<lparr>displayName := b\<rparr>\<rparr>)"
    and R_channelID: "R s (s\<lparr>comDetails := (comDetails s)\<lparr>channelID := b\<rparr>\<rparr>)"
    and R_clientInput: "R s (s\<lparr>cleanUp := (cleanUp s)\<lparr>clientInput := b\<rparr>\<rparr>)"
    and R_serverResponse: "R s (s\<lparr>cleanUp := (cleanUp s)\<lparr>serverResponse := b\<rparr>\<rparr>)"
    and R_stdoutMutex: "R s (s\<lparr>threads := (threads s)\<lparr>stdoutMutex := x\<rparr>\<rparr>)"
    and R_source: "store_source source (netConfig s) = Ok net \<Longrightarrow> R s (s\<lparr>netConfig := net\<rparr>)"
begin

lemma guar_ret [guar_intros]: "guar R (ret a)"
  by (simp add: guar_def ret_def R_refl)

lemma guar_asks [guar_intros]: "guar R (asks f)" "guar R getProgramState"
  by (simp_all add: guar_def asks_def getProgramState_def R_refl)

lemma guar_lift_res [guar_intros]: "guar R (lift_res r)" "guar R (errExit c)" "guar R (read_sending f)"
  by (auto intro!: guarI simp: lift_res_def errExit_def read_sending_def R_refl split: res.split)

lemma guar_modify: "(\<And>s. R s (f s)) \<Longrightarrow> guar R (modify f)"
  by (simp add: guar_def modify_def)

lemma guar_bind [guar_intros]:
  assumes "guar R m" "\<And>a. guar R (f a)"
  shows "guar R (bind_prog m f)"
proof (rule guarI)
  fix s
  show "ensures (R s) (bind_prog m f s)"
  proof (cases "m s")
    case (Done a s1)
    then have "R s s1" using guarD[OF assms(1), of s] by simp
    with guarD[OF assms(2), of s1] R_trans have "ensures (R s) (f a s1)" by (blast intro: ensures_mono)
    then show ?thesis using Done by (simp add: bind_prog_def)
  qed (use guarD[OF assms(1), of s] in \<open>simp_all add: bind_prog_def\<close>)
qed

lemma guar_if [guar_intros]:
  "(b \<Longrightarrow> guar R p) \<Longrightarrow> (\<not> b \<Longrightarrow> guar R q) \<Longrightarrow> guar R (if b then p else q)"
  by simp

lemma guar_steps [guar_intros]:
  "guar R (steps [])" "guar R p \<Longrightarrow> guar R (steps ps) \<Longrightarrow> guar R (steps (p # ps))"
  by (auto intro!: guar_ret guar_bind)

lemma guar_when_state [guar_intros]: "guar R p \<Longrightarrow> guar R (when_state b p)"
  by (simp add: guar_def when_state_def R_refl)

lemma guar_cond_wait:
  "(\<And>f s. f \<in> set others \<Longrightarrow> R s (f s)) \<Longrightarrow> guar R (cond_wait c others)"
  by (cases others) (simp_all add: guar_def R_refl)

lemma locks [guar_intros]:
  "guar R lockSending" "guar R unlockSending" "guar R lockConfirmed" "guar R unlockConfirmed"
  by (auto intro!: guarI simp: lockSending_def unlockSending_def lockConfirmed_def unlockConfirmed_def bind_prog_def
      lift_res_def modify_def R_sending R_confirmed R_refl split: res.split option.split)

lemma queues [guar_intros]:
  "guar R (on_sending f)" "guar R (on_memory f')" "guar R (on_confirmed f)"
  by (auto intro!: guarI simp: on_sending_def on_memory_def on_confirmed_def bind_prog_def lift_res_def modify_def
      R_refl R_memory R_trans[OF R_memory R_sending] R_trans[OF R_memory R_confirmed] split: res.split)

lemma printing [guar_intros]:
  "guar R (modify (emit es))" "guar R (cond_signal c)" "guar R (safePrintStderr m)" "guar R (safePrintStdout m)"
  "guar R lockStdout" "guar R unlockStdout" "guar R printUserHelpMenu"
  by (auto intro!: guarI simp: cond_signal_def safePrintStderr_def safePrintStdout_def safePrint_def lockStdout_def
      unlockStdout_def printUserHelpMenu_def modify_def R_emit R_stdoutMutex R_refl)

lemma details [guar_intros]:
  "guar R (modify (set_msgCounter n))" "guar R (store_displayName alloc blk)" "guar R (store_channelID alloc blk)"
  "guar R (setClientInput b)" "guar R (set_responseUsed k)"
  by (auto intro!: guarI simp: store_displayName_def store_channelID_def setClientInput_def set_responseUsed_def
      bind_prog_def lift_res_def modify_def R_msgCounter R_displayName R_channelID R_clientInput R_serverResponse
      R_refl      split: res.split)

lemma out_buffers [guar_intros]: "guar R (resize_out alloc ob k)" "guar R (assemble f ob pb)"
proof -
  have set: "guar R (modify (out_set ob b))" for b by (rule guar_modify) (rule R_out)
  show "guar R (resize_out alloc ob k)"
    unfolding resize_out_def by (rule guar_bind_start) (intro guar_intros set)
  show "guar R (assemble f ob pb)"
    unfolding assemble_def by (rule guar_bind_start) (auto intro!: guar_intros set split: prod.split)
qed

lemma assembling [guar_intros]: "guar R (assemble_variant alloc ob pb)"
proof -
  have "guar R (bind_prog (assemble f ob pb) (\<lambda>r. ret (Some r)))" for f by (intro guar_intros)
  from guarD[OF this] show ?thesis by (intro guarI) (simp add: assemble_variant_def R_refl)
qed

lemma messages [guar_intros]:
  "guar R (sendConfirm alloc flags)" "guar R (sendBye alloc)" "guar R (sendError alloc ob m)"
  unfolding sendConfirm_def sendBye_def sendError_def
  by (auto intro!: guar_intros split: prod.split option.split)

lemma receiving [guar_intros]:
  "guar R (printIncomingMessage pb)" "guar R (print_reply w pb)" "guar R popAll" "guar R wakeSender"
  "guar R (confirmLocked alloc)" "guar R (setFirstFlags fl)" "guar R (filterRepeated alloc pb)"
proof -
  show "guar R (printIncomingMessage pb)" "guar R (print_reply w pb)" "guar R popAll" "guar R wakeSender"
    "guar R (confirmLocked alloc)" "guar R (setFirstFlags fl)"
    unfolding printIncomingMessage_def print_reply_def popAll_def wakeSender_def confirmLocked_def setFirstFlags_def Let_def
    by (auto intro!: guar_intros)
  have "guar R (\<lambda>s. case queueContainsMessageId (memory s) (Some (confirmedMsgs s))
      (serverResponse (cleanUp s)) (pb_type pb) of None \<Rightarrow> Blocked s | Some r \<Rightarrow> lift_res r s)"
    by (auto intro!: guarI simp: lift_res_def R_refl split: option.split res.split)
  then show "guar R (filterRepeated alloc pb)"
    unfolding filterRepeated_def by (auto intro!: guar_intros)
qed

lemma reception [guar_intros]: "guar R (recvfrom source bs)"
proof (rule guarI)
  fix s
  have "R s (s\<lparr>netConfig := net, cleanUp := (cleanUp s)\<lparr>serverResponse := b\<rparr>\<rparr>)"
    if "store_source source (netConfig s) = Ok net" for net b
    using R_serverResponse[where s = "s\<lparr>netConfig := net\<rparr>" and b = b] R_trans[OF R_source[OF that]] by simp
  then show "ensures (R s) (recvfrom source bs s)"
    by (auto simp: recvfrom_def bind_prog_def lift_res_def modify_def ret_def Let_def R_refl split: res.split)
qed

lemma others [guar_intros]:
  "guar R (sendFirst sendto a)" "guar R (enqueueMessage alloc flags ty)" "guar R (replaceByBye alloc)"
  "guar R (destroyAndExit code)"
proof -
  show "guar R (sendFirst sendto a)" "guar R (enqueueMessage alloc flags ty)" "guar R (replaceByBye alloc)"
    unfolding sendFirst_def enqueueMessage_def replaceByBye_def by (auto intro!: guar_intros)
  show "guar R (destroyAndExit code)"
    unfolding destroyAndExit_def by (rule guar_bind_start) (auto intro!: guar_intros split: prod.split)
qed

lemma restarted [guar_intros]:
  "guar R (\<lambda>s. on_memory (\<lambda>h q. queueSetMessageID h (Some q) (msgCounter (comDetails s))) s)"
  "guar R (modify (\<lambda>s. set_msgCounter (msgCounter (comDetails s) + 1) s))"
  by (rule guar_start, rule queues) (simp add: guar_modify R_msgCounter)

end

text \<open>These functions leave the state of the program alone.\<close>

lemma out_set_fields [simp]: "threads (out_set ob b s) = threads s" "netConfig (out_set ob b s) = netConfig s"
  by (cases ob; simp)+

abbreviation same_fsm :: "ProgramInterface \<Rightarrow> ProgramInterface \<Rightarrow> bool" where
  "same_fsm s s' \<equiv> fsm s' = fsm s"

interpretation fsm_part: quiet same_fsm
  by unfold_locales (simp_all add: state_defs)

section \<open>Moves of the program state\<close>

text \<open>
  The moves of the state machine: the way to the open state and back, and the states in which the
  program ends, which are entered from everywhere (or from the error states, when the ERR or the BYE is
  sent) and never left for one of the others.
\<close>

fun fsm_move :: "fsm_t \<Rightarrow> fsm_t \<Rightarrow> bool" where
  "fsm_move x fsm_EMPTY_Q_BYE = True"
| "fsm_move x fsm_ERR = True"
| "fsm_move x fsm_SIGINT_BYE = True"
| "fsm_move x fsm_END = True"
| "fsm_move x fsm_ERR_W84_CONF = (x = fsm_ERR \<or> x = fsm_ERR_W84_CONF)"
| "fsm_move x fsm_END_W84_CONF = (x = fsm_ERR \<or> x = fsm_ERR_W84_CONF)"
| "fsm_move x fsm_AUTH_W82_BE_SENDED = (x = fsm_START)"
| "fsm_move x fsm_AUTH_SENDED = (x = fsm_START \<or> x = fsm_AUTH_W82_BE_SENDED)"
| "fsm_move x fsm_W84_REPLY = (x = fsm_AUTH_SENDED)"
| "fsm_move x fsm_W84_REPLY_CONF = (x = fsm_W84_REPLY \<or> x = fsm_JOIN_ATEMPT)"
| "fsm_move x fsm_OPEN = (x = fsm_W84_REPLY_CONF \<or> x = fsm_AUTH_SENDED \<or> x = fsm_JOIN_ATEMPT)"
| "fsm_move x fsm_JOIN_ATEMPT = (x = fsm_OPEN)"
| "fsm_move x fsm_START = (x = fsm_AUTH_SENDED \<or> x = fsm_W84_REPLY \<or> x = fsm_JOIN_ATEMPT)"

text \<open>A guarantee for runs that start in a given state of the program.\<close>

definition guar_from ::
  "(ProgramInterface \<Rightarrow> ProgramInterface \<Rightarrow> bool) \<Rightarrow> fsm_t \<Rightarrow> 'a thread \<Rightarrow> bool"
where
  "guar_from R x p \<longleftrightarrow> (\<forall>s. fsm s = x \<longrightarrow> ensures (R s) (p s))"

lemma guar_from: "guar R p \<longleftrightarrow> (\<forall>x. guar_from R x p)"
  by (simp add: guar_def guar_from_def)

lemma guar_from_any: "guar R p \<Longrightarrow> guar_from R x p"
  by (simp add: guar_from)

lemma guar_get: "(\<And>x. guar_from R x (f x)) \<Longrightarrow> guar R (bind_prog getProgramState f)"
  by (simp add: guar_def guar_from_def bind_prog_def getProgramState_def asks_def)

lemma guar_from_get: "guar_from R x (f x) \<Longrightarrow> guar_from R x (bind_prog getProgramState f)"
  by (simp add: guar_from_def bind_prog_def getProgramState_def asks_def)

lemma guar_from_if:
  "(b \<Longrightarrow> guar_from R x p) \<Longrightarrow> (\<not> b \<Longrightarrow> guar_from R x q) \<Longrightarrow> guar_from R x (if b then p else q)"
  by simp

locale stepping = quiet +
  assumes R_move: "fsm_move (fsm s) y \<Longrightarrow> R s (set_fsm y s)"
begin

lemma from_set: "fsm_move x y \<Longrightarrow> guar_from R x (setProgramState y)"
  by (auto simp: guar_from_def setProgramState_def modify_def R_move)

lemma set_any [guar_intros]: "(\<And>x. fsm_move x y) \<Longrightarrow> guar R (setProgramState y)"
  by (simp add: guar_from from_set)

lemma from_bind_any:
  assumes "guar_from R x m" "\<And>a. guar R (f a)"
  shows "guar_from R x (bind_prog m f)"
  unfolding guar_from_def
proof (intro allI impI)
  fix s assume "fsm s = x"
  then have "ensures (R s) (m s)" using assms(1) by (simp add: guar_from_def)
  then show "ensures (R s) (bind_prog m f s)"
    using guarD[OF assms(2)] by (cases "m s") (auto simp: bind_prog_def intro: ensures_mono R_trans)
qed

lemma from_bind:
  assumes "guar R m" "guar same_fsm m" "\<And>a. guar_from R x (f a)"
  shows "guar_from R x (bind_prog m f)"
  unfolding guar_from_def
proof (intro allI impI)
  fix s assume "fsm s = x"
  then show "ensures (R s) (bind_prog m f s)"
    using guarD[OF assms(1), of s] guarD[OF assms(2), of s] assms(3)
    by (cases "m s") (auto simp: bind_prog_def guar_from_def intro: ensures_mono R_trans)
qed

lemma from_when_state:
  assumes "\<And>s. fsm s = x \<Longrightarrow> b s \<Longrightarrow> guar_from R x p"
  shows "guar_from R x (when_state b p)"
  using assms by (auto simp: guar_from_def when_state_def R_refl)

lemma guar_handleConfirmUDP: "guar R (handleConfirmUDP msgID)"
proof -
  have "guar_from R x (case x of fsm_AUTH_SENDED \<Rightarrow> setProgramState fsm_W84_REPLY
            | fsm_END_W84_CONF \<Rightarrow> steps [setProgramState fsm_END, cond_signal mainCond]
            | fsm_OPEN \<Rightarrow> cond_signal mainCond
            | _ \<Rightarrow> ret ())" for x
    by (cases "x = fsm_AUTH_SENDED")
      (simp add: from_set, auto intro!: guar_from_any guar_intros split: fsm_t.split)
  then have moves: "guar R (bind_prog getProgramState (\<lambda>st. bind_prog (case st of
              fsm_AUTH_SENDED \<Rightarrow> setProgramState fsm_W84_REPLY
            | fsm_END_W84_CONF \<Rightarrow> steps [setProgramState fsm_END, cond_signal mainCond]
            | fsm_OPEN \<Rightarrow> cond_signal mainCond
            | _ \<Rightarrow> ret ()) (\<lambda>_. steps [cond_signal rec2SenderCond, unlockSending])))"
    by (intro guar_get from_bind_any) (auto intro!: guar_intros)
  show ?thesis
    unfolding handleConfirmUDP_def by (rule moves guar_intros)+
qed

lemma guar_accept:
  assumes "x = fsm_W84_REPLY \<or> x = fsm_JOIN_ATEMPT"
  shows "guar_from R x (steps
      [when_state (\<lambda>s. fsm s = fsm_W84_REPLY)
         (steps [lockSending, setFirstFlags msg_flag_CONFIRMED, unlockSending]),
       setProgramState fsm_W84_REPLY_CONF,
       lockSending, sendConfirm alloc msg_flag_CONFIRM, unlockSending,
       cond_signal senderEmptyQueueCond, cond_signal rec2SenderCond, print_reply w pb])"
  unfolding steps.simps
  by (rule from_bind, (auto intro!: guar_intros)[2], rule from_bind_any)
    (use assms in \<open>auto intro!: from_set guar_intros\<close>)

lemma guar_reject:
  assumes "x = fsm_W84_REPLY \<or> x = fsm_JOIN_ATEMPT"
  shows "guar_from R x (bind_prog lockSending (\<lambda>_.
     bind_prog (read_sending (\<lambda>h q. queueGetMessageFlags h (Some q))) (\<lambda>flags.
     steps
      [if flags = msg_flag_AUTH
       then steps [setFirstFlags msg_flag_REJECTED, setProgramState fsm_START]
       else ret (),
       when_state (\<lambda>s. fsm s = fsm_JOIN_ATEMPT) (setProgramState fsm_OPEN),
       sendConfirm alloc msg_flag_NOK_REPLY, unlockSending, print_reply w pb, cond_signal mainCond])))"
proof -
  have open_again: "guar R (when_state (\<lambda>s. fsm s = fsm_JOIN_ATEMPT) (setProgramState fsm_OPEN))"
    by (simp add: guar_from) (auto intro!: from_when_state from_set)
  have "guar_from R x (steps [setFirstFlags msg_flag_REJECTED, setProgramState fsm_START])"
    unfolding steps.simps
    by (rule from_bind, (auto intro!: guar_intros)[2], rule from_bind_any)
      (use assms in \<open>auto intro!: from_set guar_intros\<close>)
  then have "guar_from R x (if flags = msg_flag_AUTH
       then steps [setFirstFlags msg_flag_REJECTED, setProgramState fsm_START] else ret ())" for flags
    by (auto intro!: guar_from_any guar_intros)
  then have "guar_from R x (steps
      [if flags = msg_flag_AUTH
       then steps [setFirstFlags msg_flag_REJECTED, setProgramState fsm_START]
       else ret (),
       when_state (\<lambda>s. fsm s = fsm_JOIN_ATEMPT) (setProgramState fsm_OPEN),
       sendConfirm alloc msg_flag_NOK_REPLY, unlockSending, print_reply w pb, cond_signal mainCond])" for flags
    by (subst steps.simps) (rule from_bind_any, auto intro!: guar_intros open_again)
  then show ?thesis
    by (intro from_bind) (auto intro!: guar_intros)
qed

lemma guar_handleReplyUDP: "guar R (handleReplyUDP alloc msgID pb)"
proof -
  have "guar_from R x (handleReplyUDP alloc msgID pb)" for x
    unfolding handleReplyUDP_def
    by (rule from_when_state, rule from_bind, (auto intro!: guar_intros)[2], rule from_bind_any)
      (auto intro!: guar_accept guar_reject guar_intros simp del: steps.simps)
  then show ?thesis by (simp add: guar_from)
qed

lemma guar_replyTCP: "guar R (replyTCP pb)"
proof -
  have "guar_from R x (bind_prog (print_reply w pb) (\<lambda>_. bind_prog getProgramState (\<lambda>st.
         setProgramState (if st = fsm_JOIN_ATEMPT then fsm_OPEN else fsm_START))))"
    "guar_from R x (steps [print_reply w pb, setProgramState fsm_OPEN])"
    if "x = fsm_AUTH_SENDED \<or> x = fsm_JOIN_ATEMPT" for x w
    unfolding steps.simps
    by (rule from_bind; auto intro!: guar_intros guar_from_get from_set from_bind_any; use that in auto)+
  then show ?thesis
    unfolding replyTCP_def by (auto intro!: guar_get guar_from_any[OF guar_ret] guar_from_if)
qed

lemma guar_receiverFSM: "guar R (receiverFSM alloc msgID pb)"
  unfolding receiverFSM_def
  by (rule guar_bind_start) (auto intro!: guar_intros guar_handleConfirmUDP guar_handleReplyUDP guar_replyTCP
      split: msg_t.split)

lemma guar_receiveOne: "guar R (receiveOne alloc source bs v)"
proof -
  have "guar R (\<lambda>s.
       if is_UDP s then lift_res (disassebleProtocolUDP (serverResponse (cleanUp s)) pb) s
       else if is_TCP s
       then bind_prog (lift_res (disassebleProtocolTCP (serverResponse (cleanUp s)) pb))
              (\<lambda>pb. ret (pb, msgID)) s
       else Done (pb, msgID) s)" for pb msgID
    by (auto intro!: guarI simp: bind_prog_def lift_res_def ret_def R_refl split: res.split)
  then show ?thesis
    unfolding receiveOne_def by (auto intro!: guar_intros guar_receiverFSM split: prod.split)
qed

lemma guar_filterOne: "guar R (filterOne alloc r a)"
  unfolding filterOne_def by (auto intro!: guar_intros)

lemma filterLoop_guar: "ensures (R s) (filterLoop alloc r s)"
proof (induction alloc r s rule: filterLoop.induct)
  case (1 alloc r s)
  show ?case
  proof (cases "\<exists>a. queueGetMessage (Some (sending s)) = Ok (Some a)")
    case False
    then show ?thesis
      by (subst filterLoop.simps) (auto simp: R_refl split: res.splits option.splits)
  next
    case True
    then obtain a where a: "queueGetMessage (Some (sending s)) = Ok (Some a)" by blast
    note one = guarD[OF guar_filterOne[of alloc r a], of s]
    have "ensures (R s) (filterLoop alloc r' (set_sending q (s'\<lparr>memory := h\<rparr>)))"
      if s': "filterOne alloc r a s = Done (True, r') s'"
        and pop: "queuePopMessage (memory s') (Some (sending s')) = Ok (h, q)" for r' s' h q
    proof -
      have "R s s'" using one s' by simp
      then have "R s (set_sending q (s'\<lparr>memory := h\<rparr>))" using R_memory R_sending R_trans by blast
      then show ?thesis using 1[OF a refl s' refl _ pop refl] R_trans by (blast intro: ensures_mono)
    qed
    then show ?thesis
      using a one by (subst filterLoop.simps) (auto split: outcome.splits res.splits)
  qed
qed

lemma guar_filterResentMessages: "guar R (filterResentMessages alloc)"
  by (simp add: guar_def filterResentMessages_def filterLoop_guar)

lemma guar_logicBody:
  assumes again: "guar R again" and others: "\<And>f s. f \<in> set others \<Longrightarrow> R s (f s)"
  shows "guar R (logicBody again others)"
proof -
  have wait: "guar R (cond_wait rec2SenderCond others)" using others by (rule guar_cond_wait)
  have auth: "guar_from R x (when_state (\<lambda>s. flags = msg_flag_AUTH \<and> fsm s \<le> fsm_AUTH_W82_BE_SENDED)
      (setProgramState fsm_AUTH_SENDED))" for x flags
    by (cases x) (auto intro!: from_when_state from_set simp: less_eq_fsm_t_def)
  have confirmed: "guar_from R x (if msgType = msg_CONF
      then steps [setProgramState fsm_OPEN, cond_signal mainCond] else ret ())" if "x = fsm_W84_REPLY_CONF" for x msgType
    using that by (auto intro!: guar_from_if from_bind_any from_set guar_intros guar_from_any[OF guar_ret])
  have opened: "guar_from R x (case msgType of
            msg_AUTH \<Rightarrow>
              steps [safePrintStderr (bytes_of
                       ''ERR: You are already autheticated, this message will be ignored.''),
                     on_sending (\<lambda>h q. queuePopMessage h (Some q))]
          | msg_JOIN \<Rightarrow> setProgramState fsm_JOIN_ATEMPT
          | _ \<Rightarrow> ret ())" if "x = fsm_OPEN" for x msgType
    using that by (cases "msgType = msg_JOIN") (simp add: from_set, auto intro!: guar_from_any guar_intros split: msg_t.split)
  have ending: "guar_from R x
      (if flags = msg_flag_BYE then
            (\<lambda>s. if is_UDP s then setProgramState fsm_END_W84_CONF s
                 else if is_TCP s
                 then steps [setProgramState fsm_END, cond_signal mainCond] s
                 else Done () s)
          else if flags = msg_flag_ERR then when_state is_UDP (setProgramState fsm_ERR_W84_CONF)
          else if flags = msg_flag_CONFIRM then ret ()
          else errExit err_INTERNAL_BAD_ARG)" if "x = fsm_ERR_W84_CONF \<or> x = fsm_ERR" for flags x
  proof -
    have "guar R (steps [setProgramState fsm_END, cond_signal mainCond])" by (auto intro!: guar_intros)
    then show ?thesis
      using that from_set[of x fsm_END_W84_CONF] from_set[of x fsm_ERR_W84_CONF]
      by (auto intro!: guar_from_if from_when_state guar_from_any[OF guar_ret] guar_from_any[OF guar_lift_res(2)]
          simp del: steps.simps)
        (auto simp: guar_from_def guar_def R_refl simp del: steps.simps)
  qed
  have waiting: "guar R (if msgType \<noteq> msg_AUTH \<and> flags \<noteq> msg_flag_NOK_REPLY then
         bind_prog unlockSending (\<lambda>_.
         bind_prog (cond_wait rec2SenderCond others) (\<lambda>others.
         bind_prog lockSending (\<lambda>_. ret others)))
       else if msgType = msg_AUTH then
         bind_prog (read_sending (\<lambda>h q. deref h msgToBeSend)) (\<lambda>m.
         if confirmed m \<and> sendCount m > 0
         then bind_prog unlockSending (\<lambda>_. again)
         else ret others)
       else ret others)" for msgType flags msgToBeSend
    by (rule again wait guar_intros)+
  show ?thesis
    unfolding logicBody_def
    by (rule guar_bind[OF guar_lift_res(3)] guar_get)+
      (rule guar_from_if from_bind_any[OF auth waiting] from_bind_any[OF confirmed guar_ret]
        from_bind_any[OF opened guar_ret] from_bind_any[OF ending guar_ret] guar_from_any[OF guar_ret] | assumption)+
qed

lemma guar_logicFSM: "(\<And>f s. f \<in> set others \<Longrightarrow> R s (f s)) \<Longrightarrow> guar R (logicFSM others)"
proof (induction others)
  case Nil
  show ?case unfolding logicFSM.simps by (rule guar_logicBody) (auto intro: guarI simp: R_refl)
next
  case (Cons f others)
  then have "guar R (logicFSM others)" "guar R (modify f)" by (auto intro!: guar_modify)
  then show ?case
    unfolding logicFSM.simps by (intro guar_logicBody guar_intros) (use Cons.prems in auto)
qed

lemma guar_bind_returns:
  assumes "guar R m" "returns P m" "\<And>a. P a \<Longrightarrow> guar R (f a)"
  shows "guar R (bind_prog m f)"
proof (rule guarI)
  fix s
  show "ensures (R s) (bind_prog m f s)"
  proof (cases "m s")
    case (Done a s1)
    then have "R s s1" "guar R (f a)"
      using guarD[OF assms(1), of s] assms(2,3) by (auto simp: returns_def)
    then have "ensures (R s) (f a s1)" using R_trans by (blast intro: ensures_mono dest: guarD)
    then show ?thesis using Done by (simp add: bind_prog_def)
  qed (use guarD[OF assms(1), of s] in \<open>simp_all add: bind_prog_def\<close>)
qed

lemma guar_senderTurnWith:
  assumes "\<And>f s. f \<in> set others \<Longrightarrow> R s (f s)" "\<And>s. R s (room s)"
  shows "guar R (senderTurnWith room alloc sendto others)"
proof -
  have room: "guar R (modify room)" using assms(2) by (simp add: guar_def modify_def)
  have wait: "guar R (cond_wait c others')" if "set others' \<subseteq> set others" for c others'
    using that assms(1) by (intro guar_cond_wait) auto
  have logic: "guar R (logicFSM others)" "returns (\<lambda>x. set x \<subseteq> set others) (logicFSM others)"
    using guar_logicFSM[of others] assms(1) returns_logicFSM by auto
  show ?thesis
    unfolding senderTurnWith_def
    by (rule guar_bind_start)
      (rule guar_bind_returns[OF logic] wait room subset_refl guar_filterResentMessages restarted guar_intros
        | assumption | simp only: fsm_move.simps)+
qed

lemma guar_filterCommandsByFSM: "guar R (filterCommandsByFSM alloc pb flags)"
proof -
  have "guar_from R x (if x = fsm_START
      then bind_prog (setProgramState fsm_AUTH_W82_BE_SENDED) (\<lambda>_. ret (True, msg_flag_AUTH))
      else bind_prog (safePrintStderr not_connected) (\<lambda>_. ret (False, flags)))" for x
    by (rule guar_from_if, rule from_bind_any[OF from_set guar_ret], simp)
      (intro guar_from_any guar_intros)
  then have auth: "guar R (bind_prog getProgramState (\<lambda>st. if st = fsm_START
      then bind_prog (setProgramState fsm_AUTH_W82_BE_SENDED) (\<lambda>_. ret (True, msg_flag_AUTH))
      else bind_prog (safePrintStderr not_connected) (\<lambda>_. ret (False, flags))))"
    by (rule guar_get)
  show ?thesis
    unfolding filterCommandsByFSM_def Let_def
    by (cases "uchar2CommandType (pb_type pb)"; simp only: cmd_t.case; (rule auth guar_intros)+)
qed

lemma guar_sendCommand:
  assumes "\<And>f s. f \<in> set (mothers v) \<Longrightarrow> R s (f s)"
  shows "guar R (sendCommand alloc pb flags v)"
proof -
  have "guar R (cond_wait mainCond (mothers v))" using assms by (rule guar_cond_wait)
  then show ?thesis
    unfolding sendCommand_def Let_def
    by (auto intro!: guar_intros guar_filterCommandsByFSM split: prod.split)
qed

lemma guar_commandTurn:
  assumes "\<And>f s. f \<in> set (mothers v) \<Longrightarrow> R s (f s)"
  shows "guar R (commandTurn alloc v)"
proof -
  have "guar R (sendCommand alloc pb flags (v\<lparr>eofDetected := eof, stdin := rest\<rparr>))" for pb flags eof rest
    using assms by (intro guar_sendCommand) simp
  moreover have "guar R (\<lambda>s. lift_res (loadBufferFromStdin alloc (clientInput (cleanUp s)) False (stdin v)) s)"
    by (rule guar_start) (rule guar_lift_res)
  ultimately show ?thesis
    unfolding commandTurn_def by (auto intro!: guar_intros split: prod.split)
qed

lemma guar_errHandling:
  assumes "\<And>f s. f \<in> set others \<Longrightarrow> R s (f s)"
  shows "guar R (errHandling alloc others msg c)"
proof -
  have "guar R (cond_wait mainCond others)" using assms by (rule guar_cond_wait)
  then show ?thesis unfolding errHandling_def by (auto intro!: guar_intros)
qed

lemma guar_sigintHandler:
  assumes "\<And>f s. f \<in> set others \<Longrightarrow> R s (f s)"
  shows "guar R (sigintHandler alloc others)"
proof -
  have "guar R (cond_wait mainCond others)" using assms by (rule guar_cond_wait)
  then show ?thesis unfolding sigintHandler_def by (auto intro!: guar_intros)
qed

end

end
