(* ===== verification/Chat_System.thy ===== *)
theory Chat_System
  imports Chat_Guarantees
begin

text \<open>
  The three threads together. A thread gives way to the others when it waits on a condition, between the
  turns of its loop, and, the sender, where it releases the mutex of the queue to make room. An act is what a
  thread does in one turn, with the acts of the others at these points nested inside; a reachable state is
  one that a sequence of acts leads to. So a turn is atomic between these points: what is reachable only by
  switching threads elsewhere inside a turn is not covered, for example between the test of the program state
  and its change, which the code does in two critical sections, or at the few accesses to the
  sending queue that forget its mutex.
\<close>

section \<open>Interleavings\<close>

text \<open>The state a program leaves behind, whatever way it ends; undefined behaviour leaves none, and such a turn adds no
  state to those already reachable.\<close>

definition left_state :: "'a thread \<Rightarrow> interference" where
  "left_state p s =
     (case p s of Done a s' \<Rightarrow> s' | Exits c s' \<Rightarrow> s' | Blocked s' \<Rightarrow> s' | Crashes e \<Rightarrow> s)"

inductive act :: "allocator \<Rightarrow> interference \<Rightarrow> bool" for alloc :: allocator where
  idle: "act alloc (\<lambda>s. s)"
| seq: "act alloc f \<Longrightarrow> act alloc g \<Longrightarrow> act alloc (\<lambda>s. g (f s))"
| receiver_turn: "act alloc (left_state (receiveOne alloc source bs v))"
| sender_turn: "(\<And>f. f \<in> set others \<Longrightarrow> act alloc f) \<Longrightarrow> act alloc room \<Longrightarrow>
    act alloc (left_state (senderTurnWith room alloc sendto others))"
| main_turn: "(\<And>f. f \<in> set (mothers v) \<Longrightarrow> act alloc f) \<Longrightarrow>
    act alloc (left_state (commandTurn alloc v))"
| error: "(\<And>f. f \<in> set others \<Longrightarrow> act alloc f) \<Longrightarrow>
    act alloc (left_state (errHandling alloc others msg c))"
| sigint: "(\<And>f. f \<in> set others \<Longrightarrow> act alloc f) \<Longrightarrow>
    act alloc (left_state (sigintHandler alloc others))"

text \<open>The main thread first configures the program and connects; the other threads start after it.\<close>

inductive reachable :: "allocator \<Rightarrow> ProgramInterface \<Rightarrow> bool" for alloc :: allocator where
  start: "programInterfaceInit granted net = Ok s \<Longrightarrow> configure alloc opts s = Done () s1 \<Longrightarrow>
    connectServer sys s1 = Done () s2 \<Longrightarrow>
    bufferResize alloc (serverResponse (cleanUp s2)) RECV_SIZE = Ok b \<Longrightarrow>
    reachable alloc (s2\<lparr>cleanUp := (cleanUp s2)\<lparr>serverResponse := b\<rparr>\<rparr>)"
| step: "reachable alloc s \<Longrightarrow> act alloc f \<Longrightarrow> reachable alloc (f s)"

inductive_cases reachableE: "reachable alloc s"

section \<open>Invariants of the system\<close>

text \<open>
  What every part promises for an invariant of the whole: it holds when the main thread has configured
  the program and connected, and each thread and each handler keeps it in one turn, provided the others
  do while it waits.
\<close>

locale system_invariant =
  fixes alloc :: allocator
    and I :: "ProgramInterface \<Rightarrow> bool"
  assumes started: "programInterfaceInit granted net = Ok s \<Longrightarrow> configure alloc opts s = Done () s1 \<Longrightarrow>
      connectServer sys s1 = Done () s2 \<Longrightarrow>
      bufferResize alloc (serverResponse (cleanUp s2)) RECV_SIZE = Ok b \<Longrightarrow>
      I (s2\<lparr>cleanUp := (cleanUp s2)\<lparr>serverResponse := b\<rparr>\<rparr>)"
    and receiving: "keeps I (receiveOne alloc source bs v)"
    and sending: "(\<And>f s. f \<in> set others \<Longrightarrow> I s \<Longrightarrow> I (f s)) \<Longrightarrow> (\<And>s. I s \<Longrightarrow> I (room s)) \<Longrightarrow>
      keeps I (senderTurnWith room alloc sendto others)"
    and commanding: "(\<And>f s. f \<in> set (mothers w) \<Longrightarrow> I s \<Longrightarrow> I (f s)) \<Longrightarrow> keeps I (commandTurn alloc w)"
    and failing: "(\<And>f s. f \<in> set others \<Longrightarrow> I s \<Longrightarrow> I (f s)) \<Longrightarrow> keeps I (errHandling alloc others msg c)"
    and interrupting: "(\<And>f s. f \<in> set others \<Longrightarrow> I s \<Longrightarrow> I (f s)) \<Longrightarrow> keeps I (sigintHandler alloc others)"
begin

lemma left_state_keeps:
  assumes "keeps I p" "I s"
  shows "I (left_state p s)"
  using keepsD[OF assms] assms(2) by (cases "p s") (simp_all add: left_state_def)

lemma act_keeps: "act alloc f \<Longrightarrow> I s \<Longrightarrow> I (f s)"
proof (induction arbitrary: s rule: act.induct)
  case (receiver_turn source bs v)
  then show ?case by (intro left_state_keeps receiving)
next
  case (sender_turn others room sendto)
  then show ?case by (intro left_state_keeps sending) auto
next
  case (main_turn v)
  then show ?case by (intro left_state_keeps commanding) auto
next
  case (error others msg c)
  then show ?case by (intro left_state_keeps failing) auto
next
  case (sigint others)
  then show ?case by (intro left_state_keeps interrupting) auto
qed simp_all

lemma reachable_keeps: "reachable alloc s \<Longrightarrow> I s"
proof (induction rule: reachable.induct)
  case (start granted net s opts s1 sys s2 b)
  then show ?case by (rule started)
next
  case (step s f)
  show ?case by (rule act_keeps[OF step(2,3)])
qed

end

section \<open>The state the threads start in\<close>

lemma keeps_upd_net [keeps_intros]: "keeps state_inv (upd_net f)"
  unfolding upd_net_def by (intro keeps_modify) simp

lemma keeps_printCliHelpMenu [keeps_intros]: "keeps state_inv (printCliHelpMenu name)"
  unfolding printCliHelpMenu_def by (intro keeps_intros)

lemma set_ipAddress_keeps:
  assumes "sane alloc" "buf_ok b" "set_ipAddress alloc optarg b = Ok b'"
  shows "buf_ok b'"
proof -
  obtain b1 d b2 where b1: "bufferResize alloc b (length optarg + 1) = Ok b1"
    and d: "stringReplace (data b1) 0 (literal optarg) (length optarg) = Ok d"
    and b2: "buf_write (b1\<lparr>data := d\<rparr>) (length optarg) 0 = Ok b2"
    and b': "b' = b2\<lparr>used := length optarg + 1\<rparr>"
    using assms(3) by (auto simp: set_ipAddress_def res_bind_eq_Ok Let_def)
  have "buf_ok (b1\<lparr>data := d\<rparr>)"
    using bufferResize_keeps[OF assms(1,2) b1] by (intro buf_ok_data_length stringReplace_length[OF d]) simp
  then have "buf_ok b2" "length optarg < allocated b2" using buf_write_keeps[OF _ b2] by auto
  then show ?thesis unfolding b' by (intro buf_ok_used) auto
qed

lemma keeps_read_start:
  "(\<And>s a. I s \<Longrightarrow> g s = Ok a \<Longrightarrow> keeps I (f a)) \<Longrightarrow> keeps I (\<lambda>s. bind_prog (lift_res (g s)) f s)"
  using keeps_read_bind[of I g f] by (simp add: bind_prog_def[abs_def])

lemma keeps_processArguments: "sane alloc \<Longrightarrow> keeps state_inv (processArguments alloc opts)"
proof (induction opts)
  case Nil
  then show ?case by (auto intro: keeps_intros)
next
  case (Cons opt opts)
  have "keeps state_inv (\<lambda>s. bind_prog (lift_res (set_ipAddress alloc optarg (clientInput (cleanUp s))))
                   setClientInput s)" for optarg
    by (rule keeps_read_start)
      (auto intro!: keeps_setClientInput dest: set_ipAddress_keeps[OF Cons.prems state_inv_bufs(5)])
  then show ?case
    using Cons by (auto intro!: keeps_intros split: cli_option.split)
qed

lemma keeps_configure: "sane alloc \<Longrightarrow> keeps state_inv (configure alloc opts)"
  unfolding configure_def by (auto intro!: keeps_intros keeps_processArguments)

lemma keeps_findServer [keeps_intros]: "keeps state_inv (findServer sys p port)"
  unfolding findServer_def Let_def by (auto intro!: keeps_intros split: option.split)

lemma keeps_connectServer: "keeps state_inv (connectServer sys)"
  unfolding connectServer_def
  by (rule keeps_bind_start) (auto intro!: keeps_intros)

lemma keeps_under: "(c \<Longrightarrow> keeps I p) \<Longrightarrow> keeps (\<lambda>s. c \<longrightarrow> I s) p"
proof (cases c)
  case False
  have "ensures (\<lambda>s. c \<longrightarrow> I s) o'" for o' using False by (cases o') simp_all
  then show ?thesis by (simp only: keeps_def) blast
qed simp

text \<open>The invariant of the queues and buffers is one, on an allocator that refuses what no machine has.\<close>

lemma started_state_inv:
  assumes "sane alloc" "programInterfaceInit granted net = Ok s" "configure alloc opts s = Done () s1"
    "connectServer sys s1 = Done () s2" "bufferResize alloc (serverResponse (cleanUp s2)) RECV_SIZE = Ok b"
  shows "state_inv (s2\<lparr>cleanUp := (cleanUp s2)\<lparr>serverResponse := b\<rparr>\<rparr>)"
proof -
  have "s = initial_interface net" using assms(2) by (auto simp: programInterfaceInit_def res_bind_eq_Ok)
  then have "state_inv s" by (simp add: state_inv_initial)
  then have "state_inv s1" using keepsD[OF keeps_configure[OF assms(1)], of s opts] assms(3) by simp
  then have "state_inv s2" using keepsD[OF keeps_connectServer, of s1 sys] assms(4) by simp
  then show ?thesis
    using bufferResize_keeps[OF assms(1) state_inv_bufs(6) assms(5)] state_inv_serverResponse by blast
qed

interpretation wf: system_invariant alloc "\<lambda>s. sane alloc \<longrightarrow> state_inv s" for alloc
proof unfold_locales
  show "sane alloc \<longrightarrow> state_inv (s2\<lparr>cleanUp := (cleanUp s2)\<lparr>serverResponse := b\<rparr>\<rparr>)"
    if "programInterfaceInit granted net = Ok s" "configure alloc opts s = Done () s1"
      "connectServer sys s1 = Done () s2" "bufferResize alloc (serverResponse (cleanUp s2)) RECV_SIZE = Ok b"
    for granted net s opts s1 sys s2 b
    using started_state_inv[OF _ that] by blast
qed (auto intro!: keeps_under keeps_receiveOne keeps_senderTurnWith
    keeps_commandTurn keeps_errHandling keeps_sigintHandler simp: polite_def)

lemmas reachable_state_inv = wf.reachable_keeps[rule_format]

section \<open>Properties of every reachable state\<close>

text \<open>C1: in every state that whole turns of the threads and runs of the signal handler and the error handler lead to, in
  any order and with turns of the others nested where a thread waits on a condition or makes room, both message
  queues are well-formed chains with the right length and last message, they share no message, every message
  on the heap is in one of them, and every buffer is well formed. Thread switches at other points inside a
  turn are not covered.\<close>

theorem reachable_invariant:
  assumes "sane alloc" "reachable alloc s"
  shows "queue_wf (memory s) (sending s) \<and> queue_wf (memory s) (confirmedMsgs s) \<and>
    set (queue_addrs (memory s) (sending s)) \<inter> set (queue_addrs (memory s) (confirmedMsgs s)) = {} \<and>
    dom (cells (memory s)) \<subseteq>
      set (queue_addrs (memory s) (sending s)) \<union> set (queue_addrs (memory s) (confirmedMsgs s)) \<and>
    list_all buffer_wf (buffers s)"
  using reachable_state_inv[OF assms(2,1)]
  by (simp add: state_inv_def queues_wf_def list_all_iff buf_ok_def)

text \<open>A program started with \<open>-t udp -s h\<close> on a machine that grants every allocation below a quarter of
  the address space.\<close>

definition grants_small :: allocator where
  "grants_small n \<longleftrightarrow> n < 2 ^ 62"

definition sample_system :: system_calls where
  "sample_system = \<lparr>sys_socket = (\<lambda>_. 3), sys_gethostbyname = (\<lambda>_. Some [127, 0, 0, 1]),
     sys_connect = (\<lambda>_. 0)\<rparr>"

lemma sane_grants_small: "sane grants_small"
  by (simp add: sane_def grants_small_def)

lemma started_init: "programInterfaceInit (\<lambda>_. True) defaultNetworkConfig = Ok (initial_interface defaultNetworkConfig)"
  by (simp add: programInterfaceInit_def init_allocations_def numeral_eq_Suc)

lemma started_address:
  "set_ipAddress grants_small ''h'' bufferInit = Ok \<lparr>data = Some [Some 104, Some 0], allocated = 2, used = 2\<rparr>"
  by (simp add: set_ipAddress_def bufferInit_def bufferResize_def grants_small_def realloc_mem_def
      stringReplace_def literal_def bytes_of_def buf_write_def Let_def)

lemma started_configure:
  "\<exists>s. configure grants_small [Opt_t ''udp'', Opt_s ''h''] (initial_interface defaultNetworkConfig) = Done () s
    \<and> protocol (netConfig s) = prot_UDP \<and>
    clientInput (cleanUp s) = \<lparr>data = Some [Some 104, Some 0], allocated = 2, used = 2\<rparr> \<and>
    serverResponse (cleanUp s) = bufferInit \<and> fsm s = fsm_START \<and> sending s = queueInit"
  by (simp add: configure_def bind_prog_def upd_net_def modify_def lift_res_def setClientInput_def
      when_state_def initial_interface_def defaultNetworkConfig_def ret_def started_address)

lemma started_connect:
  assumes "protocol (netConfig s) = prot_UDP"
    "clientInput (cleanUp s) = \<lparr>data = Some [Some 104, Some 0], allocated = 2, used = 2\<rparr>"
  shows "\<exists>n. connectServer sample_system s = Done () (s\<lparr>netConfig := n\<rparr>) \<and> protocol n = prot_UDP"
  using assms
  by (simp add: connectServer_def bind_prog_def getSocket_def SOCK_DGRAM_def sample_system_def
      lift_res_def upd_net_def modify_def findServer_def buf_ptr_def c_string_def sizeof_sockaddr_in_def
      Let_def ret_def) (rule exI, rule conjI, rule refl, simp)

lemma reachable_start:
  "\<exists>s. reachable grants_small s \<and> is_UDP s \<and> fsm s = fsm_START \<and> sending s = queueInit"
proof -
  obtain s where s: "configure grants_small [Opt_t ''udp'', Opt_s ''h''] (initial_interface defaultNetworkConfig) = Done () s"
    "protocol (netConfig s) = prot_UDP"
    "clientInput (cleanUp s) = \<lparr>data = Some [Some 104, Some 0], allocated = 2, used = 2\<rparr>"
    "serverResponse (cleanUp s) = bufferInit" "fsm s = fsm_START" "sending s = queueInit"
    using started_configure by blast
  obtain n where n: "connectServer sample_system s = Done () (s\<lparr>netConfig := n\<rparr>)" "protocol n = prot_UDP"
    using started_connect[OF s(2,3)] by blast
  have "bufferResize grants_small bufferInit RECV_SIZE
      = Ok (bufferInit\<lparr>data := Some (realloc_mem None RECV_SIZE), allocated := RECV_SIZE\<rparr>)"
    by (simp add: bufferResize_def bufferInit_def RECV_SIZE_def grants_small_def)
  then show ?thesis
    using reachable.start[OF started_init s(1) n(1)] s(4-6) n(2) by fastforce
qed

text \<open>C2: whenever the program is ended in such a state, destroying the program interface succeeds and leaves no
  message on the heap: nothing is freed twice and nothing is lost.\<close>

theorem shutdown_leaves_no_message:
  assumes "sane alloc" "reachable alloc s"
  shows "\<exists>h freed. programInterfaceDestroy s = Ok (h, freed) \<and> cells h = (\<lambda>_. None)"
  by (rule destroy_frees[OF reachable_state_inv[OF assms(2,1)]])

end
