(* ===== verification/Chat_States.thy ===== *)
theory Chat_States
  imports Chat_System
begin

text \<open>
  The program state and the network configuration over whole runs: every act of the threads moves the
  program state along the state machine, a turn that begins in a state in which the program ends
  stays in these states, and once started the program has a protocol, a socket and a server address.
\<close>

section \<open>Guarantees of acts\<close>

text \<open>The states the threads start in.\<close>

definition started :: "allocator \<Rightarrow> ProgramInterface \<Rightarrow> bool" where
  "started alloc s0 \<longleftrightarrow> (\<exists>granted net s opts s1 sys s2 b.
     programInterfaceInit granted net = Ok s \<and> configure alloc opts s = Done () s1 \<and>
     connectServer sys s1 = Done () s2 \<and>
     bufferResize alloc (serverResponse (cleanUp s2)) RECV_SIZE = Ok b \<and>
     s0 = s2\<lparr>cleanUp := (cleanUp s2)\<lparr>serverResponse := b\<rparr>\<rparr>)"

context stepping begin

lemma left_state_guar: "guar R p \<Longrightarrow> R s (left_state p s)"
  using guarD[of R p s] by (cases "p s") (simp_all add: left_state_def R_refl)

lemma act_guar: "act alloc f \<Longrightarrow> R s (f s)"
proof (induction arbitrary: s rule: act.induct)
  case idle
  show ?case by (rule R_refl)
next
  case (seq f g)
  from R_trans[OF seq.IH(1) seq.IH(2)] show ?case .
next
  case (receiver_turn source bs v)
  show ?case by (rule left_state_guar[OF guar_receiveOne])
next
  case (sender_turn others room sendto)
  then show ?case by (intro left_state_guar guar_senderTurnWith) blast+
next
  case (main_turn v)
  then show ?case by (intro left_state_guar guar_commandTurn) blast
next
  case (error others msg c)
  then show ?case by (intro left_state_guar guar_errHandling) blast
next
  case (sigint others)
  then show ?case by (intro left_state_guar guar_sigintHandler) blast
qed

lemma reachable_guar:
  assumes "reachable alloc s" "\<And>s0. started alloc s0 \<Longrightarrow> P s0"
  shows "\<exists>s0. P s0 \<and> R s0 s"
  using assms(1)
proof (induction rule: reachable.induct)
  case (start granted net s opts s1 sys s2 b)
  then show ?case using assms(2) R_refl unfolding started_def by blast
next
  case (step s f)
  then show ?case using act_guar R_trans by blast
qed

end

section \<open>The state machine\<close>

interpretation machine: stepping "\<lambda>s s'. fsm_move\<^sup>*\<^sup>* (fsm s) (fsm s')"
  by unfold_locales (auto simp: state_defs)

lemma fsm_move_closing: "fsm_move x y \<Longrightarrow> fsm_EMPTY_Q_BYE \<le> x \<Longrightarrow> fsm_EMPTY_Q_BYE \<le> y"
  by (cases y) (auto simp: less_eq_fsm_t_def)

lemma fsm_moves_closing: "fsm_move\<^sup>*\<^sup>* x y \<Longrightarrow> fsm_EMPTY_Q_BYE \<le> x \<Longrightarrow> fsm_EMPTY_Q_BYE \<le> y"
  by (induction rule: rtranclp_induct) (auto dest: fsm_move_closing)

text \<open>C16: a turn of a thread, or a run of a handler, that begins when the program is about to end (\<open>fsm_EMPTY_Q_BYE\<close> and the states
  after it) does not take it back to a state of normal communication, also with turns of the others, begun
  later, nested in its waits. It says nothing of a turn that was already under way: the code tests the state and
  changes it in separate critical sections, so a turn that tested it before may still overwrite the
  ending state.\<close>

theorem ending_is_final:
  assumes "act alloc f" "fsm_EMPTY_Q_BYE \<le> fsm s"
  shows "fsm_EMPTY_Q_BYE \<le> fsm (f s)"
  by (rule fsm_moves_closing[OF machine.act_guar[OF assms(1)] assms(2)])

theorem ending_is_final_witness:
  "fsm_EMPTY_Q_BYE \<le> fsm (left_state (receiveOne grants_small [] [1, 0, 0, 1, 0, 0] (sample_msg cmd_NONE, 0))
     (set_fsm fsm_EMPTY_Q_BYE (initial_interface (defaultNetworkConfig\<lparr>protocol := prot_UDP\<rparr>))))"
  by (rule ending_is_final[where alloc = grants_small], rule act.receiver_turn)
    (simp add: set_fsm_def)

section \<open>The configuration\<close>

definition settings ::
  "NetworkConfig \<Rightarrow> prot_t \<times> 16 word \<times> 16 word \<times> 8 word \<times> int \<times> nat option"
where
  "settings n = (protocol n, portNumber n, udpTimeout n, udpMaxRetries n, openedSocket n,
     map_option length (serverAddress n))"

lemma store_source_settings: "store_source source n = Ok n' \<Longrightarrow> settings n' = settings n"
  by (auto simp: store_source_def settings_def Let_def split: option.splits if_splits)

interpretation config: stepping "\<lambda>s s'. settings (netConfig s') = settings (netConfig s)"
  by unfold_locales (auto simp: state_defs store_source_settings)

text \<open>A protocol, an opened socket and room for the address of the server.\<close>

definition network_ready :: "ProgramInterface \<Rightarrow> bool" where
  "network_ready s \<longleftrightarrow> (is_UDP s \<or> is_TCP s) \<and> 0 \<le> openedSocket (netConfig s) \<and>
     map_option length (serverAddress (netConfig s)) = Some sizeof_sockaddr_in"

lemma network_ready_settings:
  "settings (netConfig s') = settings (netConfig s) \<Longrightarrow> network_ready s' = network_ready s"
  by (auto simp: network_ready_def settings_def)

lemma configured_protocol:
  assumes "configure alloc opts s = Done () s1"
  shows "is_UDP s1 \<or> is_TCP s1"
  using assms
  by (cases "protocol (netConfig s1)")
    (auto simp: configure_def bind_prog_def when_state_def errExit_def ret_def split: outcome.splits if_splits)

lemma found_address:
  assumes "findServer sys name port s = Done address s'"
  shows "length address = sizeof_sockaddr_in \<and> s' = s"
  using assms
  by (auto simp: findServer_def bind_prog_def lift_res_def modify_def ret_def errExit_def Let_def sizeof_sockaddr_in_def
      split: res.splits option.splits if_splits)

lemma connected_ready:
  assumes "connectServer sys s1 = Done () s2" "is_UDP s1 \<or> is_TCP s1"
  shows "network_ready s2"
proof -
  obtain sock address s' where sock: "getSocket sys (protocol (netConfig s1)) = Ok sock"
    and find: "findServer sys (buf_ptr (clientInput (cleanUp s1))) (portNumber (netConfig s1))
      (s1\<lparr>netConfig := (netConfig s1)\<lparr>openedSocket := sock\<rparr>\<rparr>) = Done address s'"
    and s2: "s2 = s'\<lparr>netConfig := (netConfig s')\<lparr>serverAddress := Some address, serverAddressSize := sizeof_sockaddr_in\<rparr>\<rparr>"
    using assms(1)
    by (auto simp: connectServer_def bind_prog_def lift_res_def upd_net_def modify_def ret_def errExit_def
        split: res.splits outcome.splits if_splits)
  have "0 \<le> sock" using sock by (auto simp: getSocket_def res_bind_eq_Ok Let_def split: if_splits)
  then show ?thesis using found_address[OF find] s2 assms(2) by (auto simp: network_ready_def)
qed

lemma started_ready: "started alloc s \<Longrightarrow> network_ready s"
  using connected_ready configured_protocol unfolding started_def network_ready_def by fastforce

text \<open>C17: in every state the running program can reach exactly one of the two protocols is configured, a socket is
  open and the address of the server is stored in an object of the size of a socket address, so the
  branches of the code for neither protocol and the writes of \<open>recvfrom\<close> through a null pointer never
  happen.\<close>

theorem network_always_ready:
  assumes "reachable alloc s"
  shows "is_UDP s \<noteq> is_TCP s \<and> 0 \<le> openedSocket (netConfig s) \<and>
    map_option length (serverAddress (netConfig s)) = Some sizeof_sockaddr_in"
proof -
  obtain s0 where "network_ready s0" "settings (netConfig s) = settings (netConfig s0)"
    using config.reachable_guar[OF assms, of network_ready] started_ready by blast
  then have "network_ready s" using network_ready_settings by blast
  then show ?thesis by (auto simp: network_ready_def)
qed

theorem network_always_ready_witness:
  "\<exists>s. reachable grants_small s \<and> is_UDP s \<noteq> is_TCP s \<and> 0 \<le> openedSocket (netConfig s) \<and>
    map_option length (serverAddress (netConfig s)) = Some sizeof_sockaddr_in"
  using reachable_start network_always_ready by blast

end
