(* ===== verification/Chat_Behaviour.thy ===== *)
theory Chat_Behaviour
  imports Chat_States
begin

text \<open>
  What the threads do, on an abstract state: the queues as lists of messages, the state of the
  program, the mutexes and what was printed, sent and signalled. A handler refines a function on
  that state when it returns and its result maps to the value of the function.
\<close>

section \<open>The abstract state\<close>

record abs_state =
  a_fsm :: fsm_t
  a_queue :: "qitem list"
  a_locked :: bool
  a_seen :: "qitem list"
  a_seenLocked :: bool
  a_stdoutLocked :: bool
  a_details :: CommunicationDetails
  a_net :: NetworkConfig
  a_response :: Buffer
  a_events :: "event list"

definition abs_of :: "ProgramInterface \<Rightarrow> abs_state" where
  "abs_of s =
     \<lparr>a_fsm = fsm s, a_queue = queue_items (memory s) (sending s), a_locked = q_locked (sending s),
      a_seen = queue_items (memory s) (confirmedMsgs s), a_seenLocked = q_locked (confirmedMsgs s),
      a_stdoutLocked = stdoutMutex (threads s), a_details = comDetails s, a_net = netConfig s,
      a_response = serverResponse (cleanUp s), a_events = events s\<rparr>"

lemma absD:
  assumes "abs_of s = t"
  shows "fsm s = a_fsm t" "queue_items (memory s) (sending s) = a_queue t" "q_locked (sending s) = a_locked t"
    "queue_items (memory s) (confirmedMsgs s) = a_seen t" "q_locked (confirmedMsgs s) = a_seenLocked t"
    "stdoutMutex (threads s) = a_stdoutLocked t" "comDetails s = a_details t" "netConfig s = a_net t"
    "serverResponse (cleanUp s) = a_response t" "events s = a_events t"
  using assms by (auto simp: abs_of_def)

text \<open>The program returns \<open>a\<close> and leaves the abstract state \<open>t\<close>.\<close>

definition runs :: "'a thread \<Rightarrow> ProgramInterface \<Rightarrow> 'a \<Rightarrow> abs_state \<Rightarrow> bool" where
  "runs p s a t \<longleftrightarrow> (\<exists>s'. p s = Done a s' \<and> state_inv s' \<and> abs_of s' = t)"

lemma runsI: "p s = Done a s' \<Longrightarrow> state_inv s' \<Longrightarrow> abs_of s' = t \<Longrightarrow> runs p s a t"
  by (auto simp: runs_def)

lemma runs_bind:
  assumes "runs m s a t" "\<And>s'. state_inv s' \<Longrightarrow> abs_of s' = t \<Longrightarrow> runs (f a) s' b u"
  shows "runs (bind_prog m f) s b u"
  using assms unfolding runs_def by (metis bind_prog_run(1))

lemma runs_ret: "state_inv s \<Longrightarrow> abs_of s = t \<Longrightarrow> runs (ret a) s a t"
  by (simp add: runs_def ret_def)

lemma runs_asks: "state_inv s \<Longrightarrow> runs (asks g) s (g s) (abs_of s)"
  by (simp add: runs_def asks_def)

lemma runs_steps_Nil: "state_inv s \<Longrightarrow> abs_of s = t \<Longrightarrow> runs (steps []) s () t"
  by (simp add: runs_ret)

lemma runs_steps_Cons:
  assumes "runs p s () t" "\<And>s'. state_inv s' \<Longrightarrow> abs_of s' = t \<Longrightarrow> runs (steps ps) s' () u"
  shows "runs (steps (p # ps)) s () u"
  using assms by (simp add: runs_bind)

lemma runs_when_state:
  "state_inv s \<Longrightarrow> (b s \<Longrightarrow> runs p s () t) \<Longrightarrow> (\<not> b s \<Longrightarrow> abs_of s = t) \<Longrightarrow> runs (when_state b p) s () t"
  by (auto simp: runs_def when_state_def)

text \<open>A program that looks at its state first.\<close>

lemma runs_cong: "p s = q s \<Longrightarrow> runs q s a t \<Longrightarrow> runs p s a t"
  by (simp add: runs_def)

lemma runsE:
  assumes "runs p s a t"
  obtains s' where "p s = Done a s'" "state_inv s'" "abs_of s' = t"
  using assms by (auto simp: runs_def)

section \<open>The simple operations\<close>

lemma runs_modify:
  "state_inv (f s) \<Longrightarrow> abs_of (f s) = t \<Longrightarrow> runs (modify f) s () t"
  by (simp add: runs_def modify_def)

lemma runs_setProgramState:
  "state_inv s \<Longrightarrow> abs_of s = t \<Longrightarrow> runs (setProgramState x) s () (t\<lparr>a_fsm := x\<rparr>)"
  unfolding setProgramState_def by (rule runs_modify) (auto simp: abs_of_def state_defs state_inv_def buffers_def)

lemma runs_getProgramState:
  "state_inv s \<Longrightarrow> abs_of s = t \<Longrightarrow> runs getProgramState s (a_fsm t) t"
  by (auto simp: runs_def getProgramState_def asks_def abs_of_def)

lemma runs_emit:
  "state_inv s \<Longrightarrow> abs_of s = t \<Longrightarrow> runs (modify (emit es)) s () (t\<lparr>a_events := a_events t @ es\<rparr>)"
  by (rule runs_modify) (auto simp: abs_of_def emit_def state_inv_def buffers_def)

lemma runs_cond_signal:
  "state_inv s \<Longrightarrow> abs_of s = t \<Longrightarrow> runs (cond_signal c) s () (t\<lparr>a_events := a_events t @ [Signal c]\<rparr>)"
  unfolding cond_signal_def by (rule runs_emit)

lemma runs_safePrintStderr:
  "state_inv s \<Longrightarrow> abs_of s = t \<Longrightarrow> \<not> a_stdoutLocked t \<Longrightarrow>
     runs (safePrintStderr m) s () (t\<lparr>a_events := a_events t @ [Stderr m]\<rparr>)"
  by (auto simp: runs_def safePrintStderr_def safePrint_def abs_of_def emit_def state_inv_def buffers_def)

lemma runs_stdout_mutex:
  "state_inv s \<Longrightarrow> abs_of s = t \<Longrightarrow> \<not> a_stdoutLocked t \<Longrightarrow> runs lockStdout s () (t\<lparr>a_stdoutLocked := True\<rparr>)"
  "state_inv s \<Longrightarrow> abs_of s = t \<Longrightarrow> runs unlockStdout s () (t\<lparr>a_stdoutLocked := False\<rparr>)"
  by (auto simp: runs_def lockStdout_def unlockStdout_def modify_def abs_of_def state_inv_def buffers_def)

lemma queue_items_locked: "queue_items h (q\<lparr>q_locked := x\<rparr>) = queue_items h q"
  by (simp add: queue_items_def queue_wf_locked)

lemma queues_wf_locked:
  "queues_wf h (q\<lparr>q_locked := x\<rparr>) q2 = queues_wf h q q2"
  "queues_wf h q (q2\<lparr>q_locked := x\<rparr>) = queues_wf h q q2"
  by (simp_all add: queues_wf_def queue_wf_locked)

lemmas lock_defs = lockSending_def unlockSending_def lockConfirmed_def unlockConfirmed_def queueLock_def
  queueUnlock_def bind_prog_def lift_res_def modify_def

lemma runs_locks:
  "state_inv s \<Longrightarrow> abs_of s = t \<Longrightarrow> \<not> a_locked t \<Longrightarrow> runs lockSending s () (t\<lparr>a_locked := True\<rparr>)"
  "state_inv s \<Longrightarrow> abs_of s = t \<Longrightarrow> runs unlockSending s () (t\<lparr>a_locked := False\<rparr>)"
  "state_inv s \<Longrightarrow> abs_of s = t \<Longrightarrow> \<not> a_seenLocked t \<Longrightarrow> runs lockConfirmed s () (t\<lparr>a_seenLocked := True\<rparr>)"
  "state_inv s \<Longrightarrow> abs_of s = t \<Longrightarrow> runs unlockConfirmed s () (t\<lparr>a_seenLocked := False\<rparr>)"
  by (auto simp: runs_def lock_defs abs_of_def state_defs state_inv_def buffers_def queue_items_locked
      queues_wf_locked)

section \<open>The queues\<close>

lemma other_queue_items:
  assumes "queues_wf h q q2" "sending_step f" "f h q = Ok (h', q')"
  shows "queue_items h' q2 = queue_items h q2"
proof -
  obtain as bs where r: "represents h q as" "represents h q2 bs" "set as \<inter> set bs = {}"
    using assms(1) by (auto simp: queues_wf_alt)
  have "heap_frame as h h'"
    using assms(2,3) r(1) unfolding sending_step_def queue_step_def by blast
  from represents_frame[OF r(2) this r(3)] show ?thesis
    using r(2) by (simp add: queue_items_represents)
qed

lemma runs_on_sending:
  assumes "state_inv s" "abs_of s = t" "sending_step f"
    and "\<And>as. represents (memory s) (sending s) as \<Longrightarrow>
      \<exists>h' q' cs. f (memory s) (sending s) = Ok (h', q') \<and> represents h' q' cs \<and>
        q_locked q' = q_locked (sending s) \<and> items_at h' cs = g (items_at (memory s) as)"
  shows "runs (on_sending f) s () (t\<lparr>a_queue := g (a_queue t)\<rparr>)"
proof -
  have wf: "queues_wf (memory s) (sending s) (confirmedMsgs s)" using assms(1) by (simp add: state_inv_def)
  then obtain as where as: "represents (memory s) (sending s) as" by (auto simp: queues_wf_alt)
  then obtain h' q' cs where f: "f (memory s) (sending s) = Ok (h', q')" "represents h' q' cs"
    "q_locked q' = q_locked (sending s)" "items_at h' cs = g (items_at (memory s) as)"
    using assms(4) by blast
  let ?s = "set_sending q' (s\<lparr>memory := h'\<rparr>)"
  have run: "on_sending f s = Done () ?s" using f(1) by (simp add: on_sending_def bind_prog_run lift_res_run modify_run)
  have "state_inv ?s" using keepsD[OF keeps_on_sending[OF assms(3)] assms(1)] run by simp
  moreover have "abs_of ?s = t\<lparr>a_queue := g (a_queue t)\<rparr>"
    using queue_items_represents[OF f(2)] queue_items_represents[OF as] f(3,4)
      other_queue_items[OF wf assms(3) f(1)]
    by (simp add: assms(2)[symmetric] abs_of_def set_sending_def)
  ultimately show ?thesis using run by (simp add: runs_def)
qed

lemma runs_add:
  assumes "state_inv s" "abs_of s = t" "buffer_wf b" "grants alloc b"
  shows "runs (on_sending (\<lambda>h q. queueAddMessage alloc h (Some q) b f ty)) s ()
    (t\<lparr>a_queue := a_queue t @ [new_item b f ty]\<rparr>)"
  by (rule runs_on_sending[OF assms(1,2) step_add[OF assms(3)],
      where g = "\<lambda>xs. xs @ [new_item b f ty]"]) (use queueAddMessage_ok[OF _ assms(3,4)] in blast)

lemma runs_priority:
  assumes "state_inv s" "abs_of s = t" "buffer_wf b" "grants alloc b"
  shows "runs (on_sending (\<lambda>h q. queueAddMessagePriority alloc h (Some q) b f ty)) s ()
    (t\<lparr>a_queue := new_item b f ty # a_queue t\<rparr>)"
  by (rule runs_on_sending[OF assms(1,2) step_priority[OF assms(3)],
      where g = "\<lambda>xs. new_item b f ty # xs"]) (use queueAddMessagePriority_ok[OF _ assms(3,4)] in blast)

lemma runs_pop:
  assumes "state_inv s" "abs_of s = t"
  shows "runs (on_sending (\<lambda>h q. queuePopMessage h (Some q))) s () (t\<lparr>a_queue := tl (a_queue t)\<rparr>)"
  by (rule runs_on_sending[OF assms step_pop, where g = tl]) (use queuePopMessage_ok in blast)

lemma runs_popAll:
  assumes "state_inv s" "abs_of s = t"
  shows "runs popAll s () (t\<lparr>a_queue := []\<rparr>)"
  unfolding popAll_def
  by (rule runs_on_sending[OF assms step_popAll, of "\<lambda>_. []"])
    (use queuePopAllMessages_ok in \<open>fastforce simp: items_at_def\<close>)

text \<open>The record of an incoming message.\<close>

definition seen_item :: "byte \<Rightarrow> byte \<Rightarrow> byte \<Rightarrow> qitem" where
  "seen_item high low ty = \<lparr>qi_bytes = None, qi_high = high, qi_low = low, qi_type = ty, qi_flags = msg_flag_ERR\<rparr>"

lemma runs_record:
  assumes "state_inv s" "abs_of s = t" "alloc sizeof_Message" "points_to (buf_ptr b) [x, low, high]"
    and "3 \<le> used b"
  shows "runs (on_confirmed (\<lambda>h q. queueAddMessageOnlyID alloc h (Some q) b ty)) s ()
    (t\<lparr>a_seen := seen_item high low ty # a_seen t\<rparr>)"
proof -
  let ?f = "\<lambda>h q. queueAddMessageOnlyID alloc h (Some q) b ty"
  have wf: "queues_wf (memory s) (confirmedMsgs s) (sending s)"
    using assms(1) by (simp add: state_inv_def queues_wf_sym)
  then obtain bs where bs: "represents (memory s) (confirmedMsgs s) bs" by (auto simp: queues_wf_alt)
  obtain h' q' where f: "?f (memory s) (confirmedMsgs s) = Ok (h', q')"
    "represents h' q' (next_addr (memory s) # bs)" "q_locked q' = q_locked (confirmedMsgs s)"
    "items_at h' (next_addr (memory s) # bs) = seen_item high low ty # items_at (memory s) bs"
    using queueAddMessageOnlyID_ok[of _ _ _ alloc, OF bs assms(3-5), of ty] unfolding seen_item_def by blast
  let ?s = "set_confirmed q' (s\<lparr>memory := h'\<rparr>)"
  have run: "on_confirmed ?f s = Done () ?s"
    using f(1) by (simp add: on_confirmed_def bind_prog_run lift_res_run modify_run)
  have "state_inv ?s" using keepsD[OF keeps_on_confirmed[OF step_onlyID[of alloc b ty]] assms(1)] run by simp
  moreover have "abs_of ?s = t\<lparr>a_seen := seen_item high low ty # a_seen t\<rparr>"
    using queue_items_represents[OF f(2)] queue_items_represents[OF bs] f(3,4)
      other_queue_items[OF wf step_onlyID f(1)]
    by (simp add: assms(2)[symmetric] abs_of_def set_confirmed_def)
  ultimately show ?thesis using run by (simp add: runs_def)
qed

text \<open>A message is recognised as repeated when its identifier was recorded with its type and both bytes are below 128;
  with a greater byte the comparison of a signed with an unsigned byte fails.\<close>

definition already_seen :: "byte \<Rightarrow> byte \<Rightarrow> byte \<Rightarrow> abs_state \<Rightarrow> bool" where
  "already_seen high low ty t \<longleftrightarrow> high < 128 \<and> low < 128 \<and>
     list_ex (\<lambda>it. qi_high it = high \<and> qi_low it = low \<and> qi_type it = ty) (a_seen t)"

lemma already_seen_matches: "already_seen high low ty t \<longleftrightarrow> list_ex (id_matches high low ty) (a_seen t)"
  by (auto simp: already_seen_def id_matches_iff list_ex_iff)

lemma search_eval:
  assumes "state_inv s" "abs_of s = t" "points_to (buf_ptr (a_response t)) [x, low, high]"
  shows "queueContainsMessageId (memory s) (Some (confirmedMsgs s)) (serverResponse (cleanUp s)) ty
    = Some (Ok (already_seen high low ty t))"
proof -
  obtain bs where bs: "represents (memory s) (confirmedMsgs s) bs"
    using assms(1) by (auto simp: state_inv_def queues_wf_alt)
  have "points_to (buf_ptr (serverResponse (cleanUp s))) [x, low, high]"
    using assms(2,3) by (auto simp: abs_of_def)
  from queueContainsMessageId_items[OF bs this, of ty] show ?thesis
    using queue_items_represents[OF bs] by (simp add: already_seen_matches assms(2)[symmetric] abs_of_def)
qed

lemma runs_filterRepeated:
  assumes "state_inv s" "abs_of s = t" "\<not> a_locked t" "\<not> a_seenLocked t" "alloc sizeof_Message"
    and "points_to (buf_ptr (a_response t)) [x, low, high]" "3 \<le> used (a_response t)"
  shows "runs (filterRepeated alloc pb) s (already_seen high low (pb_type pb) t)
    (if already_seen high low (pb_type pb) t then t
     else t\<lparr>a_seen := seen_item high low (pb_type pb) # a_seen t\<rparr>)"
proof -
  let ?r = "already_seen high low (pb_type pb) t"
  obtain s1 where s1: "lockConfirmed s = Done () s1" "state_inv s1" "abs_of s1 = t\<lparr>a_seenLocked := True\<rparr>"
    by (rule runsE[OF runs_locks(3)[OF assms(1,2,4)]])
  obtain s2 where s2: "lockSending s1 = Done () s2" "state_inv s2"
    "abs_of s2 = t\<lparr>a_seenLocked := True, a_locked := True\<rparr>"
    using runs_locks(1)[OF s1(2,3)] assms(3) by (auto simp: runs_def)
  have resp: "a_response (t\<lparr>a_seenLocked := True, a_locked := True\<rparr>) = a_response t"
    "already_seen high low ty (t\<lparr>a_seenLocked := True, a_locked := True\<rparr>) = already_seen high low ty t" for ty
    by (simp_all add: already_seen_def)
  note search = search_eval[OF s2(2,3), of x low high "pb_type pb", unfolded resp, OF assms(6)]
  have here: "serverResponse (cleanUp s2) = a_response t"
    using s2(3) by (auto simp: abs_of_def dest: arg_cong[where f = a_response])
  let ?seen = "if ?r then a_seen t else seen_item high low (pb_type pb) # a_seen t"
  have rec: "runs (if \<not> ?r
        then bind_prog (asks (\<lambda>s. serverResponse (cleanUp s))) (\<lambda>b.
               on_confirmed (\<lambda>h q. queueAddMessageOnlyID alloc h (Some q) b (pb_type pb)))
        else ret ()) s2 () (t\<lparr>a_seenLocked := True, a_locked := True, a_seen := ?seen\<rparr>)"
    using runs_record[where alloc = alloc, OF s2(2,3) assms(5-7), of "pb_type pb"] s2(2,3) here
    by (auto simp: runs_def bind_prog_def asks_def ret_def)
  obtain s3 where s3: "(if \<not> ?r
        then bind_prog (asks (\<lambda>s. serverResponse (cleanUp s))) (\<lambda>b.
               on_confirmed (\<lambda>h q. queueAddMessageOnlyID alloc h (Some q) b (pb_type pb)))
        else ret ()) s2 = Done () s3" "state_inv s3"
    "abs_of s3 = t\<lparr>a_seenLocked := True, a_locked := True, a_seen := ?seen\<rparr>"
    by (rule runsE[OF rec])
  obtain s4 where s4: "unlockSending s3 = Done () s4" "state_inv s4" "abs_of s4 = (abs_of s3)\<lparr>a_locked := False\<rparr>"
    by (rule runsE[OF runs_locks(2)[OF s3(2) refl]])
  obtain s5 where s5: "unlockConfirmed s4 = Done () s5" "state_inv s5" "abs_of s5 = (abs_of s4)\<lparr>a_seenLocked := False\<rparr>"
    by (rule runsE[OF runs_locks(4)[OF s4(2) refl]])
  have "filterRepeated alloc pb s = Done ?r s5"
    using s1(1) s2(1) s3(1) s4(1) s5(1) search
    by (simp add: filterRepeated_def bind_prog_def lift_res_def ret_def)
  moreover have "abs_of s5 = (if ?r then t else t\<lparr>a_seen := seen_item high low (pb_type pb) # a_seen t\<rparr>)"
    using s5(3) s4(3) s3(3) assms(3,4) by simp
  ultimately show ?thesis using s5(2) by (auto simp: runs_def)
qed

section \<open>Control messages\<close>

text \<open>An allocator that grants what the messages of the program need.\<close>

definition roomy :: "allocator \<Rightarrow> bool" where
  "roomy alloc \<longleftrightarrow> sane alloc \<and> (\<forall>n < 2 ^ 32. alloc n)"

lemma roomyD: "roomy alloc \<Longrightarrow> n < 2 ^ 32 \<Longrightarrow> alloc n" "roomy alloc \<Longrightarrow> sane alloc"
  by (simp_all add: roomy_def)

lemma roomy_grants: "roomy alloc \<Longrightarrow> used b < 2 ^ 32 \<Longrightarrow> grants alloc b"
  by (simp add: grants_def roomy_def sizeof_Message_def sizeof_Buffer_def)

lemma roomy_grants_small: "roomy grants_small"
  by (simp add: roomy_def sane_grants_small) (simp add: grants_small_def)

lemma bufferResize_grant: "alloc n \<Longrightarrow> \<exists>b'. bufferResize alloc b n = Ok b'"
  by (cases "n \<le> allocated b") (simp_all add: bufferResize_def)

lemma bufferResize_cong_alloc: "alloc n = alloc' n \<Longrightarrow> bufferResize alloc b n = bufferResize alloc' b n"
  by (simp add: bufferResize_def)

text \<open>The lemmas on the bytes of a message assume that every allocation is granted; only the sizes the
  function asks for matter.\<close>

lemma assembleUDP_cong_alloc:
  assumes "alloc (size_add (sum_of_lengths pb) 10)"
    "alloc (size_add (size_add (sum_of_lengths pb) 10) (used (channelID cd)))"
    "alloc (size_add (size_add (sum_of_lengths pb) 10) (used (displayName cd)))"
  shows "assembleProtocolUDP alloc cd pb b = assembleProtocolUDP (\<lambda>_. True) cd pb b"
  unfolding assembleProtocolUDP_def Let_def
  using assms by (simp add: bufferResize_cong_alloc[of alloc _ "\<lambda>_. True"] cong: cmd_t.case_cong)

lemma assembleUDP_control_alloc:
  assumes "roomy alloc" "sum_of_lengths pb < 2 ^ 16"
    and "uchar2CommandType (pb_type pb) = cmd_CONF \<or> uchar2CommandType (pb_type pb) = cmd_EXIT"
  shows "assembleProtocolUDP alloc cd pb b = assembleProtocolUDP (\<lambda>_. True) cd pb b"
proof -
  have "size_add (sum_of_lengths pb) 10 < 2 ^ 32" using assms(2) by (simp add: size_add_small)
  then have "alloc (size_add (sum_of_lengths pb) 10)" using roomyD(1)[OF assms(1)] by simp
  then have "bufferResize alloc b (size_add (sum_of_lengths pb) 10)
      = bufferResize (\<lambda>_. True) b (size_add (sum_of_lengths pb) 10)"
    by (simp add: bufferResize_def)
  then show ?thesis using assms(3) by (auto simp: assembleProtocolUDP_def Let_def)
qed

definition confirm_item :: "byte \<Rightarrow> byte \<Rightarrow> msg_flags \<Rightarrow> qitem" where
  "confirm_item low high flags = \<lparr>qi_bytes = Some (map Some [msg_byte msg_CONF, low, high]), qi_high = 0,
     qi_low = 0, qi_type = msg_byte msg_CONF, qi_flags = flags\<rparr>"

lemma abs_out_set [simp]: "abs_of (out_set ob b s) = abs_of s" "out_get ob (out_set ob b s) = b"
  "comDetails (out_set ob b s) = comDetails s"
  by (cases ob; simp add: abs_of_def)+

lemma points_to_skip: "points_to p (a # bs) \<Longrightarrow> points_to (ptr_add p 1) bs"
  using points_to_add[of p "[a]" bs] by simp

lemma points_to_skip2: "points_to p (a # b # bs) \<Longrightarrow> points_to (ptr_add p 2) bs"
  using points_to_add[of p "[a, b]" bs] by (simp add: numeral_2_eq_2)

lemma assemble_confirm:
  assumes "roomy alloc" "buffer_wf b" "points_to (buf_ptr (serverResponse (cleanUp s))) (x # low # high # rest)"
  shows "\<exists>pb' b'. assembleProtocolUDP alloc cd (confirm_blocks s) b = Ok (True, pb', b', []) \<and> buffer_wf b' \<and>
    new_item b' flags (pb_type pb') = confirm_item low high flags \<and> used b' = 3"
proof -
  let ?pb = "confirm_blocks s"
  have low: "points_to (bb_start (cmd_conf_lowMsgID ?pb)) [low]"
    using points_to_prefix[of _ "[low]" "high # rest"] points_to_skip[OF assms(3)] by (simp add: confirm_blocks_def)
  have high: "points_to (bb_start (cmd_conf_highMsgID ?pb)) [high]"
    using points_to_prefix[of _ "[high]" rest] points_to_skip2[OF assms(3)] by (simp add: confirm_blocks_def)
  have ty: "pb_type ?pb = cmd_byte cmd_CONF"
    by (simp add: confirm_blocks_def fresh_blocks_def resetProtocolBlocks_def)
  have len: "bb_len (zeroth ?pb) + bb_len (first ?pb) + bb_len (second ?pb) + bb_len (third ?pb) + 10 < 2 ^ 64"
    by (simp add: confirm_blocks_def fresh_blocks_def resetProtocolBlocks_def no_block_def)
  have "sum_of_lengths ?pb < 2 ^ 16"
    by (simp add: sum_of_lengths_def confirm_blocks_def fresh_blocks_def resetProtocolBlocks_def no_block_def size_add_def)
  then have "assembleProtocolUDP alloc cd ?pb b = assembleProtocolUDP (\<lambda>_. True) cd ?pb b"
    by (intro assembleUDP_control_alloc[OF assms(1)]) (simp_all only: ty uchar2CommandType_cmd_byte simp_thms)
  then show ?thesis
    using assembleUDP_confirm_bytes[OF assms(2) _ ty low high len, of "\<lambda>_. True" cd]
    by (auto simp: new_item_def confirm_item_def)
qed

lemma runs_sendConfirm:
  assumes "state_inv s" "abs_of s = t" "roomy alloc"
    and "points_to (buf_ptr (a_response t)) (x # low # high # rest)"
  shows "runs (sendConfirm alloc flags) s () (t\<lparr>a_queue := confirm_item low high flags # a_queue t\<rparr>)"
proof -
  have sane: "sane alloc" using assms(3) by (rule roomyD)
  obtain b1 where b1: "bufferResize alloc (out_get By_Receiver s) 4 = Ok b1"
    using bufferResize_grant[of alloc 4] roomyD(1)[OF assms(3), of 4] by auto
  let ?s1 = "out_set By_Receiver b1 s"
  have s1: "resize_out alloc By_Receiver 4 s = Done () ?s1"
    using b1 by (simp add: resize_out_def bind_prog_run lift_res_run modify_run)
  have inv1: "state_inv ?s1" using keepsD[OF keeps_resize_out[OF sane] assms(1)] s1 by (metis ensures.simps(1))
  have resp: "points_to (buf_ptr (serverResponse (cleanUp ?s1))) (x # low # high # rest)"
    using assms(2,4) by (auto simp: abs_of_def)
  obtain pb' b' where b': "assembleProtocolUDP alloc (comDetails ?s1) (confirm_blocks ?s1) b1 = Ok (True, pb', b', [])"
    "buffer_wf b'" "new_item b' flags (pb_type pb') = confirm_item low high flags" "used b' = 3"
    using assemble_confirm[OF assms(3) state_inv_bufs(2)[OF inv1, of By_Receiver] resp] by (metis abs_out_set(2))
  let ?s2 = "out_set By_Receiver b' ?s1"
  have s2: "assemble (assembleProtocolUDP alloc) By_Receiver (confirm_blocks ?s1) ?s1 = Done (True, pb') ?s2"
    using b'(1) by (simp add: assemble_def bind_prog_run lift_res_run modify_run ret_run)
  have inv2: "state_inv ?s2"
    using keepsD[OF keeps_assembleUDP[OF sane pb_ok_control(1)] inv1] s2 by (metis ensures.simps(1))
  have abs2: "abs_of ?s2 = t" using assms(2) by (simp only: abs_out_set)
  have "grants alloc b'" using b'(4) by (intro roomy_grants[OF assms(3)]) simp
  from runsE[OF runs_priority[OF inv2 abs2 b'(2) this, of flags "pb_type pb'"]] obtain s3 where
    "on_sending (\<lambda>h q. queueAddMessagePriority alloc h (Some q) b' flags (pb_type pb')) ?s2 = Done () s3"
    "state_inv s3" "abs_of s3 = t\<lparr>a_queue := new_item b' flags (pb_type pb') # a_queue t\<rparr>" by blast
  then show ?thesis
    using s1 s2 b'(3) unfolding runs_def sendConfirm_def
    by (simp add: bind_prog_run asks_run del: out_set.simps out_get.simps)
qed

section \<open>Receiving\<close>

text \<open>From now on the server is where the message came from.\<close>

definition answering :: "byte list \<Rightarrow> abs_state \<Rightarrow> abs_state" where
  "answering source t = t\<lparr>a_net := (a_net t)\<lparr>serverAddress := Some source\<rparr>\<rparr>"

lemma store_source_same:
  assumes "serverAddress n = Some address" "length address = length source" "serverAddressSize n = length source"
  shows "store_source source n = Ok (n\<lparr>serverAddress := Some source\<rparr>)"
  using assms by (simp add: store_source_def overlay_def Let_def)

lemma recvfrom_stored:
  assumes "state_inv s" "abs_of s = t" "length bs \<le> allocated (a_response t)" "bs \<noteq> []"
    and "store_source source (a_net t) = Ok n"
  shows "\<exists>s1 s2 b. recvfrom source bs s = Done (length bs) s1 \<and> set_responseUsed (length bs) s1 = Done () s2 \<and>
    state_inv s2 \<and> abs_of s2 = t\<lparr>a_net := n, a_response := b\<rparr> \<and> received b bs \<and> allocated b = allocated (a_response t) \<and>
    data b = map_option (\<lambda>m. overlay m 0 (map Some bs)) (data (a_response t))"
proof -
  let ?r = "serverResponse (cleanUp s)"
  have r: "a_response t = ?r" and net: "a_net t = netConfig s" using assms(2) by (auto simp: abs_of_def)
  have "buf_ok ?r" by (rule state_inv_bufs(6)[OF assms(1)])
  then obtain m where m: "data ?r = Some m" "length m = allocated ?r" "allocated ?r < 2 ^ 62"
    using assms(3,4) r by (auto simp: buf_ok_def buffer_wf_def split: option.splits)
  let ?b = "?r\<lparr>data := Some (overlay m 0 (map Some bs))\<rparr>"
  let ?s1 = "s\<lparr>netConfig := n, cleanUp := (cleanUp s)\<lparr>serverResponse := ?b\<rparr>\<rparr>"
  let ?s2 = "?s1\<lparr>cleanUp := (cleanUp ?s1)\<lparr>serverResponse := ?b\<lparr>used := length bs\<rparr>\<rparr>\<rparr>"
  have rx: "recvfrom source bs s = Done (length bs) ?s1"
    using m(1) assms(3,5) r net
    by (simp add: recvfrom_def bind_prog_def lift_res_def modify_def ret_def Let_def)
  have inv: "state_inv ?s1" "length bs \<le> allocated ?b" using recvfrom_keeps[OF assms(1) rx] by auto
  have "buf_ok ?b" using state_inv_bufs(6)[OF inv(1)] by simp
  then have "state_inv ?s2" by (intro state_inv_serverResponse inv buf_ok_used)
  moreover have "abs_of ?s2 = t\<lparr>a_net := n, a_response := ?b\<lparr>used := length bs\<rparr>\<rparr>"
    using assms(2) by (auto simp: abs_of_def)
  moreover have "received (?b\<lparr>used := length bs\<rparr>) bs"
    using m assms(3) r by (simp add: received_def points_to_def buf_ptr_def overlay_def)
  moreover have "allocated (?b\<lparr>used := length bs\<rparr>) = allocated (a_response t)"
    "data (?b\<lparr>used := length bs\<rparr>) = map_option (\<lambda>m. overlay m 0 (map Some bs)) (data (a_response t))"
    using r m(1) by simp_all
  moreover have "set_responseUsed (length bs) ?s1 = Done () ?s2"
    by (simp add: set_responseUsed_def modify_def)
  ultimately show ?thesis using rx by blast
qed

lemma recvfrom_received:
  assumes "state_inv s" "abs_of s = t" "length bs \<le> allocated (a_response t)" "bs \<noteq> []"
    and "serverAddress (a_net t) = Some address" "length address = length source"
    and "serverAddressSize (a_net t) = length source"
  shows "\<exists>s1 s2 b. recvfrom source bs s = Done (length bs) s1 \<and> set_responseUsed (length bs) s1 = Done () s2 \<and>
    state_inv s2 \<and> abs_of s2 = (answering source t)\<lparr>a_response := b\<rparr> \<and> received b bs \<and>
    allocated b = allocated (a_response t)"
  using recvfrom_stored[OF assms(1-4) store_source_same[OF assms(5-7)]] unfolding answering_def by fastforce

text \<open>What is printed for a MSG or an ERR.\<close>

definition printed :: "msg_t \<Rightarrow> byte list \<Rightarrow> byte list \<Rightarrow> event list" where
  "printed ty n c = (let line = n @ bytes_of '': '' @ c @ [10] in
     if ty = msg_ERR then [Stderr (bytes_of ''ERR FROM ''), Stderr line] else [Stdout line])"

lemma runs_printIncoming:
  assumes "state_inv s" "abs_of s = t" "\<not> a_stdoutLocked t"
    and "pb_type pb = msg_byte ty" "ty = msg_MSG \<or> ty = msg_ERR" "block_of (zeroth pb) n" "block_of (first pb) c"
  shows "runs (printIncomingMessage pb) s () (t\<lparr>a_events := a_events t @ printed ty n c\<rparr>)"
proof -
  have ty: "uchar2msgType (pb_type pb) = ty" unfolding assms(4) by (rule uchar2msgType_msg_byte) (use assms(5) in auto)
  have blocks: "bb_start (zeroth pb) \<noteq> None" "bb_start (first pb) \<noteq> None"
    using assms(6,7) by (auto simp: block_of_def elim: points_toD)
  have reads: "read_from (bb_start (zeroth pb)) 0 (bb_len (zeroth pb)) = Ok n"
    "read_from (bb_start (first pb)) 0 (bb_len (first pb)) = Ok c"
    using assms(6,7) by (auto simp: block_of_def read_from_ok)
  obtain s1 where s1: "lockStdout s = Done () s1" "state_inv s1" "abs_of s1 = t\<lparr>a_stdoutLocked := True\<rparr>"
    by (rule runsE[OF runs_stdout_mutex(1)[OF assms(1-3)]])
  have "printIncomingMessage pb s = bind_prog (modify (emit (printed ty n c))) (\<lambda>_. unlockStdout) s1"
    using s1(1) ty blocks reads assms(5)
    by (auto simp: printIncomingMessage_def printed_def bind_prog_def lift_res_def ret_def modify_def emit_def Let_def)
  moreover have "runs (bind_prog (modify (emit (printed ty n c))) (\<lambda>_. unlockStdout)) s1 ()
      (t\<lparr>a_stdoutLocked := True, a_events := a_events t @ printed ty n c, a_stdoutLocked := False\<rparr>)"
    by (rule runs_bind[OF runs_emit[OF s1(2,3)] runs_stdout_mutex(2)]) simp_all
  moreover have "t\<lparr>a_stdoutLocked := True, a_events := a_events t @ printed ty n c, a_stdoutLocked := False\<rparr>
      = t\<lparr>a_events := a_events t @ printed ty n c\<rparr>"
    using assms(3) by (intro abs_state.equality) simp_all
  ultimately show ?thesis by (simp add: runs_def)
qed

lemma runs_confirmLocked:
  assumes "state_inv s" "abs_of s = t" "\<not> a_locked t" "roomy alloc"
    and "points_to (buf_ptr (a_response t)) (x # low # high # rest)"
  shows "runs (confirmLocked alloc) s () (t\<lparr>a_queue := confirm_item low high msg_flag_CONFIRM # a_queue t\<rparr>)"
proof -
  let ?q = "confirm_item low high msg_flag_CONFIRM # a_queue t"
  obtain s1 where s1: "lockSending s = Done () s1" "state_inv s1" "abs_of s1 = t\<lparr>a_locked := True\<rparr>"
    by (rule runsE[OF runs_locks(1)[OF assms(1-3)]])
  obtain s2 where s2: "sendConfirm alloc msg_flag_CONFIRM s1 = Done () s2" "state_inv s2"
    "abs_of s2 = t\<lparr>a_locked := True, a_queue := ?q\<rparr>"
    using runs_sendConfirm[OF s1(2,3) assms(4), of x low high rest msg_flag_CONFIRM] assms(5)
    by (auto simp: runs_def)
  obtain s3 where "unlockSending s2 = Done () s3" "state_inv s3" "abs_of s3 = t\<lparr>a_queue := ?q\<rparr>"
    using runs_locks(2)[OF s2(2,3)] assms(3) by (auto simp: runs_def)
  then show ?thesis
    using s1(1) s2(1) unfolding runs_def confirmLocked_def by (simp add: bind_prog_def ret_def)
qed

lemma runs_wakeSender:
  assumes "state_inv s" "abs_of s = t"
  shows "runs wakeSender s () (t\<lparr>a_events := a_events t @ [Signal senderEmptyQueueCond, Signal rec2SenderCond]\<rparr>)"
  using assms by (auto simp: runs_def wakeSender_def bind_prog_def cond_signal_def modify_def ret_def abs_of_def
      emit_def state_inv_def buffers_def)

text \<open>The specification of a received MSG: it is confirmed in front of everything that waits, and
  recorded and printed unless it was seen before.\<close>

definition spec_msg :: "byte \<Rightarrow> byte \<Rightarrow> byte list \<Rightarrow> byte list \<Rightarrow> abs_state \<Rightarrow> abs_state" where
  "spec_msg low high n c t =
     (let t' = t\<lparr>a_queue := confirm_item low high msg_flag_CONFIRM # a_queue t\<rparr> in
      if already_seen high low (msg_byte msg_MSG) t then t'
      else t'\<lparr>a_seen := seen_item high low (msg_byte msg_MSG) # a_seen t,
             a_events := a_events t @ [Signal senderEmptyQueueCond, Signal rec2SenderCond,
               Stdout (n @ bytes_of '': '' @ c @ [10])]\<rparr>)"

lemma runs_receiverFSM_msg:
  assumes "state_inv s" "abs_of s = t" "roomy alloc" "protocol (a_net t) = prot_UDP"
    and "\<not> a_locked t" "\<not> a_seenLocked t" "\<not> a_stdoutLocked t"
    and "points_to (buf_ptr (a_response t)) (x # low # high # rest)" "3 \<le> used (a_response t)"
    and "pb_type pb = msg_byte msg_MSG" "block_of (zeroth pb) n" "block_of (first pb) c"
  shows "runs (receiverFSM alloc msgID pb) s () (spec_msg low high n c t)"
proof -
  let ?r = "already_seen high low (msg_byte msg_MSG) t"
  let ?q = "confirm_item low high msg_flag_CONFIRM # a_queue t"
  let ?t1 = "if ?r then t else t\<lparr>a_seen := seen_item high low (msg_byte msg_MSG) # a_seen t\<rparr>"
  have three: "points_to (buf_ptr (a_response t)) [x, low, high]"
    using points_to_prefix[of _ "[x, low, high]" rest] assms(8) by simp
  have ty: "uchar2msgType (pb_type pb) = msg_MSG"
    using uchar2msgType_msg_byte[of msg_MSG] assms(10) by simp
  have udp: "is_UDP s" using assms(2,4) by (auto simp: abs_of_def)
  have "alloc sizeof_Message" using assms(3) by (simp add: roomy_def sizeof_Message_def)
  from runsE[OF runs_filterRepeated[where alloc = alloc, OF assms(1,2,5,6) this three assms(9), of pb]]
  obtain s1 where s1: "filterRepeated alloc pb s = Done ?r s1" "state_inv s1" "abs_of s1 = ?t1"
    unfolding assms(10) by blast
  have t1: "\<not> a_locked ?t1" "a_response ?t1 = a_response t" "a_queue ?t1 = a_queue t"
    using assms(5) by simp_all
  obtain s2 where s2: "confirmLocked alloc s1 = Done () s2" "state_inv s2"
    "abs_of s2 = ?t1\<lparr>a_queue := ?q\<rparr>"
    using runs_confirmLocked[OF s1(2,3) t1(1) assms(3), of x low high rest] assms(8)
    unfolding runs_def t1 by blast
  show ?thesis
  proof (cases ?r)
    case True
    then show ?thesis
      using s1(1) s2 udp ty unfolding runs_def receiverFSM_def spec_msg_def
      by (simp add: bind_prog_def ret_def)
  next
    case False
    obtain s3 where s3: "wakeSender s2 = Done () s3" "state_inv s3"
      "abs_of s3 = ?t1\<lparr>a_queue := ?q, a_events := a_events t @ [Signal senderEmptyQueueCond, Signal rec2SenderCond]\<rparr>"
      using runs_wakeSender[OF s2(2,3)] by (auto simp: runs_def False)
    have "runs (printIncomingMessage pb) s3 () (?t1\<lparr>a_queue := ?q, a_events := a_events t @
        [Signal senderEmptyQueueCond, Signal rec2SenderCond, Stdout (n @ bytes_of '': '' @ c @ [10])]\<rparr>)"
      using runs_printIncoming[OF s3(2,3) _ assms(10) _ assms(11,12)] assms(7) False by (simp add: printed_def)
    then show ?thesis
      using s1(1) s2(1) s3(1) udp ty False unfolding runs_def receiverFSM_def spec_msg_def
      by (auto simp: bind_prog_def ret_def)
  qed
qed

text \<open>A datagram is received, decoded, and handled by the state machine of the receiver.\<close>

lemma receive_some:
  assumes "state_inv s" "abs_of s = t" "protocol (a_net t) = prot_UDP"
    and "bs \<noteq> []" "length bs \<le> allocated (a_response t)"
    and "serverAddress (a_net t) = Some address" "length address = length source"
    and "serverAddressSize (a_net t) = length source"
    and decode: "\<And>b pb. received b bs \<Longrightarrow> \<exists>pb'. disassebleProtocolUDP b pb = Ok (pb', mid) \<and> Q b pb'"
    and accepted: "\<And>b pb'. Q b pb' \<Longrightarrow>
      a_fsm t \<noteq> fsm_START \<or> pb_type pb' = msg_byte msg_REPLY \<or> pb_type pb' = msg_byte msg_CONF"
    and handled: "\<And>s1 b pb'. state_inv s1 \<Longrightarrow> abs_of s1 = (answering source t)\<lparr>a_response := b\<rparr> \<Longrightarrow>
      received b bs \<Longrightarrow> Q b pb' \<Longrightarrow> \<exists>w. P b w \<and> runs (receiverFSM alloc mid pb') s1 () w"
  shows "\<exists>v' b w. received b bs \<and> allocated b = allocated (a_response t) \<and> P b w \<and>
    runs (receiveOne alloc source bs v) s v' w"
proof -
  obtain pb id0 where v: "v = (pb, id0)" by (cases v)
  obtain s0 s1 b where s0: "recvfrom source bs s = Done (length bs) s0"
    "set_responseUsed (length bs) s0 = Done () s1"
    and s1: "state_inv s1" "abs_of s1 = (answering source t)\<lparr>a_response := b\<rparr>" "received b bs"
    and size: "allocated b = allocated (a_response t)"
    using recvfrom_received[OF assms(1,2,5,4,6-8)] by blast
  obtain pb' where pb': "disassebleProtocolUDP b pb = Ok (pb', mid)" "Q b pb'"
    using decode[OF s1(3)] by blast
  have resp: "serverResponse (cleanUp s1) = b" "is_UDP s1" "fsm s1 = a_fsm t"
    using absD[OF s1(2)] assms(3) by (simp_all add: answering_def)
  obtain w where w: "P b w" "runs (receiverFSM alloc mid pb') s1 () w" using handled[OF s1 pb'(2)] by blast
  then have "runs (receiveOne alloc source bs v) s (pb', mid) w"
    using s0 resp pb'(1) accepted[OF pb'(2)] assms(4) unfolding runs_def receiveOne_def v
    by (auto simp: bind_prog_def lift_res_def ret_def getProgramState_def asks_def)
  then show ?thesis using s1(3) size w(1) by blast
qed

lemma receive_datagram:
  assumes "state_inv s" "abs_of s = t" "protocol (a_net t) = prot_UDP"
    and "bs \<noteq> []" "length bs \<le> allocated (a_response t)"
    and "serverAddress (a_net t) = Some address" "length address = length source"
    and "serverAddressSize (a_net t) = length source"
    and decode: "\<And>b pb. received b bs \<Longrightarrow> \<exists>pb'. disassebleProtocolUDP b pb = Ok (pb', mid) \<and> Q b pb'"
    and accepted: "\<And>b pb'. Q b pb' \<Longrightarrow>
      a_fsm t \<noteq> fsm_START \<or> pb_type pb' = msg_byte msg_REPLY \<or> pb_type pb' = msg_byte msg_CONF"
    and handled: "\<And>s1 b pb'. state_inv s1 \<Longrightarrow> abs_of s1 = (answering source t)\<lparr>a_response := b\<rparr> \<Longrightarrow>
      received b bs \<Longrightarrow> Q b pb' \<Longrightarrow> runs (receiverFSM alloc mid pb') s1 () (u b)"
  shows "\<exists>v' b. received b bs \<and> allocated b = allocated (a_response t) \<and>
    runs (receiveOne alloc source bs v) s v' (u b)"
  using receive_some[where P = "\<lambda>b w. w = u b" and Q = Q and alloc = alloc and v = v, OF assms(1-8) decode accepted] handled
  by auto

lemma receive_msg:
  assumes "state_inv s" "abs_of s = t" "roomy alloc" "protocol (a_net t) = prot_UDP" "a_fsm t \<noteq> fsm_START"
    and "\<not> a_locked t" "\<not> a_seenLocked t" "\<not> a_stdoutLocked t"
    and "n \<noteq> []" "0 \<notin> set n" "c \<noteq> []" "0 \<notin> set c"
    and "length n + length c + 5 \<le> allocated (a_response t)"
    and "serverAddress (a_net t) = Some address" "length address = length source"
    and "serverAddressSize (a_net t) = length source"
  shows "\<exists>v' b. received b (msg_byte msg_MSG # low # high # n @ 0 # c @ [0]) \<and>
    allocated b = allocated (a_response t) \<and>
    runs (receiveOne alloc source (msg_byte msg_MSG # low # high # n @ 0 # c @ [0]) v) s v'
      (spec_msg low high n c ((answering source t)\<lparr>a_response := b\<rparr>))"
proof (rule receive_datagram[OF assms(1,2,4) _ _ assms(14-16), where mid = "convert2BytesToU16Int low high"
      and Q = "\<lambda>b pb'. pb_type pb' = msg_byte msg_MSG \<and> block_of (zeroth pb') n \<and> block_of (first pb') c"])
  let ?bs = "msg_byte msg_MSG # low # high # n @ 0 # c @ [0]"
  show "\<exists>pb'. disassebleProtocolUDP b pb = Ok (pb', convert2BytesToU16Int low high) \<and>
      pb_type pb' = msg_byte msg_MSG \<and> block_of (zeroth pb') n \<and> block_of (first pb') c" if "received b ?bs" for b pb
    using decodeUDP_named[of b msg_MSG low high n c "[]" pb] that assms(9-12) by (auto simp: received_def)
  show "runs (receiverFSM alloc (convert2BytesToU16Int low high) pb') s1 ()
      (spec_msg low high n c ((answering source t)\<lparr>a_response := b\<rparr>))"
    if "state_inv s1" "abs_of s1 = (answering source t)\<lparr>a_response := b\<rparr>" "received b ?bs"
      "pb_type pb' = msg_byte msg_MSG \<and> block_of (zeroth pb') n \<and> block_of (first pb') c" for s1 b pb'
    by (rule runs_receiverFSM_msg[OF that(1,2) assms(3), where x = "msg_byte msg_MSG" and rest = "n @ 0 # c @ [0]"])
      (use that(3,4) assms(4,6-8) in \<open>simp_all add: received_def answering_def\<close>)
qed (use assms(5,13) in auto)

section \<open>A received message\<close>

text \<open>C3: a MSG datagram received over UDP is confirmed with its own identifier, ahead of everything
  that waits to be sent, and from then on messages go to the address it came from. If it is recognised as repeated
  (its two identifier bytes were recorded for a MSG before, and both are below 128) nothing else happens.
  Otherwise it is recorded and printed once as \<open>name: contents\<close> and the sender is woken up; this includes a
  repeated one with an identifier byte of 128 or more, which is printed again.\<close>

theorem message_received:
  assumes "state_inv s" "roomy alloc" "is_UDP s" "fsm s \<noteq> fsm_START"
    and "\<not> q_locked (sending s)" "\<not> q_locked (confirmedMsgs s)" "\<not> stdoutMutex (threads s)"
    and "n \<noteq> []" "0 \<notin> set n" "c \<noteq> []" "0 \<notin> set c"
    and "length n + length c + 5 \<le> allocated (serverResponse (cleanUp s))"
    and "serverAddress (netConfig s) = Some address" "length address = length source"
    and "serverAddressSize (netConfig s) = length source"
  shows "\<exists>v' s' b. receiveOne alloc source (msg_byte msg_MSG # low # high # n @ 0 # c @ [0]) v s = Done v' s' \<and>
    state_inv s' \<and> received b (msg_byte msg_MSG # low # high # n @ 0 # c @ [0]) \<and>
    abs_of s' = spec_msg low high n c ((answering source (abs_of s))\<lparr>a_response := b\<rparr>) \<and>
    server_address (netConfig s') = Some source"
proof -
  note a = absD[of s, OF refl]
  obtain v' s' b where s': "received b (msg_byte msg_MSG # low # high # n @ 0 # c @ [0])"
    "receiveOne alloc source (msg_byte msg_MSG # low # high # n @ 0 # c @ [0]) v s = Done v' s'" "state_inv s'"
    "abs_of s' = spec_msg low high n c ((answering source (abs_of s))\<lparr>a_response := b\<rparr>)"
    using receive_msg[OF assms(1) refl assms(2) _ _ _ _ _ assms(8-11), of address source low high v]
      assms(3-7,12-15) a
    unfolding runs_def by fastforce
  have "netConfig s' = (netConfig s)\<lparr>serverAddress := Some source\<rparr>"
    using absD[OF s'(4)] a by (simp add: spec_msg_def answering_def Let_def)
  then have "server_address (netConfig s') = Some source" using assms(15) by (simp add: server_address_def)
  then show ?thesis using s' by blast
qed

text \<open>The state after a successful authentication over UDP.\<close>

definition open_state :: ProgramInterface where
  "open_state = (initial_interface (defaultNetworkConfig\<lparr>protocol := prot_UDP,
        serverAddress := Some (replicate sizeof_sockaddr_in 0), serverAddressSize := sizeof_sockaddr_in\<rparr>))
     \<lparr>threads := \<lparr>fsmState = fsm_OPEN, stdoutMutex = False, sendingQueue = queueInit\<rparr>,
      cleanUp := \<lparr>clientInput = bufferInit, protocolToSendedByMain = bufferInit,
        protocolToSendedByReceiver = bufferInit, protocolToSendedBySender = bufferInit,
        serverResponse = \<lparr>data = Some (replicate 1500 None), allocated = 1500, used = 0\<rparr>,
        confirmedMessages = queueInit\<rparr>\<rparr>"

lemma open_state_simps [simp]:
  "fsm open_state = fsm_OPEN" "is_UDP open_state" "sending open_state = queueInit"
  "confirmedMsgs open_state = queueInit" "stdoutMutex (threads open_state) = False"
  "allocated (serverResponse (cleanUp open_state)) = 1500"
  "serverAddress (netConfig open_state) = Some (replicate sizeof_sockaddr_in 0)"
  "serverAddressSize (netConfig open_state) = sizeof_sockaddr_in"
  by (simp_all add: open_state_def initial_interface_def defaultNetworkConfig_def)

lemma open_state_inv: "state_inv open_state"
  using state_inv_initial[of defaultNetworkConfig]
  by (simp add: open_state_def state_inv_def buffers_def initial_interface_def buf_ok_def buffer_wf_def)

text \<open>The address 127.0.0.1 with port 5000.\<close>

definition sample_source :: "byte list" where
  "sample_source = [2, 0, 19, 136, 127, 0, 0, 1, 0, 0, 0, 0, 0, 0, 0, 0]"

theorem message_received_witness:
  "\<exists>v' s' b. receiveOne grants_small sample_source (msg_byte msg_MSG # 1 # 0 # [66] @ 0 # [104, 105] @ [0])
        (sample_msg cmd_NONE, 0) open_state = Done v' s' \<and>
    state_inv s' \<and> received b (msg_byte msg_MSG # 1 # 0 # [66] @ 0 # [104, 105] @ [0]) \<and>
    abs_of s' = spec_msg 1 0 [66] [104, 105] ((answering sample_source (abs_of open_state))\<lparr>a_response := b\<rparr>) \<and>
    server_address (netConfig s') = Some sample_source"
  by (rule message_received[where address = "replicate sizeof_sockaddr_in 0", OF open_state_inv roomy_grants_small])
    (simp_all add: queueInit_def sample_source_def sizeof_sockaddr_in_def)

end
