(* ===== verification/Chat_Delivery.thy ===== *)
theory Chat_Delivery
  imports Chat_Behaviour
begin

text \<open>
  The delivery of messages over UDP: the confirmation of the first message, the removal of
  confirmed messages, and their effect on the state of the program.
\<close>

section \<open>The first message of the sending queue\<close>

lemma first_message:
  assumes "state_inv s" "abs_of s = t" "a_queue t = it # its"
  obtains a m as where "represents (memory s) (sending s) (a # as)" "cells (memory s) a = Some m"
    "view m = it" "items_at (memory s) as = its" "q_first (sending s) = Some a" "message_wf m"
    "q_len (sending s) = Suc (length as)"
proof -
  obtain as where r: "represents (memory s) (sending s) as"
    using assms(1) by (auto simp: state_inv_def queues_wf_alt)
  have items: "items_at (memory s) as = it # its"
    using queue_items_represents[OF r] absD(2)[OF assms(2)] assms(3) by simp
  then obtain a as' where as: "as = a # as'" by (cases as) (auto simp: items_at_def)
  then obtain m where "cells (memory s) a = Some m" "message_wf m"
    using r by (auto elim: represents_cell[of _ _ _ a])
  then show thesis
    using that[of a as' m] r items as represents_first[OF r] by (simp add: items_at_def represents_def)
qed

lemma no_message:
  assumes "state_inv s" "abs_of s = t" "a_queue t = []"
  shows "queueGetMessage (Some (sending s)) = Ok None" "queueIsEmpty (Some (sending s)) = Ok True"
proof -
  obtain as where r: "represents (memory s) (sending s) as"
    using assms(1) by (auto simp: state_inv_def queues_wf_alt)
  have "as = []"
    using queue_items_represents[OF r] absD(2)[OF assms(2)] assms(3) by (simp add: items_at_def)
  then show "queueGetMessage (Some (sending s)) = Ok None" "queueIsEmpty (Some (sending s)) = Ok True"
    using r by (simp_all add: represents_def queueGetMessage_def queueIsEmpty_def)
qed

lemma runs_upd_first:
  assumes "state_inv s" "abs_of s = t" "a_queue t = it # its" "q_first (sending s) = Some a"
    and "\<And>m. message_wf m \<Longrightarrow> message_wf (g m)" "\<And>m. behindMe (g m) = behindMe m"
    and "\<And>m. view m = it \<Longrightarrow> view (g m) = it'"
  shows "runs (on_memory (\<lambda>h q. heap_upd h (Some a) g)) s () (t\<lparr>a_queue := it' # its\<rparr>)"
proof -
  obtain m as where m: "represents (memory s) (sending s) (a # as)" "cells (memory s) a = Some m"
    "view m = it" "items_at (memory s) as = its" "message_wf m"
    using first_message[OF assms(1-3)] assms(4) by (metis option.inject)
  let ?h = "heap_put (memory s) a (g m)"
  have upd: "heap_upd (memory s) (Some a) g = Ok ?h" "represents ?h (sending s) (a # as)"
    "items_at ?h (a # as) = view (g m) # items_at (memory s) as" "heap_frame [a] (memory s) ?h"
    using upd_first_ok[where f = g, OF m(1,2) assms(6) assms(5)[OF m(5)]] assms(4) by simp_all
  have run: "on_memory (\<lambda>h q. heap_upd h (Some a) g) s = Done () (s\<lparr>memory := ?h\<rparr>)"
    using upd(1) by (simp add: on_memory_def bind_prog_run lift_res_run modify_run)
  have inv: "state_inv (s\<lparr>memory := ?h\<rparr>)"
    using keepsD[OF keeps_upd[where g = g and p = "Some a", OF assms(5,6)] assms(1)] run by (metis ensures.simps(1))
  obtain as' bs where r: "represents (memory s) (sending s) as'" "represents (memory s) (confirmedMsgs s) bs"
    "set as' \<inter> set bs = {}"
    using assms(1) by (auto simp: state_inv_def queues_wf_alt)
  have "as' = a # as" using queue_addrs_represents[OF r(1)] queue_addrs_represents[OF m(1)] by simp
  then have "set [a] \<inter> set bs = {}" using r(3) by simp
  from represents_frame[OF r(2) upd(4) this] have "queue_items ?h (confirmedMsgs s) = queue_items (memory s) (confirmedMsgs s)"
    using r(2) by (simp add: queue_items_represents)
  moreover have "queue_items ?h (sending s) = it' # its"
    using queue_items_represents[OF upd(2)] upd(3) assms(7)[OF m(3)] m(4) by simp
  ultimately have "abs_of (s\<lparr>memory := ?h\<rparr>) = t\<lparr>a_queue := it' # its\<rparr>"
    unfolding assms(2)[symmetric] by (simp add: abs_of_def)
  then show ?thesis using run inv by (auto simp: runs_def)
qed

section \<open>Confirmations\<close>

text \<open>The identifier in the bytes of a message.\<close>

fun item_id :: "qitem \<Rightarrow> 16 word option" where
  "item_id it =
     (case qi_bytes it of
        Some (_ # Some low # Some high # _) \<Rightarrow> Some (convert2BytesToU16Int low high)
      | _ \<Rightarrow> None)"

lemma getMessageID_eval:
  assumes "cells h a = Some m" "message_wf m" "item_id (view m) = Some i" "q_first q = Some a"
  shows "queueGetMessageID h (Some q) = Ok i"
proof -
  obtain b x low high r where b: "m_buffer m = Some b" "contents b = x # Some low # Some high # r"
    "i = convert2BytesToU16Int low high"
    using assms(3) by (auto simp: view_def split: option.splits list.splits)
  then obtain d where d: "data b = Some d" "take (used b) d = x # Some low # Some high # r"
    by (auto simp: contents_def split: option.splits)
  have "3 \<le> length (take (used b) d)" unfolding d(2) by simp
  then have len: "3 \<le> length d" "3 \<le> used b" by auto
  have "d ! 1 = Some low" "d ! 2 = Some high"
    using arg_cong[OF d(2), of "\<lambda>l. l ! 1"] arg_cong[OF d(2), of "\<lambda>l. l ! 2"] len by simp_all
  moreover from this(2) have "d ! Suc (Suc 0) = Some high" by (simp add: numeral_2_eq_2)
  ultimately show ?thesis
    using assms(1,4) b(1,3) d(1) len
    by (simp add: queueGetMessageID_def deref_def msg_buffer_def buf_ptr_def ptr_read_def msgid_positions)
qed

text \<open>The state after a confirmation, and who is woken up.\<close>

fun confirmed_fsm :: "fsm_t \<Rightarrow> fsm_t" where
  "confirmed_fsm fsm_AUTH_SENDED = fsm_W84_REPLY"
| "confirmed_fsm fsm_END_W84_CONF = fsm_END"
| "confirmed_fsm x = x"

definition spec_confirm :: "16 word \<Rightarrow> abs_state \<Rightarrow> abs_state" where
  "spec_confirm msgID t =
     (case a_queue t of
        [] \<Rightarrow> t
      | it # its \<Rightarrow>
          if item_id it \<noteq> Some msgID \<and> qi_type it \<noteq> msg_byte msg_AUTH then t
          else t\<lparr>a_queue := it\<lparr>qi_low := 1\<rparr> # its,
                 a_details := (a_details t)\<lparr>msgCounter := msgID + 1\<rparr>,
                 a_fsm := confirmed_fsm (a_fsm t),
                 a_events := a_events t
                   @ (if a_fsm t = fsm_END_W84_CONF \<or> a_fsm t = fsm_OPEN then [Signal mainCond] else [])
                   @ [Signal rec2SenderCond]\<rparr>)"

lemma runs_set_msgCounter:
  "state_inv s \<Longrightarrow> abs_of s = t \<Longrightarrow>
     runs (modify (set_msgCounter n)) s () (t\<lparr>a_details := (a_details t)\<lparr>msgCounter := n\<rparr>\<rparr>)"
  by (rule runs_modify) (auto simp: abs_of_def set_msgCounter_def state_inv_def buffers_def)

lemma runs_confirm_fsm:
  assumes "state_inv s" "abs_of s = t"
  shows "runs (case fsm s of
         fsm_AUTH_SENDED \<Rightarrow> setProgramState fsm_W84_REPLY
       | fsm_END_W84_CONF \<Rightarrow> steps [setProgramState fsm_END, cond_signal mainCond]
       | fsm_OPEN \<Rightarrow> cond_signal mainCond
       | _ \<Rightarrow> ret ()) s ()
     (t\<lparr>a_fsm := confirmed_fsm (a_fsm t), a_events := a_events t
        @ (if a_fsm t = fsm_END_W84_CONF \<or> a_fsm t = fsm_OPEN then [Signal mainCond] else [])\<rparr>)"
  using assms
  by (cases "a_fsm t")
    (auto simp: runs_def bind_prog_def getProgramState_def asks_def setProgramState_def cond_signal_def
      modify_def ret_def abs_of_def set_fsm_def emit_def state_inv_def buffers_def)

lemma unlocked_eq: "\<not> a_locked t \<Longrightarrow> t\<lparr>a_locked := False\<rparr> = t"
  by (cases t) simp

lemma runs_handleConfirmUDP:
  assumes "state_inv s" "abs_of s = t" "\<not> a_locked t"
    and "\<And>it its. a_queue t = it # its \<Longrightarrow> item_id it \<noteq> None"
  shows "runs (handleConfirmUDP msgID) s () (spec_confirm msgID t)"
proof -
  let ?t1 = "t\<lparr>a_locked := True\<rparr>"
  obtain s1 where s1: "lockSending s = Done () s1" "state_inv s1" "abs_of s1 = ?t1"
    by (rule runsE[OF runs_locks(1)[OF assms(1-3)]])
  have unlock: "runs unlockSending s1 () t"
    using runs_locks(2)[OF s1(2,3)] unlocked_eq[OF assms(3)] by simp
  show ?thesis
  proof (cases "a_queue t")
    case Nil
    then have "queueGetMessage (Some (sending s1)) = Ok None"
      using no_message[OF s1(2,3)] by simp
    then show ?thesis
      using s1(1) unlock Nil unfolding runs_def handleConfirmUDP_def spec_confirm_def
      by (simp add: bind_prog_def read_sending_def lift_res_def)
  next
    case (Cons it its)
    then have q1: "a_queue ?t1 = it # its" by simp
    obtain a m as where m: "cells (memory s1) a = Some m" "view m = it" "q_first (sending s1) = Some a"
      "message_wf m" "q_len (sending s1) = Suc (length (as :: addr list))"
      by (rule first_message[OF s1(2,3) q1]) blast
    obtain i where i: "item_id it = Some i" using assms(4)[OF Cons] by blast
    have reads: "queueGetMessage (Some (sending s1)) = Ok (Some a)"
      "queueGetMessageID (memory s1) (Some (sending s1)) = Ok i"
      "deref (memory s1) (Some a) = Ok m" "mtype m = qi_type it"
      using m getMessageID_eval[OF m(1,4) _ m(3)] i
      by (auto simp: queueGetMessage_def deref_def view_def)
    show ?thesis
    proof (cases "msgID \<noteq> i \<and> qi_type it \<noteq> msg_byte msg_AUTH")
      case True
      then show ?thesis
        using s1(1) unlock Cons reads i unfolding runs_def handleConfirmUDP_def spec_confirm_def
        by (auto simp: bind_prog_def read_sending_def lift_res_def)
    next
      case False
      obtain s2 where s2: "on_memory (\<lambda>h q. heap_upd h (Some a) (\<lambda>m. m\<lparr>u_low := 1\<rparr>)) s1 = Done () s2"
        "state_inv s2" "abs_of s2 = ?t1\<lparr>a_queue := it\<lparr>qi_low := 1\<rparr> # its\<rparr>"
        by (rule runsE[OF runs_upd_first[OF s1(2,3) q1 m(3),
            where g = "\<lambda>m. m\<lparr>u_low := 1\<rparr>" and it' = "it\<lparr>qi_low := 1\<rparr>"]])
          (auto simp: view_def message_wf_def)
      obtain s3 where s3: "modify (set_msgCounter (msgID + 1)) s2 = Done () s3" "state_inv s3"
        "abs_of s3 = (abs_of s2)\<lparr>a_details := (a_details t)\<lparr>msgCounter := msgID + 1\<rparr>\<rparr>"
        using runs_set_msgCounter[OF s2(2) refl, of "msgID + 1"] s2(3) by (auto simp: runs_def)
      obtain s4 where s4: "(case fsm s3 of
           fsm_AUTH_SENDED \<Rightarrow> setProgramState fsm_W84_REPLY
         | fsm_END_W84_CONF \<Rightarrow> steps [setProgramState fsm_END, cond_signal mainCond]
         | fsm_OPEN \<Rightarrow> cond_signal mainCond
         | _ \<Rightarrow> ret ()) s3 = Done () s4" "state_inv s4"
        "abs_of s4 = (abs_of s3)\<lparr>a_fsm := confirmed_fsm (a_fsm t), a_events := a_events t
          @ (if a_fsm t = fsm_END_W84_CONF \<or> a_fsm t = fsm_OPEN then [Signal mainCond] else [])\<rparr>"
        using runs_confirm_fsm[OF s3(2) refl] s3(3) s2(3) by (auto simp: runs_def)
      obtain s5 where s5: "cond_signal rec2SenderCond s4 = Done () s5" "state_inv s5"
        "abs_of s5 = (abs_of s4)\<lparr>a_events := a_events (abs_of s4) @ [Signal rec2SenderCond]\<rparr>"
        by (rule runsE[OF runs_cond_signal[OF s4(2) refl]])
      obtain s6 where s6: "unlockSending s5 = Done () s6" "state_inv s6"
        "abs_of s6 = (abs_of s5)\<lparr>a_locked := False\<rparr>"
        by (rule runsE[OF runs_locks(2)[OF s5(2) refl]])
      have "handleConfirmUDP msgID s = Done () s6"
        using s1(1) reads False s2(1) s3(1) s4(1) s5(1) s6(1) unfolding handleConfirmUDP_def
        by (auto simp: bind_prog_def read_sending_def lift_res_def getProgramState_def asks_def ret_def)
      moreover have "abs_of s6 = spec_confirm msgID t"
        using s6(3) s5(3) s4(3) s3(3) s2(3) False i Cons assms(3) unlocked_eq[OF assms(3)]
        unfolding spec_confirm_def by (cases t) auto
      ultimately show ?thesis using s6(2) by (simp add: runs_def)
    qed
  qed
qed

text \<open>A state with one message waiting for its confirmation.\<close>

definition waiting_message :: Message where
  "waiting_message = (sample_message [4, 7, 0, 66, 0, 104, 0])\<lparr>mtype := 4, msgFlags := msg_flag_NONE\<rparr>"

definition waiting_state :: ProgramInterface where
  "waiting_state = open_state\<lparr>memory := \<lparr>cells = (\<lambda>_. None)(0 \<mapsto> waiting_message), next_addr = 1\<rparr>,
     threads := (threads open_state)\<lparr>sendingQueue := sample_queue\<rparr>\<rparr>"

lemma waiting_represents: "represents (memory waiting_state) (sending waiting_state) [0]"
  by (simp add: waiting_state_def represents_def sample_queue_def message_wf_def waiting_message_def
      sample_message_def sample_buffer_wf)

lemma waiting_items: "queue_items (memory waiting_state) (sending waiting_state) = [view waiting_message]"
  using queue_items_represents[OF waiting_represents] by (simp add: items_at_def waiting_state_def)

lemma waiting_state_inv: "state_inv waiting_state"
proof -
  have "confirmedMsgs waiting_state = queueInit" by (simp add: waiting_state_def)
  moreover have "dom (cells (memory waiting_state)) = {0}" by (simp add: waiting_state_def)
  ultimately have "queues_wf (memory waiting_state) (sending waiting_state) (confirmedMsgs waiting_state)"
    using waiting_represents
    by (simp add: queues_wf_def represents_queue_wf queue_addrs_represents)
  moreover have "buffers waiting_state = buffers open_state" by (simp add: buffers_def waiting_state_def)
  ultimately show ?thesis using open_state_inv by (simp add: state_inv_def)
qed

section \<open>Removing confirmed messages\<close>

text \<open>A message the filter deletes: rejected, or confirmed and not an AUTH.\<close>

definition finished :: "qitem \<Rightarrow> bool" where
  "finished it \<longleftrightarrow> qi_flags it = msg_flag_REJECTED \<or> (qi_flags it \<noteq> msg_flag_AUTH \<and> qi_low it \<noteq> 0)"

definition in_time :: "abs_state \<Rightarrow> qitem \<Rightarrow> bool" where
  "in_time t it \<longleftrightarrow> qi_high it \<le> udpMaxRetries (a_net t)"

lemma runs_filterLoop:
  assumes "state_inv s" "abs_of s = t" "list_all (in_time t) (a_queue t)"
  shows "runs (filterLoop alloc r) s r (t\<lparr>a_queue := dropWhile finished (a_queue t)\<rparr>)"
  using assms
proof (induction "a_queue t" arbitrary: s t)
  case Nil
  then show ?case
    using no_message[OF Nil(2,3)] by (cases t) (simp add: runs_def filterLoop.simps)
next
  case (Cons it its)
  note q = Cons.hyps(2)[symmetric]
  obtain a m as where m: "cells (memory s) a = Some m" "view m = it" "q_first (sending s) = Some a"
    "q_len (sending s) = Suc (length (as :: addr list))"
    by (rule first_message[OF Cons.prems(1,2) q]) blast
  have count: "\<not> sendCount m > udpMaxRetries (netConfig s)"
    using Cons.prems(3) q m(2) absD(8)[OF Cons.prems(2)] by (auto simp: in_time_def view_def)
  have get: "queueGetMessage (Some (sending s)) = Ok (Some a)"
    using m(3,4) by (simp add: queueGetMessage_def)
  have one: "filterOne alloc r a s = Done (finished it, r) s"
    using count m by (auto simp: filterOne_def bind_prog_def read_sending_def lift_res_def asks_def
        getProgramState_def ret_def queueGetSendedCounter_def deref_def finished_def view_def)
  show ?case
  proof (cases "finished it")
    case False
    then show ?thesis
      using Cons.prems q get one by (cases t) (simp add: runs_def filterLoop.simps[of _ _ s])
  next
    case True
    obtain s1 where s1: "on_sending (\<lambda>h q. queuePopMessage h (Some q)) s = Done () s1" "state_inv s1"
      "abs_of s1 = t\<lparr>a_queue := its\<rparr>"
      using runs_pop[OF Cons.prems(1,2)] q by (auto simp: runs_def)
    then obtain h q' where pop: "queuePopMessage (memory s) (Some (sending s)) = Ok (h, q')"
      "s1 = set_sending q' (s\<lparr>memory := h\<rparr>)"
      by (auto simp: on_sending_def bind_prog_def lift_res_def modify_def split: res.splits)
    have "list_all (in_time (t\<lparr>a_queue := its\<rparr>)) (a_queue (t\<lparr>a_queue := its\<rparr>))"
      using Cons.prems(3) q by (simp add: in_time_def[abs_def])
    from Cons.hyps(1)[OF _ s1(2,3) this] show ?thesis
      using get one True pop q by (simp add: runs_def filterLoop.simps[of _ _ s])
  qed
qed

text \<open>As long as no message was sent too often, \<open>filterResentMessages\<close> returns and removes exactly the
  finished messages at the front of the queue: those that were rejected, and those that were confirmed
  unless they are an AUTH. What it leaves at the front is sent (again), everything else is untouched.\<close>

theorem confirmed_messages_removed:
  assumes "state_inv s" "list_all (in_time (abs_of s)) (queue_items (memory s) (sending s))"
  shows "\<exists>s'. filterResentMessages alloc s = Done False s' \<and> state_inv s' \<and>
    abs_of s' = (abs_of s)\<lparr>a_queue := dropWhile finished (queue_items (memory s) (sending s))\<rparr>"
  using runs_filterLoop[OF assms(1) refl, of alloc False] assms(2) absD(2)[of s, OF refl]
  unfolding runs_def filterResentMessages_def by auto

theorem confirmed_messages_removed_witness:
  "\<exists>s'. filterResentMessages grants_small waiting_state = Done False s' \<and> state_inv s' \<and>
    abs_of s' = (abs_of waiting_state)\<lparr>a_queue := dropWhile finished (queue_items (memory waiting_state) (sending waiting_state))\<rparr>"
  by (rule confirmed_messages_removed[OF waiting_state_inv])
    (simp add: waiting_items waiting_message_def sample_message_def view_def in_time_def)

end
