(* ===== verification/Chat_Commands.thy ===== *)
theory Chat_Commands
  imports Chat_Delivery
begin

text \<open>
  The main thread: which commands of the user are sent in which state, that its loop ends when
  the input ends and says good bye then; the time a wait lasts; and the error handler, which cannot
  take a mutex its own thread holds.
\<close>

section \<open>Commands\<close>

lemma store_fsm:
  "store_displayName alloc blk s = Done () s' \<Longrightarrow> fsm s' = fsm s"
  "store_channelID alloc blk s = Done () s' \<Longrightarrow> fsm s' = fsm s"
  by (auto simp: store_displayName_def store_channelID_def bind_prog_def lift_res_def modify_def
      split: res.splits)

text \<open>C19: a command goes out only in the state that allows it: \<open>/auth\<close> before the authentication (and then
  the program waits for it to be sent), \<open>/join\<close> and messages after it, \<open>/exit\<close> always; nothing else is
  ever sent.\<close>

theorem commands_allowed:
  assumes "filterCommandsByFSM alloc pb flags s = Done (True, f) s'"
  shows "case uchar2CommandType (pb_type pb) of
      cmd_AUTH \<Rightarrow> fsm s = fsm_START \<and> f = msg_flag_AUTH \<and> fsm s' = fsm_AUTH_W82_BE_SENDED
    | cmd_JOIN \<Rightarrow> fsm s = fsm_OPEN \<and> f = flags \<and> fsm s' = fsm_OPEN
    | cmd_MSG \<Rightarrow> fsm s = fsm_OPEN \<and> f = flags \<and> s' = s
    | cmd_EXIT \<Rightarrow> f = flags \<and> s' = s
    | _ \<Rightarrow> False"
  using assms
  by (cases "uchar2CommandType (pb_type pb)")
    (auto simp: filterCommandsByFSM_def Let_def bind_prog_def ret_def getProgramState_def asks_def
      setProgramState_def modify_def set_fsm_def dest: store_fsm split: outcome.splits if_splits)

theorem commands_allowed_witness:
  "\<exists>s' f. filterCommandsByFSM grants_small (sample_msg cmd_MSG) msg_flag_NONE open_state = Done (True, f) s' \<and>
    uchar2CommandType (pb_type (sample_msg cmd_MSG)) = cmd_MSG \<and>
    fsm open_state = fsm_OPEN \<and> f = msg_flag_NONE \<and> s' = open_state"
proof -
  have ty: "uchar2CommandType (pb_type (sample_msg cmd_MSG)) = cmd_MSG"
    by (simp add: sample_msg_def blocks_def uchar2CommandType_def)
  then have "filterCommandsByFSM grants_small (sample_msg cmd_MSG) msg_flag_NONE open_state
      = Done (True, msg_flag_NONE) open_state"
    by (simp add: filterCommandsByFSM_def Let_def bind_prog_def ret_def getProgramState_def asks_def)
  then show ?thesis using commands_allowed[of grants_small "sample_msg cmd_MSG"] ty by fastforce
qed

section \<open>The timeout\<close>

text \<open>C28: \<open>TIMEOUT_CALCULATION\<close> gives a valid time, exactly the timeout after the present one, and none of
  its intermediate results leaves the range of its type.\<close>

theorem timeout_exact:
  assumes "0 \<le> sec" "sec < 2 ^ 62" "0 \<le> usec" "usec < 1000 * 1000" "TIMEOUT_CALCULATION (sec, usec) millis = (s', ns')"
  shows "0 \<le> ns' \<and> ns' < 10 ^ 9 \<and> s' * 10 ^ 9 + ns' = sec * 10 ^ 9 + usec * 1000 + uint millis * 10 ^ 6 \<and>
    1000 * 1000 * (uint millis mod 1000) < 2 ^ 31 \<and>
    usec * 1000 + 1000 * 1000 * (uint millis mod 1000) < 2 ^ 63 \<and> s' < 2 ^ 63"
proof -
  let ?m = "uint millis"
  let ?N = "usec * 1000 + 1000 * 1000 * (?m mod 1000)"
  have m: "0 \<le> ?m" "?m < 65536" using uint_lt2p[of millis] by simp_all
  have res: "s' = sec + ?m div 1000 + ?N div 1000000000" "ns' = ?N mod 1000000000"
    using assms(5) by (simp_all add: TIMEOUT_CALCULATION_def Let_def)
  have split: "?m = 1000 * (?m div 1000) + ?m mod 1000" "?N = 1000000000 * (?N div 1000000000) + ?N mod 1000000000"
    by simp_all
  have "(sec + D + Q) * 1000000000 + S = sec * 1000000000 + usec * 1000 + m * 1000000"
    if "m = 1000 * D + R" "usec * 1000 + 1000 * 1000 * R = 1000000000 * Q + S" for m D R Q S
    using that by simp
  from this[OF split] have sum: "s' * 1000000000 + ns' = sec * 1000000000 + usec * 1000 + ?m * 1000000"
    unfolding res .
  have N: "0 \<le> ?N" "?N < 2000000000" using assms(3,4) m by simp_all
  have "?N div 1000000000 < 2" "?m div 1000 < 66" using N(2) m(2) by linarith+
  then have "s' < 2 ^ 62 + 68" unfolding res(1) using assms(2) by linarith
  moreover have "0 \<le> ns'" "ns' < 1000000000" unfolding res(2) by simp_all
  moreover have "1000 * 1000 * (?m mod 1000) < 2 ^ 31" by simp
  ultimately show ?thesis using sum N(2) by simp
qed

theorem timeout_exact_witness:
  "\<exists>s' ns'. TIMEOUT_CALCULATION (10, 700000) 1500 = (s', ns') \<and> 0 \<le> ns' \<and> ns' < 10 ^ 9 \<and>
    s' * 10 ^ 9 + ns' = 10 * 10 ^ 9 + 700000 * 1000 + uint (1500 :: 16 word) * 10 ^ 6 \<and> s' = 12 \<and> ns' = 200000000"
  using timeout_exact[of 10 700000 1500 12 200000000] by (simp add: TIMEOUT_CALCULATION_def)

section \<open>The error handler\<close>

lemma error_handler_waits:
  assumes "q_locked (sending s)" "c = err_INTERNAL_UNEXPECTED_RESULT \<or> c = err_INTERNAL_BAD_ARG"
  shows "\<exists>s'. errHandling alloc others msg c s = Blocked s' \<and> fsm s' = fsm_ERR \<and>
    queue_items (memory s') (sending s') = queue_items (memory s) (sending s) \<and>
    events s' = events s @ [Stderr (bytes_of ''ERR: '' @ msg @ [10]), Signal mainCond]"
  using assms
  by (auto simp: errHandling_def replaceByBye_def bind_prog_def setProgramState_def cond_signal_def modify_def
      lockSending_def queueLock_def state_defs)

lemma error_handler_exits:
  assumes "state_inv s" "c \<noteq> err_INTERNAL_UNEXPECTED_RESULT" "c \<noteq> err_INTERNAL_BAD_ARG"
  shows "\<exists>h s'. errHandling alloc others msg c s = Done (c, h) s' \<and> cells h = (\<lambda>_. None) \<and>
    events s' = events s @ [Stderr (bytes_of ''ERR: '' @ msg @ [10])]"
proof -
  let ?s = "emit [Stderr (bytes_of ''ERR: '' @ msg @ [10])] s"
  obtain h freed where h: "programInterfaceDestroy s = Ok (h, freed)" "cells h = (\<lambda>_. None)"
    using destroy_frees[OF assms(1)] by blast
  have "programInterfaceDestroy ?s = programInterfaceDestroy s"
    by (simp add: programInterfaceDestroy_def emit_def)
  then show ?thesis
    using h assms(2,3) by (simp add: errHandling_def destroyAndExit_def bind_prog_def modify_def lift_res_def ret_def)
      (simp add: emit_def)
qed

lemma logicFSM_refuses:
  assumes "state_inv s" "fsm s = fsm_ERR \<or> fsm s = fsm_ERR_W84_CONF" "queue_items (memory s) (sending s) = it # its"
    and "qi_flags it \<notin> {msg_flag_BYE, msg_flag_ERR, msg_flag_CONFIRM}"
  shows "logicFSM others s = Exits err_INTERNAL_BAD_ARG s"
proof -
  have q: "a_queue (abs_of s) = it # its" using assms(3) by (simp add: abs_of_def)
  obtain a m as where m: "cells (memory s) a = Some m" "view m = it" "q_first (sending s) = Some a"
    "q_len (sending s) = Suc (length (as :: addr list))"
    by (rule first_message[OF assms(1) refl q]) blast
  have reads: "queueGetMessage (Some (sending s)) = Ok (Some a)"
    "queueGetMessageMsgType (memory s) (Some (sending s)) = Ok (uchar2msgType (mtype m))"
    "queueGetMessageFlags (memory s) (Some (sending s)) = Ok (qi_flags it)"
    using m by (auto simp: queueGetMessage_def queueGetMessageMsgType_def queueGetMessageFlags_def deref_def view_def)
  have "logicBody again others s = Exits err_INTERNAL_BAD_ARG s" for again
    using reads assms(2,4)
    by (auto simp: logicBody_def bind_prog_def read_sending_def lift_res_def getProgramState_def asks_def errExit_def)
  then show ?thesis by (cases others) simp_all
qed

text \<open>C29: \<open>errHandling\<close> called while the mutex of the sending queue is held. For the two internal errors, a bad argument
  and an unexpected result, it sets the error state, prints the message, signals the main thread and then
  waits for ever for the mutex, so no BYE is sent and the program does not exit; for every other error it
  takes no lock: the message is printed and the program exits with the error as its code and no message
  left. The sender runs into the first case when it finds a message other than BYE, ERR or CONFIRM in one of
  the two error states, since \<open>logicFSM\<close> is called with the mutex held.\<close>

theorem error_with_lock_held_blocks:
  assumes "state_inv s" "q_locked (sending s)"
  shows "(if c = err_INTERNAL_UNEXPECTED_RESULT \<or> c = err_INTERNAL_BAD_ARG
      then \<exists>s'. errHandling alloc others msg c s = Blocked s' \<and> fsm s' = fsm_ERR \<and>
        queue_items (memory s') (sending s') = queue_items (memory s) (sending s) \<and>
        events s' = events s @ [Stderr (bytes_of ''ERR: '' @ msg @ [10]), Signal mainCond]
      else \<exists>h s'. errHandling alloc others msg c s = Done (c, h) s' \<and> cells h = (\<lambda>_. None) \<and>
        events s' = events s @ [Stderr (bytes_of ''ERR: '' @ msg @ [10])]) \<and>
    (\<forall>it its. (fsm s = fsm_ERR \<or> fsm s = fsm_ERR_W84_CONF) \<longrightarrow> queue_items (memory s) (sending s) = it # its \<longrightarrow>
      qi_flags it \<notin> {msg_flag_BYE, msg_flag_ERR, msg_flag_CONFIRM} \<longrightarrow>
      (\<exists>s'. with_errHandling alloc others msg (logicFSM others') s = Blocked s' \<and> fsm s' = fsm_ERR \<and>
        queue_items (memory s') (sending s') = it # its \<and>
        events s' = events s @ [Stderr (bytes_of ''ERR: '' @ msg @ [10]), Signal mainCond]))"
proof (intro conjI allI impI)
  fix it its
  assume "fsm s = fsm_ERR \<or> fsm s = fsm_ERR_W84_CONF" "queue_items (memory s) (sending s) = it # its"
    "qi_flags it \<notin> {msg_flag_BYE, msg_flag_ERR, msg_flag_CONFIRM}"
  with logicFSM_refuses[OF assms(1) this]
  show "\<exists>s'. with_errHandling alloc others msg (logicFSM others') s = Blocked s' \<and> fsm s' = fsm_ERR \<and>
        queue_items (memory s') (sending s') = it # its \<and>
        events s' = events s @ [Stderr (bytes_of ''ERR: '' @ msg @ [10]), Signal mainCond]"
    using error_handler_waits[OF assms(2), of err_INTERNAL_BAD_ARG alloc others msg]
    by (auto simp: with_errHandling_def bind_prog_def)
qed (use error_handler_waits[OF assms(2)] error_handler_exits[OF assms(1)] in auto)

text \<open>The sender in the error state with an ordinary message at the front.\<close>

definition stuck_state :: ProgramInterface where
  "stuck_state = waiting_state\<lparr>threads :=
     \<lparr>fsmState = fsm_ERR, stdoutMutex = False, sendingQueue = sample_queue\<lparr>q_locked := True\<rparr>\<rparr>\<rparr>"

lemma stuck_state_simps:
  "sending stuck_state = (sending waiting_state)\<lparr>q_locked := True\<rparr>"
  "memory stuck_state = memory waiting_state" "confirmedMsgs stuck_state = confirmedMsgs waiting_state"
  "buffers stuck_state = buffers waiting_state" "fsm stuck_state = fsm_ERR"
  by (simp_all add: stuck_state_def waiting_state_def buffers_def)

lemma stuck_state_inv: "state_inv stuck_state"
  using waiting_state_inv by (simp add: state_inv_def stuck_state_simps queues_wf_locked)

theorem error_with_lock_held_blocks_witness:
  "(\<exists>s'. with_errHandling grants_small [] [104] (logicFSM []) stuck_state = Blocked s' \<and>
      fsm s' = fsm_ERR \<and> queue_items (memory s') (sending s') = [view waiting_message] \<and>
      events s' = events stuck_state @ [Stderr (bytes_of ''ERR: '' @ [104] @ [10]), Signal mainCond]) \<and>
    (\<exists>h s'. errHandling grants_small [] [104] err_COMMUNICATION stuck_state = Done (err_COMMUNICATION, h) s' \<and>
      cells h = (\<lambda>_. None) \<and> events s' = events stuck_state @ [Stderr (bytes_of ''ERR: '' @ [104] @ [10])])"
proof -
  have held: "q_locked (sending stuck_state)" by (simp add: stuck_state_simps)
  have items: "queue_items (memory stuck_state) (sending stuck_state) = [view waiting_message]"
    by (simp add: stuck_state_simps queue_items_locked waiting_items)
  have flags: "qi_flags (view waiting_message) \<notin> {msg_flag_BYE, msg_flag_ERR, msg_flag_CONFIRM}"
    by (simp add: view_def waiting_message_def)
  note held_error = error_with_lock_held_blocks[where alloc = grants_small and others = "[]" and msg = "[104]" and others' = "[]"
      and c = err_COMMUNICATION, OF stuck_state_inv held]
  show ?thesis
    using held_error items flags by (simp add: stuck_state_simps(5))
qed

section \<open>The loop over the input\<close>

text \<open>The turns that are left: each reads at least one character until the input ends, then one says
  good bye.\<close>

fun turns_left :: "main_vars \<Rightarrow> nat" where
  "turns_left v = (if eofDetected v then 1 else length (stdin v) + 2)"

lemma load_loop_rest:
  "load_loop alloc b c inp i = Ok (b', c', inp', j) \<Longrightarrow> length inp' \<le> length inp"
proof (induction alloc b c inp i rule: load_loop.induct)
  case (1 alloc b c inp i)
  show ?case
  proof (cases "isEndingCharacter c = 0")
    case True
    then show ?thesis using 1(2) by (simp add: load_loop.simps[of _ b])
  next
    case False
    then obtain b1 b2 where b1: "(if data b = None \<or> allocated b \<le> 0
           then bufferResize alloc b INITIAL_BUFFER_SIZE
           else if allocated b - 1 < i
           then bufferResize alloc b (allocated b * 2)
           else Ok b) = Ok b1"
      and b2: "buf_write b1 i c = Ok b2"
      and rec: "load_loop alloc b2 (fst (getc_char inp)) (snd (getc_char inp)) (Suc i)
        = Ok (b', c', inp', j)"
      using 1(2) by (auto simp: load_loop.simps[of _ b] res_bind_eq_Ok)
    have "length inp' \<le> length (snd (getc_char inp))" by (rule 1(1)[OF False b1 b2 rec])
    also have "\<dots> \<le> length inp" by (cases inp) auto
    finally show ?thesis .
  qed
qed

lemma loadBuffer_progress:
  assumes "loadBufferFromStdin alloc b False inp = Ok (b', eof, rest, n)"
  shows "eof \<or> length rest < length inp"
proof (cases inp)
  case Nil
  then show ?thesis
    using assms by (auto simp: loadBufferFromStdin_def load_loop.simps res_bind_eq_Ok Let_def)
next
  case (Cons c inp')
  obtain b1 c1 where "load_loop alloc b c inp' 0 = Ok (b1, c1, rest, n)"
    using assms Cons by (auto simp: loadBufferFromStdin_def res_bind_eq_Ok Let_def)
  from load_loop_rest[OF this] show ?thesis using Cons by simp
qed

lemma sendCommand_input:
  "returns (\<lambda>w. eofDetected w = eofDetected v \<and> stdin w = stdin v) (sendCommand alloc pb flags v)"
  unfolding sendCommand_def Let_def
  by (auto intro!: returns_bind returns_ret split: prod.split)

lemma commandTurn_progress:
  assumes "commandTurn alloc v s = Done w s'"
  shows "turns_left w < turns_left v \<or> \<not> fsm s' < fsm_EMPTY_Q_BYE"
proof (cases "eofDetected v")
  case True
  obtain s1 where "sendBye alloc (set_fsm fsm_EMPTY_Q_BYE s) = Done () s1" "fsm s' = fsm s1"
    using assms True
    by (auto simp: commandTurn_def bind_prog_def setProgramState_def modify_def cond_signal_def ret_def
        emit_def split: outcome.splits)
  moreover have "fsm (set_fsm fsm_EMPTY_Q_BYE s) = fsm_EMPTY_Q_BYE" by (simp add: set_fsm_def)
  ultimately show ?thesis
    using guarD[OF fsm_part.messages(2), of "set_fsm fsm_EMPTY_Q_BYE s" alloc] by fastforce
next
  case False
  then obtain buf eof rest len pb flags s1 where
    load: "loadBufferFromStdin alloc (clientInput (cleanUp s)) False (stdin v) = Ok (buf, eof, rest, len)"
    and send: "sendCommand alloc pb flags (v\<lparr>eofDetected := eof, stdin := rest\<rparr>) s1 = Done w s'"
    using assms
    by (auto simp: commandTurn_def bind_prog_def lift_res_def split: outcome.splits res.splits)
  have "eofDetected w = eof" "stdin w = rest"
    using sendCommand_input[of "v\<lparr>eofDetected := eof, stdin := rest\<rparr>" alloc pb flags] send
    by (auto simp: returns_def)
  then show ?thesis using loadBuffer_progress[OF load] False by auto
qed

lemma userCommandHandling_closing: "\<not> fsm s < fsm_EMPTY_Q_BYE \<Longrightarrow> userCommandHandling n alloc v s = Done True s"
  by (cases n) simp_all

lemma userCommandHandling_fuel:
  "turns_left v \<le> n \<Longrightarrow> turns_left v \<le> k \<Longrightarrow> userCommandHandling n alloc v s = userCommandHandling k alloc v s"
proof (induction n arbitrary: k v s)
  case 0
  then show ?case by (simp split: if_splits)
next
  case (Suc n)
  obtain j where k: "k = Suc j" using Suc.prems(2) by (cases k) (auto split: if_splits)
  have "userCommandHandling n alloc w s' = userCommandHandling j alloc w s'"
    if turn: "commandTurn alloc v s = Done w s'" for w s'
  proof (cases "fsm s' < fsm_EMPTY_Q_BYE")
    case True
    then have "turns_left w \<le> n" "turns_left w \<le> j"
      using commandTurn_progress[OF turn] Suc.prems k by simp_all
    then show ?thesis by (rule Suc.IH)
  qed (simp add: userCommandHandling_closing)
  then show ?case
    unfolding k by (simp add: bind_prog_def del: turns_left.simps split: outcome.split)
qed

lemma userCommandHandling_left:
  "turns_left v \<le> n \<Longrightarrow> userCommandHandling n alloc v s \<noteq> Done False s'"
proof (induction n arbitrary: v s)
  case 0
  then show ?case by (simp split: if_splits)
next
  case (Suc n)
  have "userCommandHandling n alloc w s1 \<noteq> Done False s'" if turn: "commandTurn alloc v s = Done w s1" for w s1
  proof (cases "fsm s1 < fsm_EMPTY_Q_BYE")
    case True
    then show ?thesis using commandTurn_progress[OF turn] Suc.prems by (intro Suc.IH) simp
  qed (simp add: userCommandHandling_closing)
  then show ?case by (auto simp: bind_prog_def split: outcome.split)
qed

text \<open>C21: the loop over the user's input ends. Within as many turns as the input has characters, and two more for
  its end and the BYE, it is left (\<open>Done True\<close>), has called the error handler, has run into undefined behaviour or waits
  for ever on a condition or a mutex; it never still runs then (\<open>Done False\<close>), and more turns change
  nothing.\<close>

theorem input_loop_ends:
  assumes "\<not> eofDetected v" "length (stdin v) + 2 \<le> n"
  shows "(\<forall>s'. userCommandHandling n alloc v s \<noteq> Done False s') \<and>
    userCommandHandling n alloc v s = userCommandHandling (length (stdin v) + 2) alloc v s"
  using userCommandHandling_left[of v n alloc s] userCommandHandling_fuel[of v n "length (stdin v) + 2" alloc s] assms
  by simp

definition sample_input :: main_vars where
  "sample_input = \<lparr>eofDetected = False, mBlocks = sample_msg cmd_NONE, stdin = [104, 10], mothers = []\<rparr>"

lemma sample_input_bounds: "\<not> eofDetected sample_input" "length (stdin sample_input) + 2 \<le> 9"
  by (simp_all add: sample_input_def)

theorem input_loop_ends_witness:
  "(\<forall>s'. userCommandHandling 9 grants_small sample_input open_state \<noteq> Done False s') \<and>
    userCommandHandling 9 grants_small sample_input open_state
      = userCommandHandling (length (stdin sample_input) + 2) grants_small sample_input open_state"
  by (rule input_loop_ends[OF sample_input_bounds])

section \<open>The end of the input\<close>

text \<open>A BYE in the queue. Over UDP its identifier is set when it is sent, until then the two bytes are whatever
  the buffer held; over TCP it is a line.\<close>

definition bye_item :: "byte option \<Rightarrow> byte option \<Rightarrow> qitem" where
  "bye_item i1 i2 = \<lparr>qi_bytes = Some [Some (msg_byte msg_BYE), i1, i2], qi_high = 0, qi_low = 0,
     qi_type = msg_byte msg_BYE, qi_flags = msg_flag_BYE\<rparr>"

definition bye_line :: qitem where
  "bye_line = \<lparr>qi_bytes = Some (map Some (bytes_of ''BYE'' @ CRLF)), qi_high = 0, qi_low = 0,
     qi_type = msg_byte msg_BYE, qi_flags = msg_flag_BYE\<rparr>"

definition bye_of :: "prot_t \<Rightarrow> byte option \<Rightarrow> byte option \<Rightarrow> qitem" where
  "bye_of p i1 i2 = (if p = prot_UDP then bye_item i1 i2 else bye_line)"

lemma fresh_exit:
  "pb_type (fresh_blocks cmd_EXIT) = cmd_byte cmd_EXIT" "sum_of_lengths (fresh_blocks cmd_EXIT) = 0"
  by (simp_all add: fresh_blocks_def resetProtocolBlocks_def sum_of_lengths_def no_block_def size_add_def)

lemma assemble_bye:
  assumes "roomy alloc" "buffer_wf b"
  shows "\<exists>i1 i2 pb' b'. assembleProtocolUDP alloc cd (fresh_blocks cmd_EXIT) b = Ok (True, pb', b', []) \<and>
    buffer_wf b' \<and> new_item b' msg_flag_BYE (msg_byte msg_BYE) = bye_item i1 i2 \<and> used b' = 3"
proof -
  let ?pb = "fresh_blocks cmd_EXIT"
  have len: "bb_len (zeroth ?pb) + bb_len (first ?pb) + bb_len (second ?pb) + bb_len (third ?pb) + 10 < 2 ^ 64"
    by (simp add: fresh_blocks_def resetProtocolBlocks_def no_block_def)
  have "assembleProtocolUDP alloc cd ?pb b = assembleProtocolUDP (\<lambda>_. True) cd ?pb b"
    by (intro assembleUDP_control_alloc[OF assms(1)]) (simp_all only: fresh_exit uchar2CommandType_cmd_byte simp_thms, simp)
  then show ?thesis
    using assembleUDP_bye_bytes[OF assms(2) _ fresh_exit(1) len, of "\<lambda>_. True" cd]
    by (auto simp: new_item_def bye_item_def)
qed

lemma assemble_bye_line:
  assumes "roomy alloc" "buffer_wf b"
  shows "\<exists>pb' b'. assembleProtocolTCP alloc cd (fresh_blocks cmd_EXIT) b = Ok (True, pb', b', []) \<and>
    buffer_wf b' \<and> new_item b' msg_flag_BYE (msg_byte msg_BYE) = bye_line \<and> used b' = 5"
proof -
  let ?pb = "fresh_blocks cmd_EXIT"
  have ty: "uchar2CommandType (pb_type ?pb) = cmd_EXIT" unfolding fresh_exit(1) by (rule uchar2CommandType_cmd_byte)
  have "bufferResize alloc b 6 = bufferResize (\<lambda>_. True) b 6"
    using roomyD(1)[OF assms(1), of 6] by (simp add: bufferResize_def)
  then have "assembleProtocolTCP alloc cd ?pb b = assembleProtocolTCP (\<lambda>_. True) cd ?pb b"
    by (simp add: assembleProtocolTCP_def Let_def ty fresh_exit(2) size_add_def)
  then show ?thesis
    using assembleTCP_bye_bytes[OF assms(2) _ fresh_exit(1), of "\<lambda>_. True" cd] fresh_exit(2)
    by (auto simp: new_item_def bye_line_def)
qed

lemma bye_assembled:
  assumes "state_inv s" "roomy alloc" "is_UDP s \<or> is_TCP s"
  obtains i1 i2 pb' b where "assemble_variant alloc By_Main (fresh_blocks cmd_EXIT) s = Done (Some (True, pb')) (out_set By_Main b s)"
    "buffer_wf b" "grants alloc b" "new_item b msg_flag_BYE (msg_byte msg_BYE) = bye_of (protocol (netConfig s)) i1 i2"
proof (cases "is_UDP s")
  case True
  obtain i1 i2 pb' b where b: "assembleProtocolUDP alloc (comDetails s) (fresh_blocks cmd_EXIT) (out_get By_Main s)
      = Ok (True, pb', b, [])" "buffer_wf b" "new_item b msg_flag_BYE (msg_byte msg_BYE) = bye_item i1 i2" "used b = 3"
    using assemble_bye[OF assms(2) state_inv_bufs(2)[OF assms(1), of By_Main]] by metis
  show thesis
    by (rule that[of pb' b i1 i2, OF _ b(2)])
      (use True b roomy_grants[OF assms(2), of b] in \<open>simp_all add: assemble_variant_def assemble_def bind_prog_run lift_res_run
        modify_run ret_run bye_of_def\<close>)
next
  case False
  obtain pb' b where b: "assembleProtocolTCP alloc (comDetails s) (fresh_blocks cmd_EXIT) (out_get By_Main s)
      = Ok (True, pb', b, [])" "buffer_wf b" "new_item b msg_flag_BYE (msg_byte msg_BYE) = bye_line" "used b = 5"
    using assemble_bye_line[OF assms(2) state_inv_bufs(2)[OF assms(1), of By_Main]] by metis
  show thesis
    by (rule that[of pb' b, OF _ b(2)])
      (use False assms(3) b roomy_grants[OF assms(2), of b] in \<open>simp_all add: assemble_variant_def assemble_def bind_prog_run
        lift_res_run modify_run ret_run bye_of_def\<close>)
qed

lemma unlock_again:
  fixes t :: abs_state
  assumes "\<not> a_locked t"
  shows "t\<lparr>a_queue := q, a_locked := False\<rparr> = t\<lparr>a_queue := q\<rparr>"
  using assms by (intro abs_state.equality) simp_all

lemma runs_sendBye_any:
  assumes "state_inv s" "abs_of s = t" "roomy alloc" "protocol (a_net t) = prot_UDP \<or> protocol (a_net t) = prot_TCP" "\<not> a_locked t"
  shows "\<exists>i1 i2. runs (sendBye alloc) s () (t\<lparr>a_queue := a_queue t @ [bye_of (protocol (a_net t)) i1 i2]\<rparr>)"
proof -
  let ?t1 = "t\<lparr>a_locked := True\<rparr>"
  obtain s1 where s1: "lockSending s = Done () s1" "state_inv s1" "abs_of s1 = ?t1"
    using runsE[OF runs_locks(1)[OF assms(1,2,5)]] by metis
  have net: "netConfig s1 = a_net t" using absD(8)[OF s1(3)] by simp
  obtain i1 i2 pb' b where b: "assemble_variant alloc By_Main (fresh_blocks cmd_EXIT) s1 = Done (Some (True, pb')) (out_set By_Main b s1)"
    "buffer_wf b" "grants alloc b" "new_item b msg_flag_BYE (msg_byte msg_BYE) = bye_of (protocol (a_net t)) i1 i2"
    by (rule bye_assembled[OF s1(2) assms(3), unfolded net, OF assms(4)])
  let ?s2 = "out_set By_Main b s1"
  have inv2: "state_inv ?s2"
    using keepsD[OF keeps_assemble_variant[OF roomyD(2)[OF assms(3)] pb_ok_control(2)] s1(2)] b(1) by (metis ensures.simps(1))
  have abs2: "abs_of ?s2 = ?t1" using s1(3) by (simp only: abs_out_set)
  from runsE[OF runs_add[OF inv2 abs2 b(2,3), of msg_flag_BYE "msg_byte msg_BYE"]] obtain s3 where s3:
    "on_sending (\<lambda>h q. queueAddMessage alloc h (Some q) b msg_flag_BYE (msg_byte msg_BYE)) ?s2 = Done () s3"
    "state_inv s3" "abs_of s3 = ?t1\<lparr>a_queue := a_queue t @ [bye_of (protocol (a_net t)) i1 i2]\<rparr>" using b(4) by auto
  from runsE[OF runs_locks(2)[OF s3(2,3)]] obtain s4 where
    "unlockSending s3 = Done () s4" "state_inv s4" "abs_of s4 = t\<lparr>a_queue := a_queue t @ [bye_of (protocol (a_net t)) i1 i2]\<rparr>"
    using unlock_again[OF assms(5)] by auto
  then show ?thesis
    using s1(1) b(1) s3(1) unfolding runs_def sendBye_def
    by (auto simp: bind_prog_run asks_run simp del: out_set.simps out_get.simps)
qed

lemma runs_sendBye:
  assumes "state_inv s" "abs_of s = t" "roomy alloc" "protocol (a_net t) = prot_UDP" "\<not> a_locked t"
  shows "\<exists>i1 i2. runs (sendBye alloc) s () (t\<lparr>a_queue := a_queue t @ [bye_item i1 i2]\<rparr>)"
  using runs_sendBye_any[OF assms(1-3) disjI1[OF assms(4)] assms(5)] assms(4) by (simp add: bye_of_def)

lemma bye_turn:
  assumes "state_inv s" "roomy alloc" "is_UDP s \<or> is_TCP s" "\<not> q_locked (sending s)" "eofDetected v"
  shows "\<exists>s' i1 i2. commandTurn alloc v s = Done v s' \<and> state_inv s' \<and>
    abs_of s' = (abs_of s)\<lparr>a_fsm := fsm_EMPTY_Q_BYE,
      a_queue := queue_items (memory s) (sending s) @ [bye_of (protocol (netConfig s)) i1 i2],
      a_events := events s @ [Signal senderEmptyQueueCond]\<rparr>"
proof -
  let ?t = "(abs_of s)\<lparr>a_fsm := fsm_EMPTY_Q_BYE\<rparr>"
  note abs = absD[of s, OF refl]
  obtain s1 where s1: "setProgramState fsm_EMPTY_Q_BYE s = Done () s1" "state_inv s1" "abs_of s1 = ?t"
    using runsE[OF runs_setProgramState[OF assms(1) refl]] by metis
  have "protocol (a_net ?t) = prot_UDP \<or> protocol (a_net ?t) = prot_TCP" "\<not> a_locked ?t" using assms(3,4) abs by simp_all
  from runs_sendBye_any[OF s1(2,3) assms(2) this] obtain i1 i2 s2 where s2: "sendBye alloc s1 = Done () s2" "state_inv s2"
    "abs_of s2 = ?t\<lparr>a_queue := a_queue ?t @ [bye_of (protocol (netConfig s)) i1 i2]\<rparr>"
    using abs(8) by (auto simp: runs_def)
  obtain s3 where s3: "cond_signal senderEmptyQueueCond s2 = Done () s3" "state_inv s3"
    "abs_of s3 = ?t\<lparr>a_queue := a_queue ?t @ [bye_of (protocol (netConfig s)) i1 i2],
      a_events := a_events ?t @ [Signal senderEmptyQueueCond]\<rparr>"
    using runsE[OF runs_cond_signal[OF s2(2,3)]] by auto
  have "commandTurn alloc v s = Done v s3"
    using assms(5) s1(1) s2(1) s3(1) by (simp add: commandTurn_def bind_prog_run ret_run)
  then show ?thesis using s3(2,3) abs by auto
qed

text \<open>C20: when the end of the input was detected and nobody holds the mutex of the sending queue, the loop of the main
  thread is left after one more turn, over UDP as over TCP: the state is the one in which the queue is
  emptied, a BYE of the protocol (a datagram or a line) is queued behind everything that is still to be sent,
  and the sender is woken up.\<close>

theorem end_of_input_says_bye:
  assumes "state_inv s" "roomy alloc" "is_UDP s \<or> is_TCP s" "\<not> q_locked (sending s)" "fsm s < fsm_EMPTY_Q_BYE"
    and "eofDetected v"
  shows "\<exists>s' i1 i2. userCommandHandling (Suc n) alloc v s = Done True s' \<and> state_inv s' \<and>
    abs_of s' = (abs_of s)\<lparr>a_fsm := fsm_EMPTY_Q_BYE,
      a_queue := queue_items (memory s) (sending s) @ [bye_of (protocol (netConfig s)) i1 i2],
      a_events := events s @ [Signal senderEmptyQueueCond]\<rparr>"
proof -
  obtain s' i1 i2 where s': "commandTurn alloc v s = Done v s'" "state_inv s'"
    "abs_of s' = (abs_of s)\<lparr>a_fsm := fsm_EMPTY_Q_BYE,
      a_queue := queue_items (memory s) (sending s) @ [bye_of (protocol (netConfig s)) i1 i2],
      a_events := events s @ [Signal senderEmptyQueueCond]\<rparr>"
    using bye_turn[OF assms(1-4,6)] by blast
  have "fsm s' = fsm_EMPTY_Q_BYE" using absD(1)[OF s'(3)] by simp
  then have "userCommandHandling (Suc n) alloc v s = Done True s'"
    using assms(5) s'(1) by (simp add: bind_prog_run userCommandHandling_closing)
  then show ?thesis using s'(2,3) by blast
qed

theorem end_of_input_says_bye_witness:
  "\<exists>s' i1 i2. userCommandHandling (Suc 0) grants_small (sample_input\<lparr>eofDetected := True\<rparr>) waiting_state = Done True s' \<and>
    state_inv s' \<and>
    abs_of s' = (abs_of waiting_state)\<lparr>a_fsm := fsm_EMPTY_Q_BYE,
      a_queue := queue_items (memory waiting_state) (sending waiting_state) @ [bye_of (protocol (netConfig waiting_state)) i1 i2],
      a_events := events waiting_state @ [Signal senderEmptyQueueCond]\<rparr>"
proof (rule end_of_input_says_bye[OF waiting_state_inv roomy_grants_small])
  show "is_UDP waiting_state \<or> is_TCP waiting_state" "fsm waiting_state < fsm_EMPTY_Q_BYE" "\<not> q_locked (sending waiting_state)"
    using open_state_simps
    by (simp_all add: waiting_state_def sample_queue_def less_fsm_t_def)
qed simp

section \<open>A reachable state with a message\<close>

text \<open>The properties of reachable states at a state with a message on the heap: the input ended right after the start.\<close>

lemma queueInit_items: "queue_items h queueInit = []"
  using queue_items_represents[of h queueInit "[]"] by (simp add: represents_def queueInit_def items_at_def)

lemma reachable_message:
  "\<exists>s i1 i2. reachable grants_small s \<and> fsm s = fsm_EMPTY_Q_BYE \<and> queue_items (memory s) (sending s) = [bye_item i1 i2]"
proof -
  let ?v = "sample_input\<lparr>eofDetected := True\<rparr>"
  obtain s where s: "reachable grants_small s" "is_UDP s" "sending s = queueInit" using reachable_start by blast
  have inv: "state_inv s" by (rule reachable_state_inv[OF s(1) sane_grants_small])
  have free: "\<not> q_locked (sending s)" using s(3) by (simp add: queueInit_def)
  obtain s' i1 i2 where s': "commandTurn grants_small ?v s = Done ?v s'"
    "abs_of s' = (abs_of s)\<lparr>a_fsm := fsm_EMPTY_Q_BYE,
      a_queue := queue_items (memory s) (sending s) @ [bye_of (protocol (netConfig s)) i1 i2],
      a_events := events s @ [Signal senderEmptyQueueCond]\<rparr>"
    using bye_turn[OF inv roomy_grants_small disjI1[OF s(2)] free, of ?v] by auto
  have "act grants_small (left_state (commandTurn grants_small ?v))"
    by (rule act.main_turn) (simp add: sample_input_def)
  from reachable.step[OF s(1) this] have "reachable grants_small s'" using s'(1) by (simp add: left_state_def)
  then show ?thesis using absD[OF s'(2)] s(2,3) by (auto simp: bye_of_def queueInit_items)
qed

theorem reachable_invariant_witness:
  "\<exists>s i1 i2. sane grants_small \<and> reachable grants_small s \<and> queue_items (memory s) (sending s) = [bye_item i1 i2] \<and>
    queue_wf (memory s) (sending s) \<and> queue_wf (memory s) (confirmedMsgs s) \<and>
    set (queue_addrs (memory s) (sending s)) \<inter> set (queue_addrs (memory s) (confirmedMsgs s)) = {} \<and>
    dom (cells (memory s)) \<subseteq>
      set (queue_addrs (memory s) (sending s)) \<union> set (queue_addrs (memory s) (confirmedMsgs s)) \<and>
    list_all buffer_wf (buffers s)"
  using reachable_message reachable_invariant[OF sane_grants_small] sane_grants_small by blast

theorem shutdown_leaves_no_message_witness:
  "\<exists>s i1 i2. sane grants_small \<and> reachable grants_small s \<and> queue_items (memory s) (sending s) = [bye_item i1 i2] \<and>
    (\<exists>h freed. programInterfaceDestroy s = Ok (h, freed) \<and> cells h = (\<lambda>_. None))"
  using reachable_message shutdown_leaves_no_message[OF sane_grants_small] sane_grants_small by blast

end
