(* ===== verification/Chat_Sending.thy ===== *)
theory Chat_Sending
  imports Chat_Commands
begin

text \<open>
  What a turn of the sending thread does over UDP once the connection is open: the finished messages
  are removed, the first of the others is labelled with the counter and sent to the address the server
  has, and stays in the queue until it is confirmed, unless it is a confirmation itself.
\<close>

section \<open>Labelling\<close>

definition labelled :: "16 word \<Rightarrow> qitem \<Rightarrow> qitem" where
  "labelled n it =
     (if qi_flags it = msg_flag_CONFIRM \<or> qi_flags it = msg_flag_NOK_REPLY then it
      else it\<lparr>qi_bytes := map_option (\<lambda>bs. bs[2 := Some (fst (breakU16IntToBytes n)),
        1 := Some (snd (breakU16IntToBytes n))]) (qi_bytes it)\<rparr>)"

lemma labelled_simps [simp]:
  "qi_flags (labelled n it) = qi_flags it" "qi_type (labelled n it) = qi_type it"
  "qi_high (labelled n it) = qi_high it" "qi_low (labelled n it) = qi_low it"
  by (simp_all add: labelled_def)

lemma setMessageID_eval:
  assumes "cells h a = Some m" "message_wf m" "q_first q = Some a"
    and "qi_bytes (view m) = Some bs" "3 \<le> length bs"
    and "msgFlags m \<noteq> msg_flag_CONFIRM" "msgFlags m \<noteq> msg_flag_NOK_REPLY"
  shows "\<exists>b. buffer_wf b \<and> contents b = bs[2 := Some (fst (breakU16IntToBytes n)), 1 := Some (snd (breakU16IntToBytes n))] \<and>
    queueSetMessageID h (Some q) n = heap_upd h (Some a) (\<lambda>m. m\<lparr>m_buffer := Some b\<rparr>)"
proof -
  obtain b where b: "m_buffer m = Some b" "bs = contents b" using assms(4) by (auto simp: view_def)
  then have "buffer_wf b" using assms(2) by (simp add: message_wf_def)
  then obtain d where d: "data b = Some d" "length d = allocated b" "used b \<le> length d"
    "length d < 2 ^ 64" "3 \<le> used b"
    using assms(5) b(2) by (auto simp: buffer_wf_def contents_def split: option.splits)
  obtain high low where hl: "breakU16IntToBytes n = (high, low)" by (cases "breakU16IntToBytes n")
  let ?b = "b\<lparr>data := Some (d[2 := Some high, 1 := Some low])\<rparr>"
  have "buffer_wf ?b" using \<open>buffer_wf b\<close> d by (simp add: buffer_wf_def)
  moreover have "contents ?b = bs[2 := Some high, 1 := Some low]"
    using d b(2) by (simp add: contents_def take_update_swap)
  moreover have "queueSetMessageID h (Some q) n = heap_upd h (Some a) (\<lambda>m. m\<lparr>m_buffer := Some ?b\<rparr>)"
    using assms(1,3,6,7) b(1) d hl
    by (simp add: queueSetMessageID_def deref_def msg_buffer_def buf_write_def msgid_positions)
  ultimately show ?thesis using hl by auto
qed

lemma runs_setMessageID:
  assumes "state_inv s" "abs_of s = t" "a_queue t = it # its" "qi_bytes it = Some bs" "3 \<le> length bs"
  shows "runs (on_memory (\<lambda>h q. queueSetMessageID h (Some q) n)) s () (t\<lparr>a_queue := labelled n it # its\<rparr>)"
proof -
  obtain a m as where m: "cells (memory s) a = Some m" "view m = it" "q_first (sending s) = Some a"
    "message_wf m" "q_len (sending s) = Suc (length (as :: addr list))"
    by (rule first_message[OF assms(1-3)]) blast
  have flags: "msgFlags m = qi_flags it" using m(2) by (auto simp: view_def)
  show ?thesis
  proof (cases "qi_flags it = msg_flag_CONFIRM \<or> qi_flags it = msg_flag_NOK_REPLY")
    case True
    then have "queueSetMessageID (memory s) (Some (sending s)) n = Ok (memory s)"
      using m flags by (auto simp: queueSetMessageID_def deref_def)
    moreover have "t\<lparr>a_queue := it # its\<rparr> = t" using assms(3) by (intro abs_state.equality) simp_all
    ultimately show ?thesis
      using True assms(1,2) by (simp add: runs_def on_memory_def bind_prog_run lift_res_run modify_run labelled_def)
  next
    case False
    then obtain b where b: "buffer_wf b"
      "contents b = bs[2 := Some (fst (breakU16IntToBytes n)), 1 := Some (snd (breakU16IntToBytes n))]"
      "queueSetMessageID (memory s) (Some (sending s)) n
        = heap_upd (memory s) (Some a) (\<lambda>m. m\<lparr>m_buffer := Some b\<rparr>)"
      using setMessageID_eval[OF m(1,4,3), of bs n] assms(4,5) m(2) flags by auto
    show ?thesis
    proof (rule runs_cong)
      show "on_memory (\<lambda>h q. queueSetMessageID h (Some q) n) s
          = on_memory (\<lambda>h q. heap_upd h (Some a) (\<lambda>m. m\<lparr>m_buffer := Some b\<rparr>)) s"
        using b(3) by (simp add: on_memory_def)
      show "runs (on_memory (\<lambda>h q. heap_upd h (Some a) (\<lambda>m. m\<lparr>m_buffer := Some b\<rparr>))) s ()
          (t\<lparr>a_queue := labelled n it # its\<rparr>)"
        by (rule runs_upd_first[OF assms(1-3) m(3)])
          (use b(1,2) False assms(4) in \<open>auto simp: view_def message_wf_def labelled_def\<close>)
    qed
  qed
qed

section \<open>Sending the first message\<close>

lemma runs_sendFirst:
  assumes "state_inv s" "abs_of s = t" "a_queue t = it # its" "q_first (sending s) = Some a"
    and "qi_bytes it = Some bs" "sendto (server_address (a_net t)) bs"
  shows "runs (sendFirst sendto (Some a)) s (qi_flags it)
    (t\<lparr>a_events := a_events t @ [Sent (server_address (a_net t)) bs]\<rparr>)"
proof -
  obtain a' m as where m: "cells (memory s) a' = Some m" "view m = it" "q_first (sending s) = Some a'"
    "q_len (sending s) = Suc (length (as :: addr list))"
    by (rule first_message[OF assms(1-3)]) blast
  obtain b where b: "m_buffer m = Some b" "contents b = bs" using assms(5) m(2) by (auto simp: view_def)
  have net: "netConfig s = a_net t" using absD(8)[OF assms(2)] .
  have flags: "qi_flags it = msgFlags m" using m(2) by (auto simp: view_def)
  have "sendFirst sendto (Some a) s
      = bind_prog (modify (emit [Sent (server_address (a_net t)) bs])) (\<lambda>_. ret (qi_flags it)) s"
    using m(1,3,4) b assms(4,6) net flags
    by (auto simp: sendFirst_def bind_prog_def read_sending_def lift_res_def deref_def msg_buffer_def asks_def
        queueGetMessageFlags_def)
  then show ?thesis
    by (rule runs_cong) (intro runs_bind[OF runs_emit[OF assms(1,2)]] runs_ret)
qed

lemma runs_messageSended:
  assumes "state_inv s" "abs_of s = t" "a_queue t = it # its"
  shows "runs (on_memory (\<lambda>h q. queueMessageSended h (Some q))) s ()
    (t\<lparr>a_queue := it\<lparr>qi_high := qi_high it + 1\<rparr> # its\<rparr>)"
proof -
  obtain a m as where m: "q_first (sending s) = Some a" "cells (memory s) a = Some (m :: Message)"
    "q_len (sending s) = Suc (length (as :: addr list))"
    by (rule first_message[OF assms]) blast
  show ?thesis
  proof (rule runs_cong)
    show "on_memory (\<lambda>h q. queueMessageSended h (Some q)) s
        = on_memory (\<lambda>h q. heap_upd h (Some a) (\<lambda>m. m\<lparr>u_high := u_high m + 1\<rparr>)) s"
      using m(1) by (simp add: on_memory_def queueMessageSended_def)
    show "runs (on_memory (\<lambda>h q. heap_upd h (Some a) (\<lambda>m. m\<lparr>u_high := u_high m + 1\<rparr>))) s ()
        (t\<lparr>a_queue := it\<lparr>qi_high := qi_high it + 1\<rparr> # its\<rparr>)"
      by (rule runs_upd_first[OF assms m(1)]) (auto simp: view_def message_wf_def)
  qed
qed

text \<open>Messages that are sent once.\<close>

definition sent_once :: "qitem \<Rightarrow> bool" where
  "sent_once it \<longleftrightarrow> qi_flags it \<in> {msg_flag_DO_NOT_RESEND, msg_flag_CONFIRM, msg_flag_NOK_REPLY}"

definition spec_send :: "abs_state \<Rightarrow> abs_state" where
  "spec_send t =
     (case dropWhile finished (a_queue t) of
        [] \<Rightarrow> t
      | it # its \<Rightarrow>
          let it = labelled (msgCounter (a_details t)) it in
          t\<lparr>a_queue := (if sent_once it then its else it\<lparr>qi_high := qi_high it + 1\<rparr> # its),
            a_events := a_events t @ [Sent (server_address (a_net t)) (the (qi_bytes it))]\<rparr>)"

lemma runs_after_sending:
  assumes "state_inv s" "abs_of s = t" "a_queue t = it # its"
  shows "runs (if qi_flags it \<in> {msg_flag_DO_NOT_RESEND, msg_flag_CONFIRM, msg_flag_NOK_REPLY}
       then on_sending (\<lambda>h q. queuePopMessage h (Some q))
       else on_memory (\<lambda>h q. queueMessageSended h (Some q))) s ()
    (t\<lparr>a_queue := (if sent_once it then its else it\<lparr>qi_high := qi_high it + 1\<rparr> # its)\<rparr>)"
proof (cases "sent_once it")
  case True
  then show ?thesis using runs_pop[OF assms(1,2)] assms(3) by (simp add: sent_once_def)
next
  case False
  then show ?thesis using runs_messageSended[OF assms] by (simp add: sent_once_def)
qed

lemma logicFSM_open:
  assumes "state_inv s" "abs_of s = t" "a_queue t = it # its" "a_fsm t = fsm_OPEN"
    and "uchar2msgType (qi_type it) \<noteq> msg_AUTH" "uchar2msgType (qi_type it) \<noteq> msg_JOIN"
  shows "logicFSM others s = Done others s"
proof -
  obtain a m as where m: "cells (memory s) a = Some m" "view m = it" "q_first (sending s) = Some a"
    "q_len (sending s) = Suc (length (as :: addr list))"
    by (rule first_message[OF assms(1-3)]) blast
  have reads: "queueGetMessage (Some (sending s)) = Ok (Some a)"
    "queueGetMessageMsgType (memory s) (Some (sending s)) = Ok (uchar2msgType (qi_type it))"
    "queueGetMessageFlags (memory s) (Some (sending s)) = Ok (qi_flags it)"
    using m by (auto simp: queueGetMessage_def queueGetMessageMsgType_def queueGetMessageFlags_def deref_def view_def)
  have "logicBody again others s = Done others s" for again
    using reads assms(5,6) absD(1)[OF assms(2)] assms(4)
    by (cases "uchar2msgType (qi_type it)")
      (auto simp: logicBody_def bind_prog_def read_sending_def lift_res_def getProgramState_def asks_def ret_def)
  then show ?thesis by (cases others) simp_all
qed

lemma send_labelled:
  assumes "state_inv s" "abs_of s = t" "a_queue t = it # its" "qi_bytes it = Some bs" "3 \<le> length bs"
    and "q_first (sending s) = Some a" "sendto (server_address (a_net t)) (the (qi_bytes (labelled n it)))"
  shows "\<exists>s1 s2. on_memory (\<lambda>h q. queueSetMessageID h (Some q) n) s = Done () s1 \<and>
    sendFirst sendto (Some a) s1 = Done (qi_flags it) s2 \<and> state_inv s2 \<and>
    abs_of s2 = t\<lparr>a_queue := labelled n it # its,
      a_events := a_events t @ [Sent (server_address (a_net t)) (the (qi_bytes (labelled n it)))]\<rparr>"
proof -
  obtain s1 where s1: "on_memory (\<lambda>h q. queueSetMessageID h (Some q) n) s = Done () s1" "state_inv s1"
    "abs_of s1 = t\<lparr>a_queue := labelled n it # its\<rparr>"
    by (rule runsE[OF runs_setMessageID[OF assms(1-5)]])
  have "sending s1 = sending s"
    using s1(1) by (auto simp: on_memory_def bind_prog_def lift_res_def modify_def split: res.splits)
  moreover obtain bs' where "qi_bytes (labelled n it) = Some bs'"
    using assms(4) by (cases "qi_bytes (labelled n it)") (auto simp: labelled_def split: if_splits)
  ultimately have "runs (sendFirst sendto (Some a)) s1 (qi_flags (labelled n it))
      (t\<lparr>a_queue := labelled n it # its,
        a_events := a_events t @ [Sent (server_address (a_net t)) (the (qi_bytes (labelled n it)))]\<rparr>)"
    using runs_sendFirst[OF s1(2,3), of "labelled n it" its a bs' sendto] assms(6,7) by simp
  then show ?thesis using s1(1) by (auto simp: runs_def)
qed

text \<open>The steps of a turn that sends something.\<close>

lemma senderTurn_steps:
  assumes "is_UDP s" "lockSending s = Done () s1" "filterResentMessages alloc s1 = Done False s2"
    "queueIsEmpty (Some (sending s2)) = Ok False" "unlockSending s2 = Done () s3" "lockSending s3 = Done () s4"
    "logicFSM (f # others) s4 = Done (f # others) s4'" "queueGetMessage (Some (sending s4')) = Ok (Some a)"
    "on_memory (\<lambda>h q. queueSetMessageID h (Some q) (msgCounter (comDetails s4'))) s4' = Done () s5"
    "sendFirst sendto (Some a) s5 = Done flags s6"
    "(if flags \<in> {msg_flag_DO_NOT_RESEND, msg_flag_CONFIRM, msg_flag_NOK_REPLY}
       then on_sending (\<lambda>h q. queuePopMessage h (Some q))
       else on_memory (\<lambda>h q. queueMessageSended h (Some q))) s6 = Done () s7"
    "unlockSending s7 = Done () s8"
  shows "senderTurn alloc sendto (f # others) s = Done others (f s8)"
  using assms
  by (simp add: senderTurn_def senderTurnWith_def modify_def bind_prog_def read_sending_def lift_res_def ret_def del: logicFSM.simps)

lemma sender_filters:
  assumes "state_inv s" "\<not> q_locked (sending s)"
    and "list_all (in_time (abs_of s)) (queue_items (memory s) (sending s))"
    and "dropWhile finished (queue_items (memory s) (sending s)) = it # its"
  obtains s1 s2 s3 s4 where "lockSending s = Done () s1" "filterResentMessages alloc s1 = Done False s2"
    "queueIsEmpty (Some (sending s2)) = Ok False" "unlockSending s2 = Done () s3" "lockSending s3 = Done () s4"
    "state_inv s4" "abs_of s4 = (abs_of s)\<lparr>a_queue := it # its, a_locked := True\<rparr>"
proof -
  note abs = absD[of s, OF refl]
  let ?t = "abs_of s"
  obtain s1 where s1: "lockSending s = Done () s1" "state_inv s1" "abs_of s1 = ?t\<lparr>a_locked := True\<rparr>"
    using runsE[OF runs_locks(1)[OF assms(1) refl]] assms(2) abs by metis
  have time: "list_all (in_time (?t\<lparr>a_locked := True\<rparr>)) (a_queue (?t\<lparr>a_locked := True\<rparr>))"
    using assms(3) abs by (simp add: in_time_def[abs_def])
  have q1: "dropWhile finished (a_queue (?t\<lparr>a_locked := True\<rparr>)) = it # its" using assms(4) abs by simp
  obtain s2 where s2: "filterResentMessages alloc s1 = Done False s2" "state_inv s2"
    "abs_of s2 = ?t\<lparr>a_locked := True, a_queue := it # its\<rparr>"
    using runs_filterLoop[OF s1(2,3) time, of alloc False] q1 by (auto simp: runs_def filterResentMessages_def)
  obtain s3 where s3: "unlockSending s2 = Done () s3" "state_inv s3"
    "abs_of s3 = ?t\<lparr>a_queue := it # its, a_locked := False\<rparr>"
    using runsE[OF runs_locks(2)[OF s2(2,3)]] by auto
  obtain s4 where s4: "lockSending s3 = Done () s4" "state_inv s4"
    "abs_of s4 = ?t\<lparr>a_queue := it # its, a_locked := True\<rparr>"
    using runsE[OF runs_locks(1)[OF s3(2,3)]] by auto
  have q2: "a_queue (?t\<lparr>a_locked := True, a_queue := it # its\<rparr>) = it # its" by simp
  have filled: "queueIsEmpty (Some (sending s2)) = Ok False"
    by (rule first_message[OF s2(2,3) q2]) (simp add: queueIsEmpty_def)
  show thesis by (rule that[OF s1(1) s2(1) filled s3(1) s4])
qed

lemma sender_sends:
  assumes "state_inv s" "is_UDP s" "\<not> q_locked (sending s)"
    and "list_all (in_time (abs_of s)) (queue_items (memory s) (sending s))"
    and "dropWhile finished (queue_items (memory s) (sending s)) = it # its"
    and "qi_bytes it = Some bs" "3 \<le> length bs"
    and "sendto (server_address (netConfig s)) (the (qi_bytes (labelled (msgCounter (comDetails s)) it)))"
    and logic: "\<And>s4. state_inv s4 \<Longrightarrow> abs_of s4 = (abs_of s)\<lparr>a_queue := it # its, a_locked := True\<rparr> \<Longrightarrow>
      runs (logicFSM (f # others)) s4 (f # others)
        ((abs_of s)\<lparr>a_queue := it # its, a_locked := True, a_fsm := y, a_events := e\<rparr>)"
  shows "\<exists>s'. senderTurn alloc sendto (f # others) s = Done others (f s') \<and> state_inv s' \<and>
    abs_of s' = spec_send ((abs_of s)\<lparr>a_fsm := y, a_events := e\<rparr>)"
proof -
  note abs = absD[of s, OF refl]
  let ?t = "(abs_of s)\<lparr>a_fsm := y, a_events := e\<rparr>" and ?n = "msgCounter (comDetails s)"
  let ?it = "labelled ?n it"
  let ?sent = "Sent (server_address (netConfig s)) (the (qi_bytes ?it))"
  obtain s1 s2 s3 s4 where front: "lockSending s = Done () s1" "filterResentMessages alloc s1 = Done False s2"
    "queueIsEmpty (Some (sending s2)) = Ok False" "unlockSending s2 = Done () s3" "lockSending s3 = Done () s4"
    and s4: "state_inv s4" "abs_of s4 = (abs_of s)\<lparr>a_queue := it # its, a_locked := True\<rparr>"
    by (rule sender_filters[OF assms(1,3-5)])
  obtain s5 where s5: "logicFSM (f # others) s4 = Done (f # others) s5" "state_inv s5"
    "abs_of s5 = (abs_of s)\<lparr>a_queue := it # its, a_locked := True, a_fsm := y, a_events := e\<rparr>"
    by (rule runsE[OF logic[OF s4]])
  have q5: "a_queue ((abs_of s)\<lparr>a_queue := it # its, a_locked := True, a_fsm := y, a_events := e\<rparr>) = it # its" by simp
  obtain a where a: "q_first (sending s5) = Some a" "queueGetMessage (Some (sending s5)) = Ok (Some a)"
    by (rule first_message[OF s5(2,3) q5]) (simp add: queueGetMessage_def)
  have n: "msgCounter (comDetails s5) = ?n" using absD(7)[OF s5(3)] abs by simp
  obtain s5' s6 where s6: "on_memory (\<lambda>h q. queueSetMessageID h (Some q) ?n) s5 = Done () s5'"
    "sendFirst sendto (Some a) s5' = Done (qi_flags it) s6" "state_inv s6"
    "abs_of s6 = ?t\<lparr>a_queue := ?it # its, a_locked := True, a_events := e @ [?sent]\<rparr>"
    using send_labelled[OF s5(2,3) q5 assms(6,7) a(1), of sendto ?n] assms(8) abs by auto
  let ?t6 = "?t\<lparr>a_queue := ?it # its, a_locked := True, a_events := e @ [?sent]\<rparr>"
  let ?q7 = "if sent_once ?it then its else ?it\<lparr>qi_high := qi_high ?it + 1\<rparr> # its"
  have q6: "a_queue ?t6 = ?it # its" by simp
  obtain s7 where s7: "(if qi_flags it \<in> {msg_flag_DO_NOT_RESEND, msg_flag_CONFIRM, msg_flag_NOK_REPLY}
       then on_sending (\<lambda>h q. queuePopMessage h (Some q))
       else on_memory (\<lambda>h q. queueMessageSended h (Some q))) s6 = Done () s7" "state_inv s7"
    "abs_of s7 = ?t6\<lparr>a_queue := ?q7\<rparr>"
    using runs_after_sending[OF s6(3,4) q6] unfolding runs_def labelled_simps(1) by blast
  have "?t6\<lparr>a_queue := ?q7, a_locked := False\<rparr> = spec_send ?t"
    using assms(3,5) abs by (intro abs_state.equality) (simp_all add: spec_send_def Let_def)
  then obtain s8 where s8: "unlockSending s7 = Done () s8" "state_inv s8" "abs_of s8 = spec_send ?t"
    using runs_locks(2)[OF s7(2,3)] unfolding runs_def by metis
  have "senderTurn alloc sendto (f # others) s = Done others (f s8)"
    by (rule senderTurn_steps[OF assms(2) front s5(1) a(2) _ s6(2) s7(1) s8(1)])
      (use s6(1) n in simp)
  then show ?thesis using s8(2,3) by blast
qed

lemma open_sends:
  assumes "state_inv s" "is_UDP s" "fsm s = fsm_OPEN" "\<not> q_locked (sending s)"
    and "list_all (in_time (abs_of s)) (queue_items (memory s) (sending s))"
    and "dropWhile finished (queue_items (memory s) (sending s)) = it # its"
    and "uchar2msgType (qi_type it) \<noteq> msg_AUTH" "uchar2msgType (qi_type it) \<noteq> msg_JOIN"
    and "qi_bytes it = Some bs" "3 \<le> length bs"
    and "sendto (server_address (netConfig s)) (the (qi_bytes (labelled (msgCounter (comDetails s)) it)))"
  shows "\<exists>s'. senderTurn alloc sendto (f # others) s = Done others (f s') \<and> state_inv s' \<and>
    abs_of s' = spec_send (abs_of s)"
proof -
  note abs = absD[of s, OF refl]
  have "\<exists>s'. senderTurn alloc sendto (f # others) s = Done others (f s') \<and> state_inv s' \<and>
      abs_of s' = spec_send ((abs_of s)\<lparr>a_fsm := fsm_OPEN, a_events := events s\<rparr>)"
  proof (rule sender_sends[where sendto = sendto, OF assms(1,2,4-6,9-11)])
    fix s4 assume s4: "state_inv s4" "abs_of s4 = (abs_of s)\<lparr>a_queue := it # its, a_locked := True\<rparr>"
    have "logicFSM (f # others) s4 = Done (f # others) s4"
      by (rule logicFSM_open[OF s4 _ _ assms(7,8)]) (use assms(3) abs in simp_all)
    moreover have "abs_of s4 = (abs_of s)\<lparr>a_queue := it # its, a_locked := True, a_fsm := fsm_OPEN, a_events := events s\<rparr>"
      unfolding s4(2) using assms(3) abs by (intro abs_state.equality) simp_all
    ultimately show "runs (logicFSM (f # others)) s4 (f # others)
        ((abs_of s)\<lparr>a_queue := it # its, a_locked := True, a_fsm := fsm_OPEN, a_events := events s\<rparr>)"
      using s4(1) by (simp add: runs_def del: logicFSM.simps)
  qed
  moreover have "(abs_of s)\<lparr>a_fsm := fsm_OPEN, a_events := events s\<rparr> = abs_of s"
    using assms(3) abs by (intro abs_state.equality) simp_all
  ultimately show ?thesis by simp
qed

text \<open>C4: a turn of the sender over UDP while the connection is open, as long as no message was sent too often.
  The finished messages are removed from the front of the queue; the next one, if it is not an AUTH or a
  JOIN, is sent with the counter as its identifier (a confirmation keeps the one it confirms) to the
  present address of the server, its bytes being exactly those in the queue; it stays first with its
  counter of transmissions increased, unless it is one of those that are sent once; then the mutex is
  released and the thread waits.\<close>

theorem message_sent:
  assumes "state_inv s" "is_UDP s" "fsm s = fsm_OPEN" "\<not> q_locked (sending s)"
    and "list_all (in_time (abs_of s)) (queue_items (memory s) (sending s))"
    and "dropWhile finished (queue_items (memory s) (sending s)) = it # its"
    and "uchar2msgType (qi_type it) \<noteq> msg_AUTH" "uchar2msgType (qi_type it) \<noteq> msg_JOIN"
    and "qi_bytes it = Some bs" "3 \<le> length bs"
    and "sendto (server_address (netConfig s)) (the (qi_bytes (labelled (msgCounter (comDetails s)) it)))"
  shows "\<exists>s'. senderTurn alloc sendto (f # others) s = Done others (f s') \<and> state_inv s' \<and>
    abs_of s' = spec_send (abs_of s)"
  by (rule open_sends[where sendto = sendto, OF assms])

theorem message_sent_witness:
  "\<exists>s'. senderTurn grants_small (\<lambda>_ _. True) [\<lambda>s. s] waiting_state = Done [] s' \<and> state_inv s' \<and>
    abs_of s' = spec_send (abs_of waiting_state)"
proof (rule message_sent[where f = "\<lambda>s. s", OF waiting_state_inv])
  have it: "view waiting_message = \<lparr>qi_bytes = Some (map Some [4, 7, 0, 66, 0, 104, 0]), qi_high = 0, qi_low = 0,
      qi_type = 4, qi_flags = msg_flag_NONE\<rparr>"
    by (simp add: view_def waiting_message_def sample_message_def sample_buffer_def contents_def)
  show "is_UDP waiting_state" "fsm waiting_state = fsm_OPEN" "\<not> q_locked (sending waiting_state)"
    using open_state_simps by (simp_all add: waiting_state_def sample_queue_def)
  show "list_all (in_time (abs_of waiting_state)) (queue_items (memory waiting_state) (sending waiting_state))"
    "dropWhile finished (queue_items (memory waiting_state) (sending waiting_state)) = [view waiting_message]"
    by (simp_all add: waiting_items it in_time_def finished_def)
  show "qi_bytes (view waiting_message) = Some (map Some [4, 7, 0, 66, 0, 104, 0])" by (simp add: it)
  have "uchar2msgType (msg_byte msg_MSG) = msg_MSG" by (rule uchar2msgType_msg_byte) simp
  then show "uchar2msgType (qi_type (view waiting_message)) \<noteq> msg_AUTH"
    "uchar2msgType (qi_type (view waiting_message)) \<noteq> msg_JOIN" by (simp_all add: it)
qed simp_all

end
