(* ===== verification/Chat_Replies.thy ===== *)
theory Chat_Replies
  imports Chat_Sending
begin

text \<open>
  The handler of the replies of the server to AUTH and JOIN over UDP, step by step on the abstract state, and the
  receiver's dispatch of REPLY and CONFIRM.
\<close>

section \<open>Steps of the reply handler\<close>

lemma runs_eq: "runs p s a t \<Longrightarrow> t = u \<Longrightarrow> runs p s a u"
  by simp

lemma runs_if:
  "(b \<Longrightarrow> runs p s a t) \<Longrightarrow> (\<not> b \<Longrightarrow> runs q s a u) \<Longrightarrow>
     runs (if b then p else q) s a (if b then t else u)"
  by simp

fun with_first :: "(qitem \<Rightarrow> qitem) \<Rightarrow> qitem list \<Rightarrow> qitem list" where
  "with_first g [] = []"
| "with_first g (it # its) = g it # its"

lemma runs_setFirstFlags:
  assumes "state_inv s" "abs_of s = t"
  shows "runs (setFirstFlags f) s () (t\<lparr>a_queue := with_first (\<lambda>it. it\<lparr>qi_flags := f\<rparr>) (a_queue t)\<rparr>)"
proof (cases "a_queue t")
  case Nil
  then have "q_first (sending s) = None"
    using no_message[OF assms] by (auto simp: queueIsEmpty_def queueGetMessage_def split: if_splits)
      (use assms(1) in \<open>auto simp: state_inv_def queues_wf_alt represents_def\<close>)
  then have "setFirstFlags f s = Done () (s\<lparr>memory := memory s\<rparr>)"
    by (simp add: setFirstFlags_def on_memory_def queueSetMessageFlags_def bind_prog_def lift_res_def modify_def)
  moreover have "t\<lparr>a_queue := with_first (\<lambda>it. it\<lparr>qi_flags := f\<rparr>) (a_queue t)\<rparr> = t"
    using Nil by (intro abs_state.equality) simp_all
  ultimately show ?thesis using assms by (simp add: runs_def)
next
  case (Cons it its)
  obtain a m as where m: "q_first (sending s) = Some a" "cells (memory s) a = Some (m :: Message)"
    "q_len (sending s) = Suc (length (as :: addr list))"
    by (rule first_message[OF assms Cons]) blast
  have "runs (on_memory (\<lambda>h q. heap_upd h (Some a) (\<lambda>m. m\<lparr>msgFlags := f\<rparr>))) s ()
      (t\<lparr>a_queue := it\<lparr>qi_flags := f\<rparr> # its\<rparr>)"
    by (rule runs_upd_first[OF assms Cons m(1)]) (auto simp: view_def message_wf_def)
  moreover have "setFirstFlags f s = on_memory (\<lambda>h q. heap_upd h (Some a) (\<lambda>m. m\<lparr>msgFlags := f\<rparr>)) s"
    using m(1) by (simp add: setFirstFlags_def on_memory_def queueSetMessageFlags_def)
  ultimately show ?thesis using Cons by (simp add: runs_def)
qed

lemma string_cells_ok: "0 \<notin> set c \<Longrightarrow> string_cells (map Some c @ Some 0 # cs) = Ok c"
  by (induction c) auto

lemma c_string_ok:
  assumes "points_to p (c @ 0 # rest)" "0 \<notin> set c"
  shows "c_string p = Ok c"
proof -
  obtain m off where p: "p = Some (m, off)" using assms(1) by (auto simp: points_to_def split: option.splits)
  then have "take (length (c @ 0 # rest)) (drop off m) = map Some (c @ 0 # rest)"
    using assms(1) by (simp add: points_to_def)
  then have "drop off m = map Some c @ Some 0 # (map Some rest @ drop (length (c @ 0 # rest)) (drop off m))"
    using append_take_drop_id[of "length (c @ 0 # rest)" "drop off m"] by simp
  then show ?thesis using string_cells_ok[OF assms(2)] p by (simp add: c_string_def)
qed

lemma runs_print_reply:
  assumes "state_inv s" "abs_of s = t" "\<not> a_stdoutLocked t"
    and "points_to (bb_start (msg_reply_MsgContents pb)) (c @ 0 # rest)" "0 \<notin> set c"
  shows "runs (print_reply w pb) s () (t\<lparr>a_events := a_events t @ [Stderr (bytes_of w @ c @ [10])]\<rparr>)"
  using runs_safePrintStderr[OF assms(1-3), of "bytes_of w @ c @ [10]"] c_string_ok[OF assms(4,5)]
  by (simp add: print_reply_def runs_def bind_prog_def lift_res_def)

text \<open>Waking the sender, and the counter.\<close>

definition counted :: "16 word \<Rightarrow> abs_state \<Rightarrow> abs_state" where
  "counted n t = t\<lparr>a_details := (a_details t)\<lparr>msgCounter := n\<rparr>\<rparr>"

text \<open>The reply accepts: the AUTH is marked, the confirmation goes ahead of everything.\<close>

definition spec_accept :: "byte \<Rightarrow> byte \<Rightarrow> byte list \<Rightarrow> abs_state \<Rightarrow> abs_state" where
  "spec_accept low high c t =
     t\<lparr>a_queue := confirm_item low high msg_flag_CONFIRM #
         (if a_fsm t = fsm_W84_REPLY then with_first (\<lambda>it. it\<lparr>qi_flags := msg_flag_CONFIRMED\<rparr>) (a_queue t)
          else a_queue t),
       a_fsm := fsm_W84_REPLY_CONF,
       a_events := a_events t @ [Signal senderEmptyQueueCond, Signal rec2SenderCond,
         Stderr (bytes_of ''Success: '' @ c @ [10])]\<rparr>"

text \<open>The reply rejects: an AUTH at the front is marked and the program starts again, after a JOIN it is
  open as before.\<close>

definition spec_reject :: "byte \<Rightarrow> byte \<Rightarrow> byte list \<Rightarrow> abs_state \<Rightarrow> abs_state" where
  "spec_reject low high c t =
     (let auth = (qi_flags (hd (a_queue t)) = msg_flag_AUTH);
          q = (if auth then with_first (\<lambda>it. it\<lparr>qi_flags := msg_flag_REJECTED\<rparr>) (a_queue t) else a_queue t) in
      t\<lparr>a_queue := confirm_item low high msg_flag_NOK_REPLY # q,
        a_fsm := (if auth then fsm_START else if a_fsm t = fsm_JOIN_ATEMPT then fsm_OPEN else a_fsm t),
        a_events := a_events t @ [Stderr (bytes_of ''Failure: '' @ c @ [10]), Signal mainCond]\<rparr>)"

lemma runs_mark_first:
  assumes "state_inv s" "abs_of s = t" "\<not> a_locked t"
  shows "runs (when_state (\<lambda>s. fsm s = fsm_W84_REPLY)
      (steps [lockSending, setFirstFlags msg_flag_CONFIRMED, unlockSending])) s ()
    (t\<lparr>a_queue := if a_fsm t = fsm_W84_REPLY then with_first (\<lambda>it. it\<lparr>qi_flags := msg_flag_CONFIRMED\<rparr>) (a_queue t)
       else a_queue t\<rparr>)"
proof (rule runs_when_state[OF assms(1)])
  assume "fsm s = fsm_W84_REPLY"
  then have x: "a_fsm t = fsm_W84_REPLY" using absD(1)[OF assms(2)] by simp
  show "runs (steps [lockSending, setFirstFlags msg_flag_CONFIRMED, unlockSending]) s ()
    (t\<lparr>a_queue := if a_fsm t = fsm_W84_REPLY then with_first (\<lambda>it. it\<lparr>qi_flags := msg_flag_CONFIRMED\<rparr>) (a_queue t)
       else a_queue t\<rparr>)"
    by (rule runs_steps_Cons[OF runs_locks(1)[OF assms]], rule runs_steps_Cons[OF runs_setFirstFlags], assumption+,
        rule runs_steps_Cons[OF runs_locks(2)], assumption+, rule runs_steps_Nil, assumption)
      (use x assms(3) in \<open>auto intro!: abs_state.equality\<close>)
next
  assume "fsm s \<noteq> fsm_W84_REPLY"
  then show "abs_of s = t\<lparr>a_queue := if a_fsm t = fsm_W84_REPLY then
      with_first (\<lambda>it. it\<lparr>qi_flags := msg_flag_CONFIRMED\<rparr>) (a_queue t) else a_queue t\<rparr>"
    using absD(1)[OF assms(2)] assms(2) by (auto intro!: abs_state.equality)
qed

lemma runs_accept:
  assumes "state_inv s" "abs_of s = t" "\<not> a_locked t" "\<not> a_stdoutLocked t" "roomy alloc"
    and "points_to (buf_ptr (a_response t)) (x # low # high # rest)"
    and "points_to (bb_start (msg_reply_MsgContents pb)) (c @ 0 # rest')" "0 \<notin> set c"
  shows "runs (steps
      [when_state (\<lambda>s. fsm s = fsm_W84_REPLY)
         (steps [lockSending, setFirstFlags msg_flag_CONFIRMED, unlockSending]),
       setProgramState fsm_W84_REPLY_CONF,
       lockSending, sendConfirm alloc msg_flag_CONFIRM, unlockSending,
       cond_signal senderEmptyQueueCond, cond_signal rec2SenderCond,
       print_reply ''Success: '' pb]) s () (spec_accept low high c t)"
  by (rule runs_steps_Cons[OF runs_mark_first[OF assms(1-3)]],
      rule runs_steps_Cons[OF runs_setProgramState], assumption+,
      rule runs_steps_Cons[OF runs_locks(1)], assumption+, (use assms(3) in simp),
      rule runs_steps_Cons[OF runs_sendConfirm[where x = x and low = low and high = high and rest = rest]], assumption+,
      rule assms(5), (use assms(6) in simp),
      rule runs_steps_Cons[OF runs_locks(2)], assumption+,
      rule runs_steps_Cons[OF runs_cond_signal], assumption+,
      rule runs_steps_Cons[OF runs_cond_signal], assumption+,
      rule runs_steps_Cons[OF runs_print_reply[OF _ _ _ assms(7,8)]], assumption+, (use assms(4) in simp),
      rule runs_steps_Nil, assumption)
    (use assms(3) in \<open>auto intro!: abs_state.equality simp: spec_accept_def\<close>)

lemma runs_flags:
  assumes "state_inv s" "abs_of s = t" "a_queue t \<noteq> []"
  shows "runs (read_sending (\<lambda>h q. queueGetMessageFlags h (Some q))) s (qi_flags (hd (a_queue t))) t"
proof -
  obtain it its where q: "a_queue t = it # its" using assms(3) by (cases "a_queue t") auto
  obtain a m where m: "q_first (sending s) = Some a" "cells (memory s) a = Some m" "view m = it"
    by (rule first_message[OF assms(1,2) q]) blast
  then have "queueGetMessageFlags (memory s) (Some (sending s)) = Ok (qi_flags it)"
    by (auto simp: queueGetMessageFlags_def deref_def view_def)
  then show ?thesis using assms(1,2) q by (simp add: runs_def read_sending_def lift_res_def)
qed

lemma runs_reopen:
  assumes "state_inv s" "abs_of s = t"
  shows "runs (when_state (\<lambda>s. fsm s = fsm_JOIN_ATEMPT) (setProgramState fsm_OPEN)) s ()
    (t\<lparr>a_fsm := if a_fsm t = fsm_JOIN_ATEMPT then fsm_OPEN else a_fsm t\<rparr>)"
  by (rule runs_when_state[OF assms(1)])
    (use absD(1)[OF assms(2)] runs_setProgramState[OF assms, of fsm_OPEN] assms(2)
      in \<open>auto intro!: abs_state.equality\<close>)

lemma runs_restart:
  assumes "state_inv s" "abs_of s = t"
  shows "runs (if auth then steps [setFirstFlags msg_flag_REJECTED, setProgramState fsm_START] else ret ()) s ()
    (t\<lparr>a_queue := if auth then with_first (\<lambda>it. it\<lparr>qi_flags := msg_flag_REJECTED\<rparr>) (a_queue t) else a_queue t,
       a_fsm := if auth then fsm_START else a_fsm t\<rparr>)"
proof (cases auth)
  case True
  have "runs (steps [setFirstFlags msg_flag_REJECTED, setProgramState fsm_START]) s ()
      (t\<lparr>a_queue := with_first (\<lambda>it. it\<lparr>qi_flags := msg_flag_REJECTED\<rparr>) (a_queue t), a_fsm := fsm_START\<rparr>)"
    by (rule runs_steps_Cons[OF runs_setFirstFlags[OF assms]], rule runs_steps_Cons[OF runs_setProgramState],
        assumption+, rule runs_steps_Nil, assumption+)
  then show ?thesis using True by simp
next
  case False
  then show ?thesis using runs_ret[OF assms] by simp
qed

lemma runs_reject:
  assumes "state_inv s" "abs_of s = t" "\<not> a_locked t" "\<not> a_stdoutLocked t" "roomy alloc" "a_queue t \<noteq> []"
    and "points_to (buf_ptr (a_response t)) (x # low # high # rest)"
    and "points_to (bb_start (msg_reply_MsgContents pb)) (c @ 0 # rest')" "0 \<notin> set c"
  shows "runs (bind_prog lockSending (\<lambda>_.
     bind_prog (read_sending (\<lambda>h q. queueGetMessageFlags h (Some q))) (\<lambda>flags.
     steps
      [if flags = msg_flag_AUTH
       then steps [setFirstFlags msg_flag_REJECTED, setProgramState fsm_START]
       else ret (),
       when_state (\<lambda>s. fsm s = fsm_JOIN_ATEMPT) (setProgramState fsm_OPEN),
       sendConfirm alloc msg_flag_NOK_REPLY, unlockSending,
       print_reply ''Failure: '' pb, cond_signal mainCond]))) s () (spec_reject low high c t)"
  by (rule runs_bind[OF runs_locks(1)[OF assms(1-3)]],
      rule runs_bind[OF runs_flags], assumption+, (use assms(6) in simp),
      rule runs_steps_Cons[OF runs_restart], assumption+,
      rule runs_steps_Cons[OF runs_reopen], assumption+,
      rule runs_steps_Cons[OF runs_sendConfirm[where x = x and low = low and high = high and rest = rest]], assumption+,
      rule assms(5), (use assms(7) in simp),
      rule runs_steps_Cons[OF runs_locks(2)], assumption+,
      rule runs_steps_Cons[OF runs_print_reply[OF _ _ _ assms(8,9)]], assumption+, (use assms(4) in simp),
      rule runs_steps_Cons[OF runs_cond_signal], assumption+,
      rule runs_steps_Nil, assumption)
    (use assms(3) in \<open>auto intro!: abs_state.equality simp: spec_reject_def Let_def\<close>)

section \<open>The reply\<close>

text \<open>A reply is awaited after the confirmation of an AUTH and after a JOIN.\<close>

definition awaiting :: "abs_state \<Rightarrow> bool" where
  "awaiting t \<longleftrightarrow> a_fsm t = fsm_W84_REPLY \<or> a_fsm t = fsm_JOIN_ATEMPT"

definition spec_reply :: "byte \<Rightarrow> byte \<Rightarrow> byte \<Rightarrow> byte list \<Rightarrow> 16 word \<Rightarrow> abs_state \<Rightarrow> abs_state" where
  "spec_reply result low high c msgID t =
     (if awaiting t
      then counted (msgID + 1) (if result = 1 then spec_accept low high c t else spec_reject low high c t)
      else t)"

lemma runs_handleReplyUDP:
  assumes "state_inv s" "abs_of s = t" "\<not> a_locked t" "\<not> a_stdoutLocked t" "roomy alloc"
    and "result \<noteq> 1 \<Longrightarrow> awaiting t \<Longrightarrow> a_queue t \<noteq> []"
    and "points_to (buf_ptr (a_response t)) (x # low # high # rest)" "block_of (msg_reply_result pb) [result]"
    and "points_to (bb_start (msg_reply_MsgContents pb)) (c @ 0 # rest')" "0 \<notin> set c"
  shows "runs (handleReplyUDP alloc msgID pb) s () (spec_reply result low high c msgID t)"
proof (cases "awaiting t")
  case False
  then show ?thesis
    using absD(1)[OF assms(2)] assms(1,2)
    by (simp add: handleReplyUDP_def runs_def when_state_def spec_reply_def awaiting_def)
next
  case True
  have result: "ptr_read (bb_start (msg_reply_result pb)) 0 = Ok result"
    using points_to_read[of "bb_start (msg_reply_result pb)" "[result]" 0] assms(8) by (simp add: block_of_def)
  have read: "runs (lift_res (ptr_read (bb_start (msg_reply_result pb)) 0)) s result t"
    using assms(1,2) by (simp add: result runs_def lift_res_def)
  show ?thesis
    unfolding handleReplyUDP_def spec_reply_def counted_def if_P[OF True]
    by (rule runs_when_state[OF assms(1)], rule runs_bind[OF read], rule runs_bind[OF runs_if runs_set_msgCounter],
        rule runs_accept[OF _ _ assms(3-5,7,9,10)], assumption+,
        rule runs_reject[OF _ _ assms(3-5) _ assms(7,9,10)], assumption+, rule assms(6), assumption+, rule True, assumption+)
      (use True absD(1)[OF assms(2)] in \<open>simp add: awaiting_def\<close>)
qed

section \<open>Received datagrams\<close>

definition seen_now :: "byte \<Rightarrow> byte \<Rightarrow> msg_t \<Rightarrow> abs_state \<Rightarrow> abs_state" where
  "seen_now high low ty t =
     (if already_seen high low (msg_byte ty) t then t
      else t\<lparr>a_seen := seen_item high low (msg_byte ty) # a_seen t\<rparr>)"

lemma seen_now_simps [simp]:
  "a_fsm (seen_now high low ty t) = a_fsm t" "a_queue (seen_now high low ty t) = a_queue t"
  "a_locked (seen_now high low ty t) = a_locked t" "a_seenLocked (seen_now high low ty t) = a_seenLocked t"
  "a_stdoutLocked (seen_now high low ty t) = a_stdoutLocked t" "a_details (seen_now high low ty t) = a_details t"
  "a_net (seen_now high low ty t) = a_net t" "a_response (seen_now high low ty t) = a_response t"
  "a_events (seen_now high low ty t) = a_events t"
  by (simp_all add: seen_now_def)

text \<open>The receiver first looks the identifier up and records it.\<close>

lemma receiverFSM_filter:
  assumes "state_inv s" "abs_of s = t" "protocol (a_net t) = prot_UDP" "\<not> a_locked t" "\<not> a_seenLocked t" "roomy alloc"
    and "received (a_response t) (x # low # high # rest)" "pb_type pb = msg_byte ty"
  obtains s1 where "filterRepeated alloc pb s = Done (already_seen high low (msg_byte ty) t) s1" "state_inv s1"
    "abs_of s1 = seen_now high low ty t" "is_UDP s"
proof -
  have three: "points_to (buf_ptr (a_response t)) [x, low, high]" "3 \<le> used (a_response t)"
    using points_to_prefix[of _ "[x, low, high]" rest] assms(7) by (simp_all add: received_def)
  have "alloc sizeof_Message" using assms(6) by (simp add: roomy_def sizeof_Message_def)
  from runs_filterRepeated[where alloc = alloc, OF assms(1,2,4,5) this three, of pb] obtain s1 where
    "filterRepeated alloc pb s = Done (already_seen high low (msg_byte ty) t) s1" "state_inv s1"
    "abs_of s1 = seen_now high low ty t"
    unfolding assms(8) seen_now_def runs_def by blast
  then show thesis by (rule that) (use absD(8)[OF assms(2)] assms(3) in simp)
qed

text \<open>What becomes of a REPLY; a repeated one is only confirmed again.\<close>

definition spec_reply_datagram :: "byte \<Rightarrow> byte \<Rightarrow> byte \<Rightarrow> byte list \<Rightarrow> abs_state \<Rightarrow> abs_state" where
  "spec_reply_datagram low high result c t =
     (if already_seen high low (msg_byte msg_REPLY) t
      then t\<lparr>a_queue := confirm_item low high msg_flag_CONFIRM # a_queue t\<rparr>
      else spec_reply result low high c (convert2BytesToU16Int low high) (seen_now high low msg_REPLY t))"

lemma runs_receiverFSM_reply:
  assumes "state_inv s" "abs_of s = t" "protocol (a_net t) = prot_UDP" "\<not> a_locked t" "\<not> a_seenLocked t" "roomy alloc"
    and "\<not> a_stdoutLocked t"
    and "result \<noteq> 1 \<Longrightarrow> awaiting t \<Longrightarrow> \<not> already_seen high low (msg_byte msg_REPLY) t \<Longrightarrow> a_queue t \<noteq> []"
    and "received (a_response t) (x # low # high # rest)" "pb_type pb = msg_byte msg_REPLY"
    and "block_of (msg_reply_result pb) [result]"
    and "points_to (bb_start (msg_reply_MsgContents pb)) (c @ 0 # rest')" "0 \<notin> set c"
  shows "runs (receiverFSM alloc (convert2BytesToU16Int low high) pb) s () (spec_reply_datagram low high result c t)"
proof -
  let ?r = "already_seen high low (msg_byte msg_REPLY) t"
  obtain s1 where s1: "filterRepeated alloc pb s = Done ?r s1" "state_inv s1"
    "abs_of s1 = seen_now high low msg_REPLY t" "is_UDP s"
    by (rule receiverFSM_filter[OF assms(1-6,9,10)])
  have ty: "uchar2msgType (pb_type pb) = msg_REPLY" using uchar2msgType_msg_byte[of msg_REPLY] assms(10) by simp
  have resp: "points_to (buf_ptr (a_response t)) (x # low # high # rest)" using assms(9) by (simp add: received_def)
  have fsm: "receiverFSM alloc (convert2BytesToU16Int low high) pb s
      = (if ?r then confirmLocked alloc else handleReplyUDP alloc (convert2BytesToU16Int low high) pb) s1"
    using s1(1,4) ty by (simp add: receiverFSM_def bind_prog_def)
  show ?thesis
  proof (cases ?r)
    case True
    then have "abs_of s1 = t" using s1(3) by (simp add: seen_now_def)
    from runs_confirmLocked[OF s1(2) this assms(4,6) resp] show ?thesis
      using fsm True by (simp add: runs_def spec_reply_datagram_def)
  next
    case False
    have "runs (handleReplyUDP alloc (convert2BytesToU16Int low high) pb) s1 ()
        (spec_reply result low high c (convert2BytesToU16Int low high) (seen_now high low msg_REPLY t))"
      by (rule runs_handleReplyUDP[OF s1(2,3) _ _ assms(6) _ _ assms(11-13)]) (use assms(4,7,8) False resp in \<open>simp_all add: awaiting_def\<close>)
    then show ?thesis using fsm False by (simp add: runs_def spec_reply_datagram_def)
  qed
qed

lemma runs_receiverFSM_confirm:
  assumes "state_inv s" "abs_of s = t" "protocol (a_net t) = prot_UDP" "\<not> a_locked t" "\<not> a_seenLocked t" "roomy alloc"
    and "\<And>it its. a_queue t = it # its \<Longrightarrow> item_id it \<noteq> None"
    and "received (a_response t) (x # low # high # rest)" "pb_type pb = msg_byte msg_CONF"
  shows "runs (receiverFSM alloc msgID pb) s () (spec_confirm msgID (seen_now high low msg_CONF t))"
proof -
  obtain s1 where s1: "filterRepeated alloc pb s = Done (already_seen high low (msg_byte msg_CONF) t) s1" "state_inv s1"
    "abs_of s1 = seen_now high low msg_CONF t" "is_UDP s"
    by (rule receiverFSM_filter[OF assms(1-6,8,9)])
  have ty: "uchar2msgType (pb_type pb) = msg_CONF" using uchar2msgType_msg_byte[of msg_CONF] assms(9) by simp
  have "runs (handleConfirmUDP msgID) s1 () (spec_confirm msgID (seen_now high low msg_CONF t))"
    by (rule runs_handleConfirmUDP[OF s1(2,3)]) (use assms(4,7) in simp_all)
  then show ?thesis using s1(1,4) ty by (simp add: runs_def receiverFSM_def bind_prog_def)
qed

lemma decodeUDP_short:
  assumes "received b [msg_byte ty, low, high]" "ty = msg_CONF \<or> ty = msg_BYE"
  shows "\<exists>pb'. disassebleProtocolUDP b pb = Ok (pb', convert2BytesToU16Int low high) \<and> pb_type pb' = msg_byte ty"
proof -
  note read = points_to_read[of "buf_ptr b" "[msg_byte ty, low, high]"]
  have "ptr_read (buf_ptr b) 0 = Ok (msg_byte ty)" "ptr_read (buf_ptr b) 1 = Ok low" "ptr_read (buf_ptr b) 2 = Ok high"
    using read[of 0] read[of 1] read[of 2] assms(1) by (simp_all add: received_def)
  moreover have "uchar2msgType (msg_byte ty) = ty" by (rule uchar2msgType_msg_byte) (use assms(2) in auto)
  ultimately show ?thesis using assms(2) by (auto simp: disassebleProtocolUDP_def Let_def)
qed

end
