(* ===== verification/Chat_Authentication.thy ===== *)
theory Chat_Authentication
  imports Chat_Replies
begin

text \<open>
  Received CONFIRM and REPLY datagrams; authentication over UDP from the point where the AUTH was sent, across the
  receiving and the sending thread; and the reply to a JOIN that ends the program with a null pointer.
\<close>

section \<open>A client that listens\<close>

text \<open>UDP is configured, no mutex is taken and there is room for an address as long as that of the source.\<close>

definition listening :: "byte list \<Rightarrow> abs_state \<Rightarrow> bool" where
  "listening source t \<longleftrightarrow> protocol (a_net t) = prot_UDP \<and> \<not> a_locked t \<and> \<not> a_seenLocked t \<and> \<not> a_stdoutLocked t \<and>
     map_option length (serverAddress (a_net t)) = Some (length source) \<and> serverAddressSize (a_net t) = length source"

text \<open>The state in which the datagram is handled: it is in the buffer, the source is the new address of the
  server.\<close>

definition arrived :: "byte list \<Rightarrow> Buffer \<Rightarrow> abs_state \<Rightarrow> abs_state" where
  "arrived source b t = (answering source t)\<lparr>a_response := b\<rparr>"

lemma arrived_simps [simp]:
  "a_fsm (arrived source b t) = a_fsm t" "a_queue (arrived source b t) = a_queue t"
  "a_locked (arrived source b t) = a_locked t" "a_seenLocked (arrived source b t) = a_seenLocked t"
  "a_seen (arrived source b t) = a_seen t"
  "a_stdoutLocked (arrived source b t) = a_stdoutLocked t" "a_details (arrived source b t) = a_details t"
  "a_net (arrived source b t) = (a_net t)\<lparr>serverAddress := Some source\<rparr>" "a_response (arrived source b t) = b"
  "a_events (arrived source b t) = a_events t" "already_seen high low ty (arrived source b t) = already_seen high low ty t"
  by (simp_all add: arrived_def answering_def already_seen_def)

lemma listening_arrived: "listening source t \<Longrightarrow> listening source (arrived source b t)"
  by (simp add: listening_def)

lemma receive_listening:
  assumes "state_inv s" "abs_of s = t" "listening source t" "bs \<noteq> []" "length bs \<le> allocated (a_response t)"
    and "\<And>b pb. received b bs \<Longrightarrow> \<exists>pb'. disassebleProtocolUDP b pb = Ok (pb', mid) \<and> pb_type pb' = msg_byte ty \<and> Q pb'"
    and "a_fsm t \<noteq> fsm_START \<or> ty = msg_REPLY \<or> ty = msg_CONF"
    and handled: "\<And>s1 b pb'. state_inv s1 \<Longrightarrow> abs_of s1 = arrived source b t \<Longrightarrow> received b bs \<Longrightarrow>
      pb_type pb' = msg_byte ty \<Longrightarrow> Q pb' \<Longrightarrow> runs (receiverFSM alloc mid pb') s1 () (u b)"
  shows "\<exists>v' b. received b bs \<and> allocated b = allocated (a_response t) \<and> runs (receiveOne alloc source bs v) s v' (u b)"
proof -
  obtain address where address: "serverAddress (a_net t) = Some address" "length address = length source"
    using assms(3) by (auto simp: listening_def)
  show ?thesis
    by (rule receive_datagram[OF assms(1,2) _ assms(4,5) address, where Q = "\<lambda>b pb'. pb_type pb' = msg_byte ty \<and> Q pb'"
        and mid = mid])
      (use assms(3,6,7) handled[unfolded arrived_def] in \<open>auto simp: listening_def\<close>)
qed

lemma receive_confirm:
  assumes "state_inv s" "abs_of s = t" "listening source t" "roomy alloc" "3 \<le> allocated (a_response t)"
    and "\<And>it its. a_queue t = it # its \<Longrightarrow> item_id it \<noteq> None"
  shows "\<exists>v' b. received b [msg_byte msg_CONF, low, high] \<and> allocated b = allocated (a_response t) \<and>
    runs (receiveOne alloc source [msg_byte msg_CONF, low, high] v) s v'
      (spec_confirm (convert2BytesToU16Int low high) (seen_now high low msg_CONF (arrived source b t)))"
proof (rule receive_listening[OF assms(1-3), where ty = msg_CONF and Q = "\<lambda>_. True"])
  show "\<exists>pb'. disassebleProtocolUDP b pb = Ok (pb', convert2BytesToU16Int low high) \<and> pb_type pb' = msg_byte msg_CONF \<and> True"
    if "received b [msg_byte msg_CONF, low, high]" for b pb
    using decodeUDP_short[OF that] by simp
  show "runs (receiverFSM alloc (convert2BytesToU16Int low high) pb') s1 ()
      (spec_confirm (convert2BytesToU16Int low high) (seen_now high low msg_CONF (arrived source b t)))"
    if "state_inv s1" "abs_of s1 = arrived source b t" "received b [msg_byte msg_CONF, low, high]"
      "pb_type pb' = msg_byte msg_CONF" for s1 b pb'
    by (rule runs_receiverFSM_confirm[OF that(1,2) _ _ _ assms(4)])
      (use assms(3,6) that(3,4) in \<open>auto simp: listening_def\<close>)
qed (use assms(5) in simp_all)

lemma receive_reply:
  assumes "state_inv s" "abs_of s = t" "listening source t" "roomy alloc"
    and "length c + 7 \<le> allocated (a_response t)" "c \<noteq> []" "0 \<notin> set c"
    and "result \<noteq> 1 \<Longrightarrow> awaiting t \<Longrightarrow> \<not> already_seen high low (msg_byte msg_REPLY) t \<Longrightarrow> a_queue t \<noteq> []"
  shows "\<exists>v' b. received b (msg_byte msg_REPLY # low # high # result # rl # rh # c @ [0]) \<and>
    allocated b = allocated (a_response t) \<and>
    runs (receiveOne alloc source (msg_byte msg_REPLY # low # high # result # rl # rh # c @ [0]) v) s v'
      (spec_reply_datagram low high result c (arrived source b t))"
proof (rule receive_listening[OF assms(1-3), where ty = msg_REPLY])
  let ?bs = "msg_byte msg_REPLY # low # high # result # rl # rh # c @ [0]"
  let ?Q = "\<lambda>pb'. block_of (msg_reply_result pb') [result] \<and> points_to (bb_start (msg_reply_MsgContents pb')) (c @ 0 # [])"
  show "\<exists>pb'. disassebleProtocolUDP b pb = Ok (pb', convert2BytesToU16Int low high) \<and> pb_type pb' = msg_byte msg_REPLY \<and> ?Q pb'"
    if "received b ?bs" for b pb
    using decodeUDP_reply_blocks[of b low high result rl rh c "[]" pb] that assms(6,7)
    by (auto simp: received_def)
  show "runs (receiverFSM alloc (convert2BytesToU16Int low high) pb') s1 ()
      (spec_reply_datagram low high result c (arrived source b t))"
    if "state_inv s1" "abs_of s1 = arrived source b t" "received b ?bs" "pb_type pb' = msg_byte msg_REPLY" "?Q pb'" for s1 b pb'
    by (rule runs_receiverFSM_reply[OF that(1,2) _ _ _ assms(4), where rest' = "[]"])
      (use assms(3,7,8) that(3-5) in \<open>auto simp: listening_def awaiting_def\<close>)
qed (use assms(5) in simp_all)

section \<open>The confirmation\<close>

text \<open>C5: a CONFIRM datagram received over UDP, when the first message of the queue, if there is one, has both bytes of its
  identifier, as it has since it was sent. Apart from being recorded, it is ignored when the queue is empty or the
  identifier is not the one of the first message, unless that message is an AUTH, for which every identifier
  is accepted. Otherwise the first message is marked as confirmed, the counter becomes the identifier plus
  one, the program goes on from waiting for the confirmation of AUTH or of BYE, and the sender is woken up
  (and the main thread, if the message was an ordinary one or the BYE).\<close>

theorem confirm_received:
  assumes "state_inv s" "roomy alloc" "listening source (abs_of s)" "3 \<le> allocated (serverResponse (cleanUp s))"
    and "\<And>it its. queue_items (memory s) (sending s) = it # its \<Longrightarrow> item_id it \<noteq> None"
  shows "\<exists>v' s' b. receiveOne alloc source [msg_byte msg_CONF, low, high] v s = Done v' s' \<and> state_inv s' \<and>
    received b [msg_byte msg_CONF, low, high] \<and>
    abs_of s' = spec_confirm (convert2BytesToU16Int low high) (seen_now high low msg_CONF (arrived source b (abs_of s)))"
  using receive_confirm[OF assms(1) refl assms(3,2), of low high v] assms(4,5) absD[of s, OF refl]
  unfolding runs_def by fastforce

text \<open>With one message waiting for its confirmation.\<close>

lemma waiting_listens: "listening sample_source (abs_of waiting_state)"
  using absD[of waiting_state, OF refl] open_state_simps
  by (simp add: listening_def waiting_state_def sample_queue_def sample_source_def sizeof_sockaddr_in_def queueInit_def)

theorem confirm_received_witness:
  "\<exists>v' s' b. receiveOne grants_small sample_source [msg_byte msg_CONF, 7, 0] (sample_msg cmd_NONE, 0) waiting_state = Done v' s' \<and>
    state_inv s' \<and> received b [msg_byte msg_CONF, 7, 0] \<and>
    abs_of s' = spec_confirm (convert2BytesToU16Int 7 0) (seen_now 0 7 msg_CONF (arrived sample_source b (abs_of waiting_state)))"
proof (rule confirm_received[OF waiting_state_inv roomy_grants_small waiting_listens])
  show "3 \<le> allocated (serverResponse (cleanUp waiting_state))"
    using open_state_simps by (simp add: waiting_state_def)
  show "item_id it \<noteq> None" if "queue_items (memory waiting_state) (sending waiting_state) = it # its" for it its
    using that
    by (auto simp: waiting_items waiting_message_def sample_message_def view_def contents_def sample_buffer_def)
qed

section \<open>The reply\<close>

text \<open>A state in which the reply to a JOIN is awaited, with one message queued.\<close>

definition joining_state :: ProgramInterface where
  "joining_state = waiting_state\<lparr>threads := (threads waiting_state)\<lparr>fsmState := fsm_JOIN_ATEMPT\<rparr>\<rparr>"

lemma joining_state_simps [simp]:
  "fsm joining_state = fsm_JOIN_ATEMPT" "sending joining_state = sending waiting_state"
  "memory joining_state = memory waiting_state" "confirmedMsgs joining_state = queueInit"
  "netConfig joining_state = netConfig open_state" "serverResponse (cleanUp joining_state) = serverResponse (cleanUp open_state)"
  "buffers joining_state = buffers waiting_state" "stdoutMutex (threads joining_state) = False"
  using open_state_simps by (simp_all add: joining_state_def waiting_state_def buffers_def)

lemma joining_state_inv: "state_inv joining_state"
  using waiting_state_inv by (simp add: state_inv_def) (simp add: waiting_state_def)

lemma joining_abs:
  "a_fsm (abs_of joining_state) = fsm_JOIN_ATEMPT" "a_queue (abs_of joining_state) = [view waiting_message]"
  "a_seen (abs_of joining_state) = []"
  by (simp_all add: abs_of_def waiting_items queueInit_items)

lemma joining_listens: "listening sample_source (abs_of joining_state)"
  using absD[of joining_state, OF refl] open_state_simps
  by (simp add: listening_def waiting_state_def sample_queue_def sample_source_def sizeof_sockaddr_in_def queueInit_def)

text \<open>C8: a REPLY datagram with contents received over UDP. When it is not recognised as repeated and a reply is awaited, after
  the confirmation of an AUTH or after a JOIN, it is confirmed ahead of everything and printed; the
  identifier it refers to is not looked at. A positive one opens the way to the open state, and the AUTH at the
  front is marked so that it is not sent again; a negative one takes the program back to the start when an AUTH is
  at the front of the queue and to the open state after a JOIN, and wakes up the main thread; it needs a message in
  the queue, since the code reads the flags of the first one. A REPLY that nobody waits for is only recorded, neither
  confirmed nor printed. One that is recognised as repeated (the same two identifier bytes were recorded, both below
  128) is only confirmed again; a repeated one with a greater byte is treated as a new one.\<close>

theorem reply_received:
  assumes "state_inv s" "roomy alloc" "listening source (abs_of s)"
    and "length c + 7 \<le> allocated (serverResponse (cleanUp s))" "c \<noteq> []" "0 \<notin> set c"
    and "result = 1 \<or> \<not> awaiting (abs_of s) \<or> already_seen high low (msg_byte msg_REPLY) (abs_of s) \<or>
      queue_items (memory s) (sending s) \<noteq> []"
  shows "\<exists>v' s' b. receiveOne alloc source (msg_byte msg_REPLY # low # high # result # rl # rh # c @ [0]) v s = Done v' s' \<and>
    state_inv s' \<and> received b (msg_byte msg_REPLY # low # high # result # rl # rh # c @ [0]) \<and>
    abs_of s' = spec_reply_datagram low high result c (arrived source b (abs_of s))"
  using receive_reply[OF assms(1) refl assms(3,2) _ assms(5,6), of result high low rl rh v] assms(4,7) absD[of s, OF refl]
  unfolding runs_def by fastforce

theorem reply_received_witness:
  "\<exists>v' s' b. receiveOne grants_small sample_source (msg_byte msg_REPLY # 1 # 0 # 0 # 7 # 0 # [110, 111] @ [0])
        (sample_msg cmd_NONE, 0) joining_state = Done v' s' \<and>
    state_inv s' \<and> received b (msg_byte msg_REPLY # 1 # 0 # 0 # 7 # 0 # [110, 111] @ [0]) \<and>
    abs_of s' = spec_reply_datagram 1 0 0 [110, 111] (arrived sample_source b (abs_of joining_state)) \<and>
    fsm s' = fsm_OPEN"
proof -
  obtain v' s' b where s': "receiveOne grants_small sample_source (msg_byte msg_REPLY # 1 # 0 # 0 # 7 # 0 # [110, 111] @ [0])
        (sample_msg cmd_NONE, 0) joining_state = Done v' s'" "state_inv s'"
    "received b (msg_byte msg_REPLY # 1 # 0 # 0 # 7 # 0 # [110, 111] @ [0])"
    "abs_of s' = spec_reply_datagram 1 0 0 [110, 111] (arrived sample_source b (abs_of joining_state))"
    using reply_received[OF joining_state_inv roomy_grants_small joining_listens, of "[110, 111]" 0 0 1 7 0 "(sample_msg cmd_NONE, 0)"]
    by (auto simp: waiting_items)
  have "fsm s' = fsm_OPEN"
    using absD(1)[OF s'(4)]
    by (simp add: joining_abs spec_reply_datagram_def already_seen_def spec_reply_def awaiting_def counted_def spec_reject_def
        waiting_message_def view_def Let_def)
  then show ?thesis using s' by blast
qed

lemma reject_without_message:
  assumes "state_inv s" "abs_of s = t" "a_fsm t = fsm_JOIN_ATEMPT" "\<not> a_locked t" "a_queue t = []"
    and "block_of (msg_reply_result pb) [result]" "result \<noteq> 1"
  shows "handleReplyUDP alloc msgID pb s = Crashes Null_Deref"
proof -
  have result: "ptr_read (bb_start (msg_reply_result pb)) 0 = Ok result"
    using points_to_read[of "bb_start (msg_reply_result pb)" "[result]" 0] assms(6) by (simp add: block_of_def)
  obtain s1 where s1: "lockSending s = Done () s1" "state_inv s1" "abs_of s1 = t\<lparr>a_locked := True\<rparr>"
    by (rule runsE[OF runs_locks(1)[OF assms(1,2,4)]])
  have "q_first (sending s1) = None"
    using no_message[OF s1(2,3)] assms(5) s1(2)
    by (auto simp: queueIsEmpty_def queueGetMessage_def state_inv_def queues_wf_alt represents_def split: if_splits)
  then show ?thesis
    using assms(3,7) absD(1)[OF assms(2)] result s1(1)
    by (simp add: handleReplyUDP_def when_state_def bind_prog_def lift_res_def read_sending_def
        queueGetMessageFlags_def deref_def)
qed

text \<open>C18: a new negative REPLY to a JOIN, received over UDP, ends the program with a null pointer, if the JOIN was
  confirmed (and so removed from the queue) before and nothing else is queued: the handler reads the
  flags of the first message without looking whether there is one.\<close>

theorem rejected_join_crashes:
  assumes "state_inv s" "roomy alloc" "listening source (abs_of s)" "fsm s = fsm_JOIN_ATEMPT"
    and "queue_items (memory s) (sending s) = []" "\<not> already_seen high low (msg_byte msg_REPLY) (abs_of s)"
    and "length c + 7 \<le> allocated (serverResponse (cleanUp s))" "c \<noteq> []" "0 \<notin> set c" "result \<noteq> 1"
  shows "receiveOne alloc source (msg_byte msg_REPLY # low # high # result # rl # rh # c @ [0]) v s = Crashes Null_Deref"
proof -
  let ?bs = "msg_byte msg_REPLY # low # high # result # rl # rh # c @ [0]"
  note abs = absD[of s, OF refl]
  obtain address where address: "serverAddress (a_net (abs_of s)) = Some address" "length address = length source"
    "serverAddressSize (a_net (abs_of s)) = length source"
    using assms(3) by (auto simp: listening_def)
  have "length ?bs \<le> allocated (a_response (abs_of s))" using assms(7) abs by simp
  from recvfrom_received[OF assms(1) refl this _ address] obtain s0 s1 b where
    s0: "recvfrom source ?bs s = Done (length ?bs) s0" "set_responseUsed (length ?bs) s0 = Done () s1"
    and s1: "state_inv s1" "abs_of s1 = arrived source b (abs_of s)" "received b ?bs"
    unfolding arrived_def by blast
  obtain pb id0 where v: "v = (pb, id0)" by (cases v)
  obtain pb' where pb': "disassebleProtocolUDP b pb = Ok (pb', convert2BytesToU16Int low high)"
    "pb_type pb' = msg_byte msg_REPLY" "block_of (msg_reply_result pb') [result]"
    using decodeUDP_reply_blocks[of b low high result rl rh c "[]" pb] s1(3) assms(8,9) by (auto simp: received_def)
  obtain s2 where s2: "filterRepeated alloc pb' s1 = Done False s2" "state_inv s2"
    "abs_of s2 = seen_now high low msg_REPLY (arrived source b (abs_of s))" "is_UDP s1"
    by (rule receiverFSM_filter[OF s1(1,2) _ _ _ assms(2) _ pb'(2), of "msg_byte msg_REPLY" low high "result # rl # rh # c @ [0]"])
      (use assms(3,6) s1(3) in \<open>simp_all add: listening_def\<close>)
  have "handleReplyUDP alloc (convert2BytesToU16Int low high) pb' s2 = Crashes Null_Deref"
    by (rule reject_without_message[OF s2(2,3) _ _ _ pb'(3) assms(10)])
      (use assms(3-5) abs in \<open>simp_all add: listening_def\<close>)
  moreover have "uchar2msgType (msg_byte msg_REPLY) = msg_REPLY" by (rule uchar2msgType_msg_byte) simp
  ultimately have "receiverFSM alloc (convert2BytesToU16Int low high) pb' s1 = Crashes Null_Deref"
    using s2(1,4) pb'(2) by (simp add: receiverFSM_def bind_prog_def)
  then show ?thesis
    using s0 s2(4) pb'(1,2) absD[OF s1(2)] unfolding receiveOne_def v
    by (auto simp: bind_prog_def lift_res_def ret_def getProgramState_def asks_def)
qed

text \<open>The state after a JOIN was confirmed.\<close>

definition joined_state :: ProgramInterface where
  "joined_state = open_state\<lparr>threads := (threads open_state)\<lparr>fsmState := fsm_JOIN_ATEMPT\<rparr>\<rparr>"

lemma joined_state_simps:
  "fsm joined_state = fsm_JOIN_ATEMPT" "sending joined_state = queueInit" "confirmedMsgs joined_state = queueInit"
  "netConfig joined_state = netConfig open_state" "serverResponse (cleanUp joined_state) = serverResponse (cleanUp open_state)"
  "buffers joined_state = buffers open_state" "stdoutMutex (threads joined_state) = False"
  "memory joined_state = memory open_state"
  using open_state_simps by (simp_all add: joined_state_def buffers_def)

theorem rejected_join_crashes_witness:
  "receiveOne grants_small sample_source (msg_byte msg_REPLY # 1 # 0 # 0 # 7 # 0 # [110, 111] @ [0])
     (sample_msg cmd_NONE, 0) joined_state = Crashes Null_Deref"
proof (rule rejected_join_crashes)
  show "state_inv joined_state" using open_state_inv by (simp add: state_inv_def joined_state_simps)
  show "listening sample_source (abs_of joined_state)"
    using absD[of joined_state, OF refl] open_state_simps
    by (simp add: joined_state_simps listening_def sample_source_def sizeof_sockaddr_in_def queueInit_def)
  show "\<not> already_seen 0 1 (msg_byte msg_REPLY) (abs_of joined_state)"
    by (simp add: abs_of_def already_seen_def joined_state_simps queueInit_items)
qed (simp_all add: roomy_grants_small joined_state_simps queueInit_items)

section \<open>The authentication\<close>

lemma logicFSM_confirmed:
  assumes "state_inv s" "abs_of s = t" "a_queue t = it # its" "a_fsm t = fsm_W84_REPLY_CONF"
    and "uchar2msgType (qi_type it) = msg_CONF"
  shows "runs (logicFSM others) s others (t\<lparr>a_fsm := fsm_OPEN, a_events := a_events t @ [Signal mainCond]\<rparr>)"
proof -
  obtain a m as where m: "cells (memory s) a = Some m" "view m = it" "q_first (sending s) = Some a"
    "q_len (sending s) = Suc (length (as :: addr list))"
    by (rule first_message[OF assms(1-3)]) blast
  have reads: "queueGetMessage (Some (sending s)) = Ok (Some a)"
    "queueGetMessageMsgType (memory s) (Some (sending s)) = Ok (uchar2msgType (qi_type it))"
    "queueGetMessageFlags (memory s) (Some (sending s)) = Ok (qi_flags it)"
    using m by (auto simp: queueGetMessage_def queueGetMessageMsgType_def queueGetMessageFlags_def deref_def view_def)
  have "runs (steps [setProgramState fsm_OPEN, cond_signal mainCond]) s ()
      (t\<lparr>a_fsm := fsm_OPEN, a_events := a_events t @ [Signal mainCond]\<rparr>)"
    by (rule runs_steps_Cons[OF runs_setProgramState[OF assms(1,2)]], rule runs_steps_Cons[OF runs_cond_signal],
        assumption+, rule runs_steps_Nil, assumption) simp
  then have "runs (logicBody again others) s others (t\<lparr>a_fsm := fsm_OPEN, a_events := a_events t @ [Signal mainCond]\<rparr>)" for again
    using reads assms(4,5) absD(1)[OF assms(2)]
    by (auto simp: logicBody_def bind_prog_def read_sending_def lift_res_def getProgramState_def asks_def ret_def runs_def
        simp del: steps.simps)
  then show ?thesis by (cases others) simp_all
qed

lemma spec_confirm_auth:
  assumes "a_queue t = auth # its" "qi_type auth = msg_byte msg_AUTH" "a_fsm t = fsm_AUTH_SENDED"
  shows "spec_confirm n t = t\<lparr>a_queue := auth\<lparr>qi_low := 1\<rparr> # its, a_details := (a_details t)\<lparr>msgCounter := n + 1\<rparr>,
    a_fsm := fsm_W84_REPLY, a_events := a_events t @ [Signal rec2SenderCond]\<rparr>"
  using assms by (simp add: spec_confirm_def)

lemma seen_other_type:
  assumes "msg_byte ty \<noteq> msg_byte ty'"
  shows "already_seen high low (msg_byte ty) (seen_now high' low' ty' t) = already_seen high low (msg_byte ty) t"
  using assms by (simp add: seen_now_def already_seen_def seen_item_def)

text \<open>The two datagrams: the confirmation of the AUTH and the positive reply to it.\<close>

lemma authentication_received:
  assumes "state_inv s" "roomy alloc" "listening source (abs_of s)" "fsm s = fsm_AUTH_SENDED"
    and "queue_items (memory s) (sending s) = auth # its" "qi_type auth = msg_byte msg_AUTH" "item_id auth \<noteq> None"
    and "\<not> already_seen high' low' (msg_byte msg_REPLY) (abs_of s)"
    and "length c + 7 \<le> allocated (serverResponse (cleanUp s))" "c \<noteq> []" "0 \<notin> set c"
  shows "\<exists>v1 s1 v2 s2. receiveOne alloc source [msg_byte msg_CONF, low, high] v s = Done v1 s1 \<and>
    receiveOne alloc source (msg_byte msg_REPLY # low' # high' # 1 # rl # rh # c @ [0]) v1 s1 = Done v2 s2 \<and>
    state_inv s2 \<and> is_UDP s2 \<and> fsm s2 = fsm_W84_REPLY_CONF \<and> \<not> q_locked (sending s2) \<and>
    server_address (netConfig s2) = Some source \<and> udpMaxRetries (netConfig s2) = udpMaxRetries (netConfig s) \<and>
    displayName (comDetails s2) = displayName (comDetails s) \<and>
    queue_items (memory s2) (sending s2)
      = confirm_item low' high' msg_flag_CONFIRM # auth\<lparr>qi_low := 1, qi_flags := msg_flag_CONFIRMED\<rparr> # its \<and>
    events s2 = events s @ [Signal rec2SenderCond, Signal senderEmptyQueueCond, Signal rec2SenderCond,
      Stderr (bytes_of ''Success: '' @ c @ [10])]"
proof -
  note abs = absD[of s, OF refl]
  have ids: "item_id it \<noteq> None" if "a_queue (abs_of s) = it # its'" for it its'
    using that assms(5,7) abs by simp
  obtain v1 b s1 where s1: "receiveOne alloc source [msg_byte msg_CONF, low, high] v s = Done v1 s1" "state_inv s1"
    and t1: "abs_of s1 = spec_confirm (convert2BytesToU16Int low high)
      (seen_now high low msg_CONF (arrived source b (abs_of s)))"
    and b: "allocated b = allocated (a_response (abs_of s))"
    using receive_confirm[where low = low and high = high and v = v, OF assms(1) refl assms(3,2) _ ids] assms(9) abs unfolding runs_def by fastforce
  have confirmed: "abs_of s1 = (seen_now high low msg_CONF (arrived source b (abs_of s)))\<lparr>
      a_queue := auth\<lparr>qi_low := 1\<rparr> # its,
      a_details := (a_details (abs_of s))\<lparr>msgCounter := convert2BytesToU16Int low high + 1\<rparr>,
      a_fsm := fsm_W84_REPLY, a_events := events s @ [Signal rec2SenderCond]\<rparr>"
    unfolding t1 using assms(4-6) abs by (subst spec_confirm_auth[where auth = auth and its = its]) simp_all
  have l1: "listening source (abs_of s1)" using assms(3) by (simp add: confirmed listening_def)
  have new: "\<not> already_seen high' low' (msg_byte msg_REPLY) (abs_of s1)"
    using seen_other_type[of msg_REPLY msg_CONF high' low' high low "arrived source b (abs_of s)"] assms(8)
    by (simp add: confirmed already_seen_def)
  obtain v2 b' s2 where s2: "receiveOne alloc source (msg_byte msg_REPLY # low' # high' # 1 # rl # rh # c @ [0]) v1 s1 = Done v2 s2"
    "state_inv s2"
    and t2: "abs_of s2 = spec_reply_datagram low' high' 1 c (arrived source b' (abs_of s1))"
    using receive_reply[OF s1(2) refl l1 assms(2) _ assms(10,11), of 1 high' low' rl rh v1] assms(9) b abs
    unfolding runs_def by (fastforce simp: confirmed)
  have accepted: "abs_of s2 = counted (convert2BytesToU16Int low' high' + 1)
      (spec_accept low' high' c (seen_now high' low' msg_REPLY (arrived source b' (abs_of s1))))"
    unfolding t2 using new confirmed by (simp add: spec_reply_datagram_def spec_reply_def awaiting_def)
  have net: "netConfig s2 = (netConfig s)\<lparr>serverAddress := Some source\<rparr>" and locked: "\<not> q_locked (sending s2)"
    and name: "displayName (comDetails s2) = displayName (comDetails s)"
    and rest: "fsm s2 = fsm_W84_REPLY_CONF" "queue_items (memory s2) (sending s2)
      = confirm_item low' high' msg_flag_CONFIRM # auth\<lparr>qi_low := 1, qi_flags := msg_flag_CONFIRMED\<rparr> # its"
    "events s2 = events s @ [Signal rec2SenderCond, Signal senderEmptyQueueCond, Signal rec2SenderCond,
      Stderr (bytes_of ''Success: '' @ c @ [10])]"
    using absD[OF accepted] abs assms(3) by (simp_all add: counted_def spec_accept_def confirmed listening_def)
  have "server_address (netConfig s2) = Some source" "is_UDP s2"
    using assms(3) abs by (simp_all add: net server_address_def listening_def)
  then show ?thesis using s1(1) s2 rest locked net name by fastforce
qed

text \<open>The turn of the sender that confirms the reply and opens the connection.\<close>

lemma reply_confirmed:
  assumes "state_inv s" "is_UDP s" "fsm s = fsm_W84_REPLY_CONF" "\<not> q_locked (sending s)"
    and "queue_items (memory s) (sending s) = confirm_item low high msg_flag_CONFIRM # its"
    and "list_all (in_time (abs_of s)) its" "server_address (netConfig s) = Some source"
    and "sendto (Some source) (map Some [msg_byte msg_CONF, low, high])"
  shows "\<exists>s'. senderTurn alloc sendto (f # others) s = Done others (f s') \<and> state_inv s' \<and>
    abs_of s' = (abs_of s)\<lparr>a_fsm := fsm_OPEN, a_queue := its,
      a_events := events s @ [Signal mainCond, Sent (Some source) (map Some [msg_byte msg_CONF, low, high])]\<rparr>"
proof -
  note abs = absD[of s, OF refl]
  let ?it = "confirm_item low high msg_flag_CONFIRM" and ?e = "events s @ [Signal mainCond]"
  have it: "labelled n ?it = ?it" for n by (simp add: labelled_def confirm_item_def)
  have "uchar2msgType (msg_byte msg_CONF) = msg_CONF" by (rule uchar2msgType_msg_byte) simp
  then have conf: "uchar2msgType (qi_type ?it) = msg_CONF" by (simp add: confirm_item_def)
  have drop: "dropWhile finished (queue_items (memory s) (sending s)) = ?it # its"
    using assms(5) by (simp add: confirm_item_def finished_def)
  have "\<exists>s'. senderTurn alloc sendto (f # others) s = Done others (f s') \<and> state_inv s' \<and>
      abs_of s' = spec_send ((abs_of s)\<lparr>a_fsm := fsm_OPEN, a_events := ?e\<rparr>)"
  proof (rule sender_sends[where sendto = sendto, OF assms(1,2,4) _ drop])
    show "list_all (in_time (abs_of s)) (queue_items (memory s) (sending s))"
      using assms(5,6) by (simp add: in_time_def confirm_item_def)
    show "qi_bytes ?it = Some (map Some [msg_byte msg_CONF, low, high])" by (simp add: confirm_item_def)
    show "sendto (server_address (netConfig s)) (the (qi_bytes (labelled (msgCounter (comDetails s)) ?it)))"
      unfolding it using assms(7,8) by (simp add: confirm_item_def)
    fix s4 assume s4: "state_inv s4" "abs_of s4 = (abs_of s)\<lparr>a_queue := ?it # its, a_locked := True\<rparr>"
    show "runs (logicFSM (f # others)) s4 (f # others)
        ((abs_of s)\<lparr>a_queue := ?it # its, a_locked := True, a_fsm := fsm_OPEN, a_events := ?e\<rparr>)"
      using logicFSM_confirmed[OF s4 _ _ conf, of its "f # others"] assms(3) abs by simp
  qed simp
  moreover have "spec_send ((abs_of s)\<lparr>a_fsm := fsm_OPEN, a_events := ?e\<rparr>) = (abs_of s)\<lparr>a_fsm := fsm_OPEN, a_queue := its,
      a_events := events s @ [Signal mainCond, Sent (Some source) (map Some [msg_byte msg_CONF, low, high])]\<rparr>"
    using drop assms(7) abs
    by (intro abs_state.equality) (simp_all add: spec_send_def labelled_def Let_def sent_once_def confirm_item_def)
  ultimately show ?thesis by simp
qed

text \<open>The handshake after the AUTH was sent. The server confirms it and replies positively, both from
  the same address; the next turn of the sender confirms the reply to that address. Then the connection
  is open and the main thread was signalled, the user has been told, and the AUTH stays in the
  queue only as a finished message, ahead of whatever was queued behind it.\<close>

lemma handshake_completes:
  assumes "state_inv s" "roomy alloc" "listening source (abs_of s)" "fsm s = fsm_AUTH_SENDED"
    and "queue_items (memory s) (sending s) = auth # its" "qi_type auth = msg_byte msg_AUTH" "item_id auth \<noteq> None"
    and "list_all (in_time (abs_of s)) (auth # its)" "\<not> already_seen high' low' (msg_byte msg_REPLY) (abs_of s)"
    and "length c + 7 \<le> allocated (serverResponse (cleanUp s))" "c \<noteq> []" "0 \<notin> set c"
    and "sendto (Some source) (map Some [msg_byte msg_CONF, low', high'])"
  shows "\<exists>v1 s1 v2 s2 s3. receiveOne alloc source [msg_byte msg_CONF, low, high] v s = Done v1 s1 \<and>
    receiveOne alloc source (msg_byte msg_REPLY # low' # high' # 1 # rl # rh # c @ [0]) v1 s1 = Done v2 s2 \<and>
    senderTurn alloc sendto (f # others) s2 = Done others (f s3) \<and> state_inv s3 \<and> fsm s3 = fsm_OPEN \<and>
    queue_items (memory s3) (sending s3) = auth\<lparr>qi_low := 1, qi_flags := msg_flag_CONFIRMED\<rparr> # its \<and>
    finished (auth\<lparr>qi_low := 1, qi_flags := msg_flag_CONFIRMED\<rparr>) \<and>
    displayName (comDetails s3) = displayName (comDetails s) \<and> server_address (netConfig s3) = Some source \<and>
    events s3 = events s @ [Signal rec2SenderCond, Signal senderEmptyQueueCond, Signal rec2SenderCond,
      Stderr (bytes_of ''Success: '' @ c @ [10]), Signal mainCond,
      Sent (Some source) (map Some [msg_byte msg_CONF, low', high'])]"
proof -
  let ?auth = "auth\<lparr>qi_low := 1, qi_flags := msg_flag_CONFIRMED\<rparr>"
  obtain v1 s1 v2 s2 where r: "receiveOne alloc source [msg_byte msg_CONF, low, high] v s = Done v1 s1"
    "receiveOne alloc source (msg_byte msg_REPLY # low' # high' # 1 # rl # rh # c @ [0]) v1 s1 = Done v2 s2"
    and s2: "state_inv s2" "is_UDP s2" "fsm s2 = fsm_W84_REPLY_CONF" "\<not> q_locked (sending s2)"
    "queue_items (memory s2) (sending s2) = confirm_item low' high' msg_flag_CONFIRM # ?auth # its"
    and net: "server_address (netConfig s2) = Some source" "udpMaxRetries (netConfig s2) = udpMaxRetries (netConfig s)"
    "displayName (comDetails s2) = displayName (comDetails s)"
    and ev: "events s2 = events s @ [Signal rec2SenderCond, Signal senderEmptyQueueCond, Signal rec2SenderCond,
      Stderr (bytes_of ''Success: '' @ c @ [10])]"
    using authentication_received[where low = low and high = high and v = v and rl = rl and rh = rh,
        OF assms(1-7,9-12)] by blast
  have time: "list_all (in_time (abs_of s2)) (?auth # its)"
    using assms(8) net(2) absD(8)[of s, OF refl] absD(8)[of s2, OF refl] by (simp add: in_time_def[abs_def])
  obtain s3 where s3: "senderTurn alloc sendto (f # others) s2 = Done others (f s3)" "state_inv s3"
    "abs_of s3 = (abs_of s2)\<lparr>a_fsm := fsm_OPEN, a_queue := ?auth # its,
      a_events := events s2 @ [Signal mainCond, Sent (Some source) (map Some [msg_byte msg_CONF, low', high'])]\<rparr>"
    using reply_confirmed[where sendto = sendto, OF s2 time net(1) assms(13)] by blast
  have "fsm s3 = fsm_OPEN" "queue_items (memory s3) (sending s3) = ?auth # its"
    "events s3 = events s2 @ [Signal mainCond, Sent (Some source) (map Some [msg_byte msg_CONF, low', high'])]"
    "displayName (comDetails s3) = displayName (comDetails s)" "server_address (netConfig s3) = Some source"
    using absD[OF s3(3)] absD(7,8)[of s2, OF refl] net by simp_all
  then show ?thesis using r s3(1,2) ev by (auto simp: finished_def)
qed

end
