(* ===== verification/Chat_Ending.thy ===== *)
theory Chat_Ending
  imports Chat_Authentication
begin

text \<open>
  The messages of the server that end the conversation, over UDP: BYE and ERR.
\<close>

section \<open>BYE\<close>

definition spec_bye :: "byte \<Rightarrow> byte \<Rightarrow> abs_state \<Rightarrow> abs_state" where
  "spec_bye low high t = (seen_now high low msg_BYE t)\<lparr>a_queue := confirm_item low high msg_flag_CONFIRM # a_queue t,
     a_fsm := fsm_END, a_events := a_events t @ [Signal mainCond]\<rparr>"

lemma runs_receiverFSM_bye:
  assumes "state_inv s" "abs_of s = t" "protocol (a_net t) = prot_UDP" "\<not> a_locked t" "\<not> a_seenLocked t" "roomy alloc"
    and "received (a_response t) (x # low # high # rest)" "pb_type pb = msg_byte msg_BYE"
  shows "runs (receiverFSM alloc msgID pb) s () (spec_bye low high t)"
proof -
  obtain s1 where s1: "filterRepeated alloc pb s = Done (already_seen high low (msg_byte msg_BYE) t) s1" "state_inv s1"
    "abs_of s1 = seen_now high low msg_BYE t" "is_UDP s"
    by (rule receiverFSM_filter[OF assms])
  have ty: "uchar2msgType (pb_type pb) = msg_BYE" using uchar2msgType_msg_byte[of msg_BYE] assms(8) by simp
  have resp: "points_to (buf_ptr (a_response (seen_now high low msg_BYE t))) (x # low # high # rest)"
    using assms(7) by (simp add: received_def)
  have "runs (steps [confirmLocked alloc, setProgramState fsm_END, cond_signal mainCond]) s1 () (spec_bye low high t)"
    by (rule runs_steps_Cons[OF runs_confirmLocked[OF s1(2,3) _ assms(6) resp]], (use assms(4) in simp),
        rule runs_steps_Cons[OF runs_setProgramState], assumption+,
        rule runs_steps_Cons[OF runs_cond_signal], assumption+, rule runs_steps_Nil, assumption)
      (simp add: spec_bye_def)
  then show ?thesis using s1(1,4) ty by (simp add: runs_def receiverFSM_def bind_prog_def)
qed

text \<open>C11: a BYE of the server, received over UDP after the start. The program ends and the main thread is signalled;
  a confirmation of the BYE is queued, but the sender is not signalled, and its loop is left as soon as it
  looks at the state at its head, so that a sender between two turns never sends the confirmation.\<close>

theorem bye_received:
  assumes "state_inv s" "roomy alloc" "listening source (abs_of s)" "fsm s \<noteq> fsm_START"
    and "3 \<le> allocated (serverResponse (cleanUp s))"
  shows "\<exists>v' s' b. receiveOne alloc source [msg_byte msg_BYE, low, high] v s = Done v' s' \<and> state_inv s' \<and>
    received b [msg_byte msg_BYE, low, high] \<and> abs_of s' = spec_bye low high (arrived source b (abs_of s)) \<and>
    (\<forall>turns sendto others. protocolSender turns alloc sendto others s' = Done True s')"
proof -
  note abs = absD[of s, OF refl]
  have "\<exists>v' b. received b [msg_byte msg_BYE, low, high] \<and> allocated b = allocated (a_response (abs_of s)) \<and>
    runs (receiveOne alloc source [msg_byte msg_BYE, low, high] v) s v' (spec_bye low high (arrived source b (abs_of s)))"
  proof (rule receive_listening[OF assms(1) refl assms(3), where ty = msg_BYE and Q = "\<lambda>_. True"])
    show "\<exists>pb'. disassebleProtocolUDP b pb = Ok (pb', convert2BytesToU16Int low high) \<and> pb_type pb' = msg_byte msg_BYE \<and> True"
      if "received b [msg_byte msg_BYE, low, high]" for b pb
      using decodeUDP_short[OF that] by simp
    show "runs (receiverFSM alloc (convert2BytesToU16Int low high) pb') s1 () (spec_bye low high (arrived source b (abs_of s)))"
      if "state_inv s1" "abs_of s1 = arrived source b (abs_of s)"
        "received b [msg_byte msg_BYE, low, high]" "pb_type pb' = msg_byte msg_BYE" for s1 b pb'
      by (rule runs_receiverFSM_bye[OF that(1,2) _ _ _ assms(2)])
        (use assms(3) that(3,4) in \<open>auto simp: listening_def\<close>)
  qed (use assms(4,5) abs in simp_all)
  then obtain v' b s' where s': "receiveOne alloc source [msg_byte msg_BYE, low, high] v s = Done v' s'" "state_inv s'"
    "received b [msg_byte msg_BYE, low, high]" "abs_of s' = spec_bye low high (arrived source b (abs_of s))"
    unfolding runs_def by blast
  have "fsm s' = fsm_END" using absD(1)[OF s'(4)] by (simp add: spec_bye_def)
  then have "protocolSender turns alloc sendto others s' = Done True s'" for turns sendto others
    by (cases turns) simp_all
  then show ?thesis using s' by blast
qed

theorem bye_received_witness:
  "\<exists>v' s' b. receiveOne grants_small sample_source [msg_byte msg_BYE, 1, 0] (sample_msg cmd_NONE, 0) joining_state = Done v' s' \<and>
    state_inv s' \<and> received b [msg_byte msg_BYE, 1, 0] \<and>
    abs_of s' = spec_bye 1 0 (arrived sample_source b (abs_of joining_state)) \<and>
    (\<forall>turns sendto others. protocolSender turns grants_small sendto others s' = Done True s')"
  by (rule bye_received[OF joining_state_inv roomy_grants_small joining_listens]) simp_all

section \<open>ERR\<close>

definition spec_error ::
  "cell \<Rightarrow> cell \<Rightarrow> byte \<Rightarrow> byte \<Rightarrow> byte list \<Rightarrow> byte list \<Rightarrow> abs_state \<Rightarrow> abs_state"
where
  "spec_error i1 i2 low high n c t =
     (seen_now high low msg_ERR t)\<lparr>a_queue := [confirm_item low high msg_flag_CONFIRM, bye_item i1 i2],
       a_fsm := fsm_ERR,
       a_events := a_events t @ [Signal senderEmptyQueueCond, Signal rec2SenderCond] @ printed msg_ERR n c @ [Signal mainCond]\<rparr>"

lemma steps_append: "steps ps s = Done () s1 \<Longrightarrow> steps (ps @ qs) s = steps qs s1"
  by (induction ps arbitrary: s) (auto simp: ret_def bind_prog_def split: outcome.splits)

lemma runs_error_steps:
  assumes "state_inv s" "abs_of s = seen_now high low msg_ERR t" "protocol (a_net t) = prot_UDP" "\<not> a_locked t"
    and "\<not> a_stdoutLocked t" "roomy alloc"
    and "received (a_response t) (x # low # high # rest)" "pb_type pb = msg_byte msg_ERR"
    and "block_of (zeroth pb) n" "block_of (first pb) c"
  shows "\<exists>i1 i2. runs (steps [lockSending, popAll, sendConfirm alloc msg_flag_CONFIRM, unlockSending, sendBye alloc, wakeSender,
    setProgramState fsm_ERR, printIncomingMessage pb, cond_signal mainCond]) s () (spec_error i1 i2 low high n c t)"
proof -
  let ?t = "seen_now high low msg_ERR t"
  let ?t1 = "?t\<lparr>a_locked := True, a_queue := [confirm_item low high msg_flag_CONFIRM], a_locked := False\<rparr>"
  have resp: "points_to (buf_ptr (a_response t)) (x # low # high # rest)" using assms(7) by (simp add: received_def)
  have "runs (steps [lockSending, popAll, sendConfirm alloc msg_flag_CONFIRM, unlockSending]) s () ?t1"
    by (rule runs_steps_Cons[OF runs_locks(1)[OF assms(1,2)]], (use assms(4) in simp),
        rule runs_steps_Cons[OF runs_popAll], assumption+,
        rule runs_steps_Cons[OF runs_sendConfirm[where x = x and low = low and high = high and rest = rest]], assumption+,
        rule assms(6), (use resp in simp),
        rule runs_steps_Cons[OF runs_locks(2)], assumption+, rule runs_steps_Nil, assumption) simp
  then obtain s1 where s1: "steps [lockSending, popAll, sendConfirm alloc msg_flag_CONFIRM, unlockSending] s = Done () s1"
    "state_inv s1" "abs_of s1 = ?t1" by (rule runsE)
  obtain i1 i2 where bye: "runs (sendBye alloc) s1 () (?t1\<lparr>a_queue := a_queue ?t1 @ [bye_item i1 i2]\<rparr>)"
    using runs_sendBye[OF s1(2,3) assms(6)] assms(3,4) by auto
  have "runs (steps [sendBye alloc, wakeSender, setProgramState fsm_ERR, printIncomingMessage pb, cond_signal mainCond]) s1 ()
      (spec_error i1 i2 low high n c t)"
    by (rule runs_steps_Cons[OF bye], rule runs_steps_Cons[OF runs_wakeSender], assumption+,
        rule runs_steps_Cons[OF runs_setProgramState], assumption+,
        rule runs_steps_Cons[OF runs_printIncoming[OF _ _ _ assms(8) _ assms(9,10)]], assumption+, (use assms(5) in simp), simp,
        rule runs_steps_Cons[OF runs_cond_signal], assumption+, rule runs_steps_Nil, assumption)
      (use assms(4) in \<open>auto intro!: abs_state.equality simp: spec_error_def\<close>)
  then show ?thesis
    using steps_append[OF s1(1)] unfolding runs_def by (fastforce simp del: steps.simps)
qed

lemma runs_receiverFSM_error:
  assumes "state_inv s" "abs_of s = t" "listening source t" "roomy alloc"
    and "received (a_response t) (x # low # high # rest)" "pb_type pb = msg_byte msg_ERR"
    and "block_of (zeroth pb) n" "block_of (first pb) c"
  shows "\<exists>i1 i2. runs (receiverFSM alloc msgID pb) s () (spec_error i1 i2 low high n c t)"
proof -
  have t: "protocol (a_net t) = prot_UDP" "\<not> a_locked t" "\<not> a_seenLocked t" "\<not> a_stdoutLocked t"
    using assms(3) by (simp_all add: listening_def)
  obtain s1 where s1: "filterRepeated alloc pb s = Done (already_seen high low (msg_byte msg_ERR) t) s1" "state_inv s1"
    "abs_of s1 = seen_now high low msg_ERR t" "is_UDP s"
    by (rule receiverFSM_filter[OF assms(1,2) t(1-3) assms(4-6)])
  have ty: "uchar2msgType (pb_type pb) = msg_ERR" using uchar2msgType_msg_byte[of msg_ERR] assms(6) by simp
  show ?thesis
    using runs_error_steps[OF s1(2,3) t(1,2,4) assms(4-8)] s1(1,4) ty
    by (simp add: runs_def receiverFSM_def bind_prog_def)
qed

text \<open>C10: an ERR of the server, received over UDP after the start. Everything that waited to be sent is dropped; the
  queue is the confirmation of the ERR and a BYE; the program is in the error state, the name and the
  contents are printed as an error, and the sender and the main thread are signalled.\<close>

theorem error_received:
  assumes "state_inv s" "roomy alloc" "listening source (abs_of s)" "fsm s \<noteq> fsm_START"
    and "n \<noteq> []" "0 \<notin> set n" "c \<noteq> []" "0 \<notin> set c"
    and "length n + length c + 5 \<le> allocated (serverResponse (cleanUp s))"
  shows "\<exists>v' s' b i1 i2. receiveOne alloc source (msg_byte msg_ERR # low # high # n @ 0 # c @ [0]) v s = Done v' s' \<and>
    state_inv s' \<and> received b (msg_byte msg_ERR # low # high # n @ 0 # c @ [0]) \<and>
    abs_of s' = spec_error i1 i2 low high n c (arrived source b (abs_of s))"
proof -
  let ?bs = "msg_byte msg_ERR # low # high # n @ 0 # c @ [0]"
  let ?P = "\<lambda>b w. \<exists>i1 i2. w = spec_error i1 i2 low high n c (arrived source b (abs_of s))"
  let ?Q = "\<lambda>b pb'. pb_type pb' = msg_byte msg_ERR \<and> block_of (zeroth pb') n \<and> block_of (first pb') c"
  note abs = absD[of s, OF refl]
  obtain address where address: "serverAddress (a_net (abs_of s)) = Some address" "length address = length source"
    using assms(3) by (auto simp: listening_def)
  have "\<exists>v' b w. received b ?bs \<and> allocated b = allocated (a_response (abs_of s)) \<and> ?P b w \<and>
      runs (receiveOne alloc source ?bs v) s v' w"
  proof (rule receive_some[OF assms(1) refl _ _ _ address, where Q = ?Q and mid = "convert2BytesToU16Int low high"])
    show "\<exists>pb'. disassebleProtocolUDP b pb = Ok (pb', convert2BytesToU16Int low high) \<and> ?Q b pb'"
      if "received b ?bs" for b pb
      using decodeUDP_named[of b msg_ERR low high n c "[]" pb] that assms(5-8) by (auto simp: received_def)
    show "\<exists>w. ?P b w \<and> runs (receiverFSM alloc (convert2BytesToU16Int low high) pb') s1 () w"
      if "state_inv s1" "abs_of s1 = (answering source (abs_of s))\<lparr>a_response := b\<rparr>" "received b ?bs" "?Q b pb'" for s1 b pb'
      using runs_receiverFSM_error[OF that(1) that(2)[folded arrived_def] listening_arrived[OF assms(3)] assms(2)] that(3,4)
      by fastforce
  qed (use assms(3,4,9) abs in \<open>auto simp: listening_def\<close>)
  then show ?thesis unfolding runs_def by blast
qed

theorem error_received_witness:
  "\<exists>v' s' b i1 i2. receiveOne grants_small sample_source (msg_byte msg_ERR # 1 # 0 # [66] @ 0 # [110, 111] @ [0])
      (sample_msg cmd_NONE, 0) joining_state = Done v' s' \<and>
    state_inv s' \<and> received b (msg_byte msg_ERR # 1 # 0 # [66] @ 0 # [110, 111] @ [0]) \<and>
    abs_of s' = spec_error i1 i2 1 0 [66] [110, 111] (arrived sample_source b (abs_of joining_state))"
  by (rule error_received[OF joining_state_inv roomy_grants_small joining_listens]) simp_all

end
