(* ===== verification/Chat_Stream.thy ===== *)
theory Chat_Stream
  imports Chat_Ending
begin

text \<open>
  The client over TCP: what becomes of a line of the server, and the turns of the sender, which over TCP sends
  every queued message once and in order.
\<close>

section \<open>Receiving\<close>

text \<open>A stream gives no address; the size of the stored one becomes 0.\<close>

definition streamed :: "Buffer \<Rightarrow> abs_state \<Rightarrow> abs_state" where
  "streamed b t = t\<lparr>a_net := (a_net t)\<lparr>serverAddressSize := 0\<rparr>, a_response := b\<rparr>"

lemma store_source_stream:
  "serverAddress n = Some address \<Longrightarrow> store_source [] n = Ok (n\<lparr>serverAddressSize := 0\<rparr>)"
  by (simp add: store_source_def overlay_def)

lemma stream_received:
  assumes "state_inv s" "abs_of s = t" "protocol (a_net t) = prot_TCP" "serverAddress (a_net t) \<noteq> None"
    and "bs \<noteq> []" "length bs \<le> allocated (a_response t)" "a_fsm t \<noteq> fsm_START"
  obtains b s1 where "state_inv s1" "abs_of s1 = streamed b t" "received b bs"
    "data b = map_option (\<lambda>m. overlay m 0 (map Some bs)) (data (a_response t))"
    "\<And>pb mid pb'. disassebleProtocolTCP b pb = Ok pb' \<Longrightarrow>
      receiveOne alloc [] bs (pb, mid) s = bind_prog (receiverFSM alloc mid pb') (\<lambda>_. ret (pb', mid)) s1"
proof -
  obtain address where address: "serverAddress (a_net t) = Some address" using assms(4) by blast
  obtain s0 s1 b where s0: "recvfrom [] bs s = Done (length bs) s0" "set_responseUsed (length bs) s0 = Done () s1"
    and s1: "state_inv s1" "abs_of s1 = streamed b t" "received b bs"
    and mem: "data b = map_option (\<lambda>m. overlay m 0 (map Some bs)) (data (a_response t))"
    using recvfrom_stored[OF assms(1,2,6,5) store_source_stream[OF address]] unfolding streamed_def by blast
  have resp: "serverResponse (cleanUp s1) = b" "is_TCP s1" "fsm s1 = a_fsm t"
    using absD[OF s1(2)] assms(3) by (simp_all add: streamed_def)
  have "receiveOne alloc [] bs (pb, mid) s = bind_prog (receiverFSM alloc mid pb') (\<lambda>_. ret (pb', mid)) s1"
    if "disassebleProtocolTCP b pb = Ok pb'" for pb mid pb'
    using s0 resp that assms(5,7) unfolding receiveOne_def
    by (simp add: bind_prog_def lift_res_def ret_def getProgramState_def asks_def)
  then show thesis by (rule that[OF s1 mem])
qed

lemma receive_stream:
  assumes "state_inv s" "abs_of s = t" "protocol (a_net t) = prot_TCP" "serverAddress (a_net t) \<noteq> None"
    and "bs \<noteq> []" "length bs \<le> allocated (a_response t)" "a_fsm t \<noteq> fsm_START"
    and decode: "\<And>b pb. received b bs \<Longrightarrow> \<exists>pb'. disassebleProtocolTCP b pb = Ok pb' \<and> Q pb'"
    and handled: "\<And>s1 b pb' mid. state_inv s1 \<Longrightarrow> abs_of s1 = streamed b t \<Longrightarrow> received b bs \<Longrightarrow> Q pb' \<Longrightarrow>
      runs (receiverFSM alloc mid pb') s1 () (u b)"
  shows "\<exists>v' b. received b bs \<and> runs (receiveOne alloc [] bs v) s v' (u b)"
proof -
  obtain pb mid where v: "v = (pb, mid)" by (cases v)
  obtain b s1 where s1: "state_inv s1" "abs_of s1 = streamed b t" "received b bs"
    and turn: "\<And>pb mid pb'. disassebleProtocolTCP b pb = Ok pb' \<Longrightarrow>
      receiveOne alloc [] bs (pb, mid) s = bind_prog (receiverFSM alloc mid pb') (\<lambda>_. ret (pb', mid)) s1"
    by (rule stream_received[where alloc = alloc, OF assms(1-7)]) blast
  obtain pb' where pb': "disassebleProtocolTCP b pb = Ok pb'" "Q pb'" using decode[OF s1(3)] by blast
  have "runs (receiveOne alloc [] bs v) s (pb', mid) (u b)"
    using handled[OF s1 pb'(2), of mid] turn[OF pb'(1), of mid] unfolding runs_def v
    by (auto simp: bind_prog_def ret_def)
  then show ?thesis using s1(3) by blast
qed

text \<open>C13: a line \<open>MSG FROM name IS contents\<close> received over TCP after the start is printed, and that is all that
  happens, whatever follows it in the bytes that were received with it: a second message in
  the same segment is lost.\<close>

theorem stream_message_received:
  assumes "state_inv s" "is_TCP s" "serverAddress (netConfig s) \<noteq> None" "fsm s \<noteq> fsm_START" "\<not> stdoutMutex (threads s)"
    and "\<forall>x \<in> set n. \<not> is_blank x" "\<forall>x \<in> set c. \<not> is_line_end x"
    and "length n + length c + length rest + 15 \<le> allocated (serverResponse (cleanUp s))"
  shows "\<exists>v' s' b. receiveOne alloc [] (bytes_of ''MSG FROM '' @ n @ bytes_of '' IS '' @ c @ [13, 10] @ rest) v s = Done v' s' \<and>
    state_inv s' \<and> received b (bytes_of ''MSG FROM '' @ n @ bytes_of '' IS '' @ c @ [13, 10] @ rest) \<and>
    abs_of s' = (streamed b (abs_of s))\<lparr>a_events := events s @ [Stdout (n @ bytes_of '': '' @ c @ [10])]\<rparr>"
proof -
  let ?bs = "bytes_of ''MSG FROM '' @ n @ bytes_of '' IS '' @ c @ [13, 10] @ rest"
  let ?Q = "\<lambda>pb'. pb_type pb' = msg_byte msg_MSG \<and> block_of (zeroth pb') n \<and> block_of (first pb') c"
  let ?u = "\<lambda>b. (streamed b (abs_of s))\<lparr>a_events := events s @ [Stdout (n @ bytes_of '': '' @ c @ [10])]\<rparr>"
  note abs = absD[of s, OF refl]
  have ty: "uchar2msgType (msg_byte msg_MSG) = msg_MSG" by (rule uchar2msgType_msg_byte) simp
  have "\<exists>v' b. received b ?bs \<and> runs (receiveOne alloc [] ?bs v) s v' (?u b)"
  proof (rule receive_stream[OF assms(1) refl, where Q = ?Q])
    show "\<exists>pb'. disassebleProtocolTCP b pb = Ok pb' \<and> ?Q pb'" if "received b ?bs" for b pb
      using decodeTCP_named[of b "''MSG FROM ''" n c 13 "10 # rest" msg_MSG pb] that assms(6,7) received_length[OF that]
      by (simp add: received_def is_line_end_def bytes_of_def)
    show "runs (receiverFSM alloc mid pb') s1 () (?u b)"
      if s1: "state_inv s1" "abs_of s1 = streamed b (abs_of s)" "received b ?bs" "?Q pb'" for s1 b pb' mid
    proof -
      have "runs (printIncomingMessage pb') s1 () (?u b)"
        using runs_printIncoming[OF s1(1,2), of pb' msg_MSG n c] assms(5) s1(4) abs
        by (simp add: streamed_def printed_def)
      moreover have "is_TCP s1" using absD[OF s1(2)] assms(2) abs by (simp add: streamed_def)
      ultimately show ?thesis using s1(4) ty by (simp add: runs_def receiverFSM_def bind_prog_def ret_def)
    qed
  qed (use assms(2-4,8) abs in \<open>auto simp: bytes_of_def\<close>)
  then show ?thesis unfolding runs_def by blast
qed

text \<open>The state of an open connection over TCP, with one message to be sent.\<close>

definition stream_state :: ProgramInterface where
  "stream_state = waiting_state\<lparr>netConfig := (netConfig waiting_state)\<lparr>protocol := prot_TCP\<rparr>\<rparr>"

lemma stream_state_simps:
  "fsm stream_state = fsm_OPEN" "is_TCP stream_state" "sending stream_state = sending waiting_state"
  "memory stream_state = memory waiting_state" "confirmedMsgs stream_state = confirmedMsgs waiting_state"
  "buffers stream_state = buffers waiting_state" "stdoutMutex (threads stream_state) = False"
  "serverAddress (netConfig stream_state) \<noteq> None" "allocated (serverResponse (cleanUp stream_state)) = 1500"
  using open_state_simps by (simp_all add: stream_state_def waiting_state_def buffers_def)

lemma stream_state_inv: "state_inv stream_state"
  using waiting_state_inv by (simp add: state_inv_def stream_state_simps)

theorem stream_message_received_witness:
  "\<exists>v' s' b. receiveOne grants_small [] (bytes_of ''MSG FROM '' @ [66] @ bytes_of '' IS '' @ [104, 105] @ [13, 10] @
        bytes_of ''MSG FROM C IS no'') (sample_msg cmd_NONE, 0) stream_state = Done v' s' \<and>
    state_inv s' \<and> received b (bytes_of ''MSG FROM '' @ [66] @ bytes_of '' IS '' @ [104, 105] @ [13, 10] @
      bytes_of ''MSG FROM C IS no'') \<and>
    abs_of s' = (streamed b (abs_of stream_state))\<lparr>a_events := events stream_state @ [Stdout ([66] @ bytes_of '': '' @ [104, 105] @ [10])]\<rparr>"
  by (rule stream_message_received[OF stream_state_inv])
    (use stream_state_simps in \<open>auto simp: is_blank_def is_line_end_def\<close>)

section \<open>Replies\<close>

text \<open>The contents of a reply are printed as a string, but the received bytes have no terminator: what the buffer
  holds behind them decides.\<close>

lemma string_cells_append:
  "0 \<notin> set xs \<Longrightarrow> string_cells (map Some xs @ cs) = res_bind (string_cells cs) (\<lambda>ys. Ok (xs @ ys))"
  by (induction xs) (auto simp: res_bind_assoc, cases "string_cells cs", auto)

definition stream_reply :: "bool \<Rightarrow> byte list \<Rightarrow> byte list" where
  "stream_reply ok c = bytes_of ''REPLY '' @ bytes_of (if ok then ''OK IS '' else ''NOK IS '') @ c @ [13, 10]"

lemma stream_reply_decoded:
  assumes "received b (stream_reply ok c)" "data b = Some (overlay m 0 (map Some (stream_reply ok c)))"
    and "length (stream_reply ok c) \<le> length m" "\<forall>x \<in> set c. \<not> is_blank x"
  shows "\<exists>pb'. disassebleProtocolTCP b pb = Ok pb' \<and> pb_type pb' = msg_byte msg_REPLY \<and> msg_reply_result_bool pb' = ok \<and>
    c_string (bb_start (msg_reply_MsgContents pb'))
      = res_bind (string_cells (drop (length (stream_reply ok c)) m)) (\<lambda>stale. Ok (c @ [13, 10] @ stale))"
proof -
  let ?res = "if ok then ''OK IS '' else ''NOK IS ''" and ?bs = "stream_reply ok c"
  let ?n = "6 + length ?res"
  have p: "points_to (buf_ptr b) (bytes_of ''REPLY '' @ bytes_of ?res @ c @ 13 # [10])" "used b = length ?bs"
    using assms(1) by (simp_all add: received_def stream_reply_def)
  have res: "ok \<and> ?res = ''OK IS '' \<or> \<not> ok \<and> ?res = ''NOK IS ''" by simp
  have used: "length c + 14 \<le> used b" "used b < 2 ^ 64"
    using p(2) received_length[OF assms(1)] by (simp_all add: stream_reply_def)
  obtain pb' where pb': "disassebleProtocolTCP b pb = Ok pb'" "pb_type pb' = msg_byte msg_REPLY" "msg_reply_result_bool pb' = ok"
    "bb_start (msg_reply_MsgContents pb') = ptr_add (ptr_add (buf_ptr b) 6) (length ?res)"
    using decodeTCP_reply_blocks[OF p(1) res used(1) used(2) assms(4), of pb] by (auto simp: is_blank_def)
  have len: "length m < 2 ^ 64" using p(1) assms(2,3) by (auto simp: points_to_def buf_ptr_def)
  have "bb_start (msg_reply_MsgContents pb') = Some (overlay m 0 (map Some ?bs), ?n)"
    using pb'(4) assms(2) by (simp add: ptr_add_def buf_ptr_def)
  moreover have "drop ?n (overlay m 0 (map Some ?bs)) = map Some (c @ [13, 10]) @ drop (length ?bs) m"
    using assms(3) by (simp add: overlay_def stream_reply_def)
  moreover have "0 \<notin> set (c @ [13, 10])" using assms(4) by (auto simp: is_blank_def)
  ultimately have "c_string (bb_start (msg_reply_MsgContents pb'))
      = res_bind (string_cells (drop (length ?bs) m)) (\<lambda>stale. Ok ((c @ [13, 10]) @ stale))"
    using string_cells_append[of "c @ [13, 10]"] by (simp add: c_string_def)
  then show ?thesis using pb'(1-3) by auto
qed

definition reply_word :: "bool \<Rightarrow> string" where
  "reply_word ok = (if ok then ''Success: '' else ''Failure: '')"

definition replied_fsm :: "bool \<Rightarrow> fsm_t \<Rightarrow> fsm_t" where
  "replied_fsm ok x = (if ok \<or> x = fsm_JOIN_ATEMPT then fsm_OPEN else fsm_START)"

lemma runs_print_string:
  assumes "state_inv s" "abs_of s = t" "\<not> a_stdoutLocked t" "c_string (bb_start (msg_reply_MsgContents pb)) = Ok bs"
  shows "runs (print_reply word pb) s () (t\<lparr>a_events := a_events t @ [Stderr (bytes_of word @ bs @ [10])]\<rparr>)"
  using runs_safePrintStderr[OF assms(1-3), of "bytes_of word @ bs @ [10]"] assms(4)
  by (simp add: print_reply_def runs_def bind_prog_def lift_res_def)

lemma runs_replyTCP:
  assumes "state_inv s" "abs_of s = t" "\<not> a_stdoutLocked t" "a_fsm t = fsm_AUTH_SENDED \<or> a_fsm t = fsm_JOIN_ATEMPT"
    and "msg_reply_result_bool pb = ok" "c_string (bb_start (msg_reply_MsgContents pb)) = Ok bs"
  shows "runs (steps [replyTCP pb, cond_signal mainCond]) s () (t\<lparr>a_fsm := replied_fsm ok (a_fsm t),
    a_events := a_events t @ [Stderr (bytes_of (reply_word ok) @ bs @ [10]), Signal mainCond]\<rparr>)"
proof -
  obtain s1 where s1: "print_reply (reply_word ok) pb s = Done () s1" "state_inv s1"
    "abs_of s1 = t\<lparr>a_events := a_events t @ [Stderr (bytes_of (reply_word ok) @ bs @ [10])]\<rparr>"
    by (rule runsE[OF runs_print_string[OF assms(1-3,6)]])
  have "replyTCP pb s = setProgramState (replied_fsm ok (a_fsm t)) s1"
    using s1(1) assms(4,5) absD(1)[OF assms(2)] absD(1)[OF s1(3)]
    by (auto simp: replyTCP_def reply_word_def replied_fsm_def bind_prog_def getProgramState_def asks_def ret_def
        setProgramState_def modify_def split: if_splits)
  moreover have "runs (steps [setProgramState (replied_fsm ok (a_fsm t)), cond_signal mainCond]) s1 () (t\<lparr>a_fsm := replied_fsm ok (a_fsm t),
    a_events := a_events t @ [Stderr (bytes_of (reply_word ok) @ bs @ [10]), Signal mainCond]\<rparr>)"
    by (rule runs_steps_Cons[OF runs_setProgramState[OF s1(2,3)]], rule runs_steps_Cons[OF runs_cond_signal], assumption+,
        rule runs_steps_Nil, assumption) simp
  ultimately show ?thesis by (simp add: runs_def bind_prog_def)
qed

lemma replyTCP_crashes:
  assumes "fsm s = fsm_AUTH_SENDED \<or> fsm s = fsm_JOIN_ATEMPT" "c_string (bb_start (msg_reply_MsgContents pb)) = Fault x"
  shows "steps [replyTCP pb, cond_signal mainCond] s = Crashes x"
  using assms by (auto simp: replyTCP_def print_reply_def bind_prog_def getProgramState_def asks_def lift_res_def)

text \<open>The receiver up to the handling of the reply.\<close>

lemma stream_reply_handled:
  assumes "state_inv s" "is_TCP s" "serverAddress (netConfig s) \<noteq> None" "fsm s = fsm_AUTH_SENDED \<or> fsm s = fsm_JOIN_ATEMPT"
    and "data (serverResponse (cleanUp s)) = Some m" "length (stream_reply ok c) \<le> length m" "\<forall>x \<in> set c. \<not> is_blank x"
  obtains b s1 pb' where "state_inv s1" "abs_of s1 = streamed b (abs_of s)" "received b (stream_reply ok c)"
    "receiveOne alloc [] (stream_reply ok c) (pb, mid) s
      = bind_prog (steps [replyTCP pb', cond_signal mainCond]) (\<lambda>_. ret (pb', mid)) s1"
    "msg_reply_result_bool pb' = ok" "c_string (bb_start (msg_reply_MsgContents pb'))
      = res_bind (string_cells (drop (length (stream_reply ok c)) m)) (\<lambda>stale. Ok (c @ [13, 10] @ stale))"
proof -
  note abs = absD[of s, OF refl]
  have "buf_ok (serverResponse (cleanUp s))" by (rule state_inv_bufs(6)[OF assms(1)])
  then have size: "length (stream_reply ok c) \<le> allocated (a_response (abs_of s))"
    using assms(5,6) abs by (simp add: buf_ok_def buffer_wf_def)
  have t: "protocol (a_net (abs_of s)) = prot_TCP" "serverAddress (a_net (abs_of s)) \<noteq> None" "stream_reply ok c \<noteq> []"
    "a_fsm (abs_of s) \<noteq> fsm_START"
    using assms(2-4) abs by (auto simp: stream_reply_def bytes_of_def)
  obtain b s1 where s1: "state_inv s1" "abs_of s1 = streamed b (abs_of s)" "received b (stream_reply ok c)"
    and mem: "data b = map_option (\<lambda>m. overlay m 0 (map Some (stream_reply ok c))) (data (a_response (abs_of s)))"
    and turn: "\<And>pb mid pb'. disassebleProtocolTCP b pb = Ok pb' \<Longrightarrow>
      receiveOne alloc [] (stream_reply ok c) (pb, mid) s = bind_prog (receiverFSM alloc mid pb') (\<lambda>_. ret (pb', mid)) s1"
    by (rule stream_received[where alloc = alloc, OF assms(1) refl t(1-3) size t(4)]) blast
  have "data b = Some (overlay m 0 (map Some (stream_reply ok c)))" using mem assms(5) abs by simp
  from stream_reply_decoded[OF s1(3) this assms(6,7)] obtain pb' where
    pb': "disassebleProtocolTCP b pb = Ok pb'" "pb_type pb' = msg_byte msg_REPLY" "msg_reply_result_bool pb' = ok"
    "c_string (bb_start (msg_reply_MsgContents pb'))
      = res_bind (string_cells (drop (length (stream_reply ok c)) m)) (\<lambda>stale. Ok (c @ [13, 10] @ stale))" by blast
  have ty: "uchar2msgType (pb_type pb') = msg_REPLY" unfolding pb'(2) by (rule uchar2msgType_msg_byte) simp
  have "is_TCP s1" using absD[OF s1(2)] t(1) by (simp add: streamed_def)
  then have "receiverFSM alloc mid pb' s1 = steps [replyTCP pb', cond_signal mainCond] s1"
    using ty by (simp add: receiverFSM_def bind_prog_def ret_def)
  then show thesis
    using that[OF s1 _ pb'(3,4)] turn[OF pb'(1), of mid] by (simp add: bind_prog_def)
qed

text \<open>C14: a reply to AUTH or JOIN received over TCP, its contents being one word. A positive one opens the connection, a
  negative one takes the program back to the start or, after a JOIN, to the open state; the main thread is
  signalled. What is printed is not only the contents: the line end follows, and whatever earlier
  messages left in the buffer behind the received bytes, up to the first zero.\<close>

theorem stream_reply_received:
  assumes "state_inv s" "is_TCP s" "serverAddress (netConfig s) \<noteq> None" "\<not> stdoutMutex (threads s)"
    and "fsm s = fsm_AUTH_SENDED \<or> fsm s = fsm_JOIN_ATEMPT"
    and "data (serverResponse (cleanUp s)) = Some m" "length (stream_reply ok c) \<le> length m" "\<forall>x \<in> set c. \<not> is_blank x"
    and "string_cells (drop (length (stream_reply ok c)) m) = Ok stale"
  shows "\<exists>v' s' b. receiveOne alloc [] (stream_reply ok c) v s = Done v' s' \<and> state_inv s' \<and> received b (stream_reply ok c) \<and>
    abs_of s' = (streamed b (abs_of s))\<lparr>a_fsm := replied_fsm ok (fsm s),
      a_events := events s @ [Stderr (bytes_of (reply_word ok) @ c @ [13, 10] @ stale @ [10]), Signal mainCond]\<rparr>"
proof -
  note abs = absD[of s, OF refl]
  obtain pb mid where v: "v = (pb, mid)" by (cases v)
  obtain b s1 pb' where s1: "state_inv s1" "abs_of s1 = streamed b (abs_of s)" "received b (stream_reply ok c)"
    and turn: "receiveOne alloc [] (stream_reply ok c) (pb, mid) s
      = bind_prog (steps [replyTCP pb', cond_signal mainCond]) (\<lambda>_. ret (pb', mid)) s1"
    and pb': "msg_reply_result_bool pb' = ok" "c_string (bb_start (msg_reply_MsgContents pb')) = Ok (c @ [13, 10] @ stale)"
    by (rule stream_reply_handled[where alloc = alloc and pb = pb and mid = mid, OF assms(1-3,5-8)])
      (use assms(9) in auto)
  have t: "\<not> a_stdoutLocked (streamed b (abs_of s))" "a_fsm (streamed b (abs_of s)) = fsm s" "a_events (streamed b (abs_of s)) = events s"
    using assms(4) abs by (simp_all add: streamed_def)
  obtain s2 where "steps [replyTCP pb', cond_signal mainCond] s1 = Done () s2" "state_inv s2"
    "abs_of s2 = (streamed b (abs_of s))\<lparr>a_fsm := replied_fsm ok (fsm s),
      a_events := events s @ [Stderr (bytes_of (reply_word ok) @ c @ [13, 10] @ stale @ [10]), Signal mainCond]\<rparr>"
    using runs_replyTCP[OF s1(1,2) t(1) _ pb'] assms(5) unfolding t(2,3) runs_def by auto
  then show ?thesis using turn s1(3) unfolding v by (auto simp: bind_prog_def ret_def simp del: steps.simps)
qed

text \<open>C15: a one-word reply that is awaited, received over TCP. If the buffer holds no zero behind the reply, undefined behaviour is all that can follow: the bytes behind the
  received ones are read although they are indeterminate, as they are when the reply is the first message,
  or the end of the buffer is passed.\<close>

theorem stream_reply_unterminated:
  assumes "state_inv s" "is_TCP s" "serverAddress (netConfig s) \<noteq> None"
    and "fsm s = fsm_AUTH_SENDED \<or> fsm s = fsm_JOIN_ATEMPT"
    and "data (serverResponse (cleanUp s)) = Some m" "length (stream_reply ok c) \<le> length m" "\<forall>x \<in> set c. \<not> is_blank x"
    and "Some 0 \<notin> set (drop (length (stream_reply ok c)) m)"
  shows "\<exists>x. x \<in> {Uninit_Read, Out_Of_Bounds} \<and> receiveOne alloc [] (stream_reply ok c) v s = Crashes x"
proof -
  obtain pb mid where v: "v = (pb, mid)" by (cases v)
  have cells: "\<exists>x. x \<in> {Uninit_Read, Out_Of_Bounds} \<and> string_cells cs = Fault x" if "Some 0 \<notin> set cs" for cs
    using that by (induction cs rule: string_cells.induct) auto
  obtain x where x: "x \<in> {Uninit_Read, Out_Of_Bounds}" "string_cells (drop (length (stream_reply ok c)) m) = Fault x"
    using cells[OF assms(8)] by blast
  obtain b s1 pb' where s1: "abs_of s1 = streamed b (abs_of s)"
    and turn: "receiveOne alloc [] (stream_reply ok c) (pb, mid) s
      = bind_prog (steps [replyTCP pb', cond_signal mainCond]) (\<lambda>_. ret (pb', mid)) s1"
    and pb': "c_string (bb_start (msg_reply_MsgContents pb')) = Fault x"
    by (rule stream_reply_handled[where alloc = alloc and pb = pb and mid = mid, OF assms(1-7)]) (use x(2) in auto)
  have "fsm s1 = fsm s" using absD(1)[OF s1] absD(1)[of s, OF refl] by (simp add: streamed_def)
  then have "steps [replyTCP pb', cond_signal mainCond] s1 = Crashes x"
    using assms(4) by (intro replyTCP_crashes pb') simp
  then show ?thesis using turn x(1) unfolding v by (auto simp: bind_prog_def simp del: steps.simps)
qed

text \<open>States in which the reply to an AUTH is awaited over TCP: with a fresh buffer and with one that was zeroed.\<close>

definition stream_auth_state :: "cell \<Rightarrow> ProgramInterface" where
  "stream_auth_state x = stream_state\<lparr>threads := (threads stream_state)\<lparr>fsmState := fsm_AUTH_SENDED\<rparr>,
     cleanUp := (cleanUp stream_state)\<lparr>serverResponse := \<lparr>data = Some (replicate 1500 x), allocated = 1500, used = 0\<rparr>\<rparr>\<rparr>"

lemma stream_auth_state_simps:
  "fsm (stream_auth_state x) = fsm_AUTH_SENDED" "is_TCP (stream_auth_state x)" "serverAddress (netConfig (stream_auth_state x)) \<noteq> None"
  "\<not> stdoutMutex (threads (stream_auth_state x))" "data (serverResponse (cleanUp (stream_auth_state x))) = Some (replicate 1500 x)"
  using stream_state_simps by (simp_all add: stream_auth_state_def)

lemma stream_auth_state_inv: "state_inv (stream_auth_state x)"
  using stream_state_inv by (simp add: state_inv_def stream_auth_state_def buffers_def buf_ok_def buffer_wf_def)

lemma string_cells_zeros: "0 < n \<Longrightarrow> string_cells (replicate n (Some 0)) = Ok []"
  by (cases n) simp_all

theorem stream_reply_received_witness:
  "\<exists>v' s' b. receiveOne grants_small [] (stream_reply True [79, 75]) (sample_msg cmd_NONE, 0) (stream_auth_state (Some 0)) = Done v' s' \<and>
    state_inv s' \<and> received b (stream_reply True [79, 75]) \<and>
    abs_of s' = (streamed b (abs_of (stream_auth_state (Some 0))))\<lparr>a_fsm := replied_fsm True (fsm (stream_auth_state (Some 0))),
      a_events := events (stream_auth_state (Some 0)) @ [Stderr (bytes_of (reply_word True) @ [79, 75] @ [13, 10] @ [] @ [10]),
        Signal mainCond]\<rparr>"
  by (rule stream_reply_received[OF stream_auth_state_inv stream_auth_state_simps(2-4) _ stream_auth_state_simps(5)])
    (simp_all add: stream_auth_state_simps stream_reply_def is_blank_def string_cells_zeros)

theorem stream_reply_unterminated_witness:
  "\<exists>x. x \<in> {Uninit_Read, Out_Of_Bounds} \<and>
    receiveOne grants_small [] (stream_reply True [79, 75]) (sample_msg cmd_NONE, 0) (stream_auth_state None) = Crashes x"
  by (rule stream_reply_unterminated[OF stream_auth_state_inv stream_auth_state_simps(2,3) _ stream_auth_state_simps(5)])
    (simp_all add: stream_auth_state_simps stream_reply_def is_blank_def)

section \<open>Sending\<close>

definition spec_stream :: "abs_state \<Rightarrow> abs_state" where
  "spec_stream t =
     (case a_queue t of
        [] \<Rightarrow> t
      | it # its \<Rightarrow> counted (msgCounter (a_details t) + 1) (t\<lparr>a_queue := its,
          a_events := a_events t @ [Sent (server_address (a_net t)) (the (qi_bytes it))]
            @ (if qi_type it = msg_byte msg_MSG then [Signal mainCond] else [])\<rparr>))"

lemma runs_stream_sent:
  assumes "state_inv s" "abs_of s = t" "a_queue t = it # its" "q_first (sending s) = Some a"
  shows "runs (bind_prog (read_sending (\<lambda>h q. deref h (Some a))) (\<lambda>m.
      steps [if mtype m = msg_byte msg_MSG then cond_signal mainCond else ret (),
             on_sending (\<lambda>h q. queuePopMessage h (Some q))])) s ()
    (t\<lparr>a_queue := its, a_events := a_events t @ (if qi_type it = msg_byte msg_MSG then [Signal mainCond] else [])\<rparr>)"
proof -
  obtain m where m: "cells (memory s) a = Some m" "view m = it"
    by (rule first_message[OF assms(1-3)]) (use assms(4) in auto)
  have read: "runs (read_sending (\<lambda>h q. deref h (Some a))) s m t"
    using m(1) assms(1,2) by (simp add: runs_def read_sending_def lift_res_def deref_def)
  have signal: "runs (if mtype m = msg_byte msg_MSG then cond_signal mainCond else ret ()) s1 ()
      (t\<lparr>a_events := a_events t @ (if qi_type it = msg_byte msg_MSG then [Signal mainCond] else [])\<rparr>)"
    if "state_inv s1" "abs_of s1 = t" for s1
    using runs_cond_signal[OF that] runs_ret[OF that] m(2)
    by (auto simp: view_def intro!: abs_state.equality split: if_splits)
  show ?thesis
    by (rule runs_bind[OF read], rule runs_steps_Cons[OF signal], assumption+, rule runs_steps_Cons[OF runs_pop], assumption+,
        rule runs_steps_Nil, assumption) (use assms(3) in simp)
qed

lemma stream_turn_steps:
  assumes "is_TCP s" "queueIsEmpty (Some (sending s)) = Ok False" "unlockSending s = Done () s1" "lockSending s1 = Done () s2"
    "logicFSM (f # others) s2 = Done (f # others) s2" "queueGetMessage (Some (sending s2)) = Ok (Some a)"
    "modify (set_msgCounter (msgCounter (comDetails s2) + 1)) s2 = Done () s3" "sendFirst sendto (Some a) s3 = Done flags s4"
    "bind_prog (read_sending (\<lambda>h q. deref h (Some a))) (\<lambda>m.
      steps [if mtype m = msg_byte msg_MSG then cond_signal mainCond else ret (),
             on_sending (\<lambda>h q. queuePopMessage h (Some q))]) s4 = Done () s5"
    "unlockSending s5 = Done () s6"
  shows "senderTurn alloc sendto (f # others) s = Done others (f s6)"
  using assms
  by (simp add: senderTurn_def senderTurnWith_def bind_prog_def read_sending_def lift_res_def ret_def modify_def del: logicFSM.simps)

lemma stream_turn:
  assumes "state_inv s" "is_TCP s" "fsm s = fsm_OPEN" "\<not> q_locked (sending s)"
    and "queue_items (memory s) (sending s) = it # its"
    and "uchar2msgType (qi_type it) \<noteq> msg_AUTH" "uchar2msgType (qi_type it) \<noteq> msg_JOIN"
    and "qi_bytes it = Some bs" "sendto (server_address (netConfig s)) bs"
  shows "\<exists>s'. (\<forall>f others. senderTurn alloc sendto (f # others) s = Done others (f s')) \<and> state_inv s' \<and>
    abs_of s' = spec_stream (abs_of s)"
proof -
  note abs = absD[of s, OF refl]
  let ?t = "abs_of s" and ?n = "msgCounter (comDetails s) + 1"
  have q: "a_queue ?t = it # its" and t: "\<not> a_locked ?t" "a_fsm ?t = fsm_OPEN" using assms(3-5) abs by simp_all
  have filled: "queueIsEmpty (Some (sending s)) = Ok False"
    by (rule first_message[OF assms(1) refl q]) (simp add: queueIsEmpty_def)
  obtain s1 where s1: "unlockSending s = Done () s1" "state_inv s1" "abs_of s1 = ?t\<lparr>a_locked := False\<rparr>"
    by (rule runsE[OF runs_locks(2)[OF assms(1) refl]])
  obtain s2 where s2: "lockSending s1 = Done () s2" "state_inv s2" "abs_of s2 = ?t\<lparr>a_locked := True\<rparr>"
    using runsE[OF runs_locks(1)[OF s1(2,3)]] by auto
  have logic: "logicFSM (f # others) s2 = Done (f # others) s2" for f others
    by (rule logicFSM_open[OF s2(2,3) _ _ assms(6,7)]) (use q t in simp_all)
  obtain a where a: "q_first (sending s2) = Some a" "queueGetMessage (Some (sending s2)) = Ok (Some a)"
    by (rule first_message[OF s2(2,3), of it its]) (use q in \<open>simp_all add: queueGetMessage_def\<close>)
  obtain s3 where s3: "modify (set_msgCounter ?n) s2 = Done () s3" "state_inv s3"
    "abs_of s3 = ?t\<lparr>a_locked := True, a_details := (a_details ?t)\<lparr>msgCounter := ?n\<rparr>\<rparr>"
    using runsE[OF runs_set_msgCounter[OF s2(2,3)]] by auto
  have first3: "q_first (sending s3) = Some a" "msgCounter (comDetails s2) + 1 = ?n"
    using s3(1) a(1) absD(7)[OF s2(3)] abs by (auto simp: modify_def set_msgCounter_def)
  obtain s4 where s4: "sendFirst sendto (Some a) s3 = Done (qi_flags it) s4" "state_inv s4"
    "abs_of s4 = ?t\<lparr>a_locked := True, a_details := (a_details ?t)\<lparr>msgCounter := ?n\<rparr>,
      a_events := a_events ?t @ [Sent (server_address (a_net ?t)) bs]\<rparr>"
    using runsE[OF runs_sendFirst[where sendto = sendto, OF s3(2,3) _ first3(1) assms(8)]] q assms(9) abs by auto
  have first4: "q_first (sending s4) = Some a"
    using s4(1) first3(1) by (auto simp: sendFirst_def bind_prog_def read_sending_def lift_res_def asks_def modify_def emit_def
        ret_def errExit_def split: res.splits if_splits)
  let ?t4 = "?t\<lparr>a_locked := True, a_details := (a_details ?t)\<lparr>msgCounter := ?n\<rparr>,
      a_events := a_events ?t @ [Sent (server_address (a_net ?t)) bs]\<rparr>"
  have q4: "a_queue ?t4 = it # its" using q by simp
  have t5: "?t4\<lparr>a_queue := its, a_events := a_events ?t4 @ (if qi_type it = msg_byte msg_MSG then [Signal mainCond] else [])\<rparr>
      = (spec_stream ?t)\<lparr>a_locked := True\<rparr>"
    using q assms(8) abs(7) by (intro abs_state.equality) (simp_all add: spec_stream_def counted_def)
  obtain s5 where s5: "bind_prog (read_sending (\<lambda>h q. deref h (Some a))) (\<lambda>m.
      steps [if mtype m = msg_byte msg_MSG then cond_signal mainCond else ret (),
             on_sending (\<lambda>h q. queuePopMessage h (Some q))]) s4 = Done () s5" "state_inv s5"
    "abs_of s5 = (spec_stream ?t)\<lparr>a_locked := True\<rparr>"
    by (rule runsE[OF runs_eq[OF runs_stream_sent[OF s4(2,3) q4 first4] t5]])
  obtain s6 where s6: "unlockSending s5 = Done () s6" "state_inv s6" "abs_of s6 = (spec_stream ?t)\<lparr>a_locked := False\<rparr>"
    using runsE[OF runs_locks(2)[OF s5(2,3)]] by auto
  have "(spec_stream ?t)\<lparr>a_locked := False\<rparr> = spec_stream ?t"
    using t(1) q by (intro abs_state.equality) (simp_all add: spec_stream_def counted_def)
  moreover have "senderTurn alloc sendto (f # others) s = Done others (f s6)" for f others
    by (rule stream_turn_steps[OF assms(2) filled s1(1) s2(1) logic a(2) _ s4(1) s5(1) s6(1)])
      (use s3(1) first3(2) in simp)
  ultimately show ?thesis using s6(2,3) by auto
qed

text \<open>The messages of a queue as they go over the stream.\<close>

definition streamed_events :: "byte list option \<Rightarrow> qitem list \<Rightarrow> event list" where
  "streamed_events address its = concat (map (\<lambda>it. [Sent address (the (qi_bytes it)), Signal mainCond]) its)"

lemma stream_drains:
  assumes "state_inv s" "abs_of s = t" "protocol (a_net t) = prot_TCP" "a_fsm t = fsm_OPEN" "\<not> a_locked t" "a_queue t = its"
    and "\<And>it. it \<in> set its \<Longrightarrow> qi_type it = msg_byte msg_MSG \<and> qi_bytes it \<noteq> None \<and>
      sendto (server_address (a_net t)) (the (qi_bytes it))"
  shows "\<exists>s'. (\<forall>turns others. protocolSender (length its + turns) alloc sendto (replicate (length its) (\<lambda>s. s) @ others) s
      = protocolSender turns alloc sendto others s') \<and> state_inv s' \<and>
    abs_of s' = counted (msgCounter (a_details t) + of_nat (length its)) (t\<lparr>a_queue := [],
      a_events := a_events t @ streamed_events (server_address (a_net t)) its\<rparr>)"
  using assms
proof (induction its arbitrary: s t)
  case Nil
  have "t = counted (msgCounter (a_details t)) (t\<lparr>a_queue := [], a_events := a_events t @ streamed_events (server_address (a_net t)) []\<rparr>)"
    using Nil.prems(6) by (intro abs_state.equality) (simp_all add: counted_def streamed_events_def)
  then show ?case using Nil.prems(1,2) by auto
next
  case (Cons it its)
  note abs = absD[OF Cons.prems(2)]
  have it: "qi_type it = msg_byte msg_MSG" "qi_bytes it \<noteq> None" "sendto (server_address (a_net t)) (the (qi_bytes it))"
    using Cons.prems(7)[of it] by simp_all
  then obtain bs where bs: "qi_bytes it = Some bs" by blast
  have ty: "uchar2msgType (qi_type it) = msg_MSG" unfolding it(1) by (rule uchar2msgType_msg_byte) simp
  obtain s1 where s1: "\<And>f others. senderTurn alloc sendto (f # others) s = Done others (f s1)" "state_inv s1"
    "abs_of s1 = spec_stream t"
    using stream_turn[of s it its bs sendto alloc] Cons.prems(1-6) it(3) bs ty abs by auto
  have t1: "spec_stream t = counted (msgCounter (a_details t) + 1) (t\<lparr>a_queue := its,
      a_events := a_events t @ streamed_events (server_address (a_net t)) [it]\<rparr>)"
    using Cons.prems(6) it(1) by (simp add: spec_stream_def streamed_events_def)
  obtain s' where s': "protocolSender (length its + turns) alloc sendto (replicate (length its) (\<lambda>s. s) @ others) s1
      = protocolSender turns alloc sendto others s'" "state_inv s'"
    "abs_of s' = counted (msgCounter (a_details (spec_stream t)) + of_nat (length its)) ((spec_stream t)\<lparr>a_queue := [],
      a_events := a_events (spec_stream t) @ streamed_events (server_address (a_net (spec_stream t))) its\<rparr>)" for turns others
    using Cons.IH[OF s1(2,3)] Cons.prems(3-7) unfolding t1 counted_def by auto
  have "abs_of s' = counted (msgCounter (a_details t) + of_nat (length (it # its))) (t\<lparr>a_queue := [],
      a_events := a_events t @ streamed_events (server_address (a_net t)) (it # its)\<rparr>)"
    unfolding s'(3) t1 by (intro abs_state.equality) (simp_all add: counted_def streamed_events_def algebra_simps)
  moreover have "fsm s \<noteq> fsm_END" using Cons.prems(4) abs by simp
  ultimately show ?case using s' s1(1) by (auto simp: bind_prog_def simp del: steps.simps)
qed

text \<open>C9: over an open TCP connection, with only messages of the type MSG queued and nobody acting while the sender waits, the
  sender sends all of them, in their order, unchanged and each once, one per turn of its loop; the main thread is signalled after each, the counter grows with
  every message and the queue is empty at the end. The thread goes on from there with the turns that are left.\<close>

theorem stream_queue_sent:
  assumes "state_inv s" "is_TCP s" "fsm s = fsm_OPEN" "\<not> q_locked (sending s)"
    and "queue_items (memory s) (sending s) = its"
    and "\<forall>it \<in> set its. qi_type it = msg_byte msg_MSG \<and> qi_bytes it \<noteq> None \<and>
      sendto (server_address (netConfig s)) (the (qi_bytes it))"
  shows "\<exists>s'. (\<forall>turns others. protocolSender (length its + turns) alloc sendto (replicate (length its) (\<lambda>s. s) @ others) s
      = protocolSender turns alloc sendto others s') \<and> state_inv s' \<and> fsm s' = fsm_OPEN \<and>
    queue_items (memory s') (sending s') = [] \<and>
    msgCounter (comDetails s') = msgCounter (comDetails s) + of_nat (length its) \<and>
    events s' = events s @ streamed_events (server_address (netConfig s)) its"
proof -
  note abs = absD[of s, OF refl]
  obtain s' where s': "\<forall>turns others. protocolSender (length its + turns) alloc sendto (replicate (length its) (\<lambda>s. s) @ others) s
      = protocolSender turns alloc sendto others s'" "state_inv s'"
    "abs_of s' = counted (msgCounter (a_details (abs_of s)) + of_nat (length its)) ((abs_of s)\<lparr>a_queue := [],
      a_events := a_events (abs_of s) @ streamed_events (server_address (a_net (abs_of s))) its\<rparr>)"
    using stream_drains[OF assms(1) refl, of its sendto alloc] assms(2-6) abs by auto
  then show ?thesis using absD[OF s'(3)] abs assms(3) by (auto simp: counted_def)
qed

theorem stream_queue_sent_witness:
  "\<exists>s'. (\<forall>turns others. protocolSender (Suc 0 + turns) grants_small (\<lambda>_ _. True) (replicate (Suc 0) (\<lambda>s. s) @ others) stream_state
      = protocolSender turns grants_small (\<lambda>_ _. True) others s') \<and> state_inv s' \<and> fsm s' = fsm_OPEN \<and>
    queue_items (memory s') (sending s') = [] \<and>
    msgCounter (comDetails s') = msgCounter (comDetails stream_state) + of_nat (Suc 0) \<and>
    events s' = events stream_state @ streamed_events (server_address (netConfig stream_state)) [view waiting_message]"
proof -
  have "\<not> q_locked (sending stream_state)"
    by (simp add: stream_state_simps) (simp add: waiting_state_def sample_queue_def)
  moreover have "queue_items (memory stream_state) (sending stream_state) = [view waiting_message]"
    by (simp add: stream_state_simps waiting_items)
  ultimately show ?thesis
    using stream_queue_sent[OF stream_state_inv stream_state_simps(2,1), of "[view waiting_message]" "\<lambda>_ _. True" grants_small]
    by (simp add: waiting_message_def sample_message_def view_def)
qed

end
