(* ===== verification/Chat_Typing.thy ===== *)
theory Chat_Typing
  imports Chat_Stream
begin

text \<open>
  The way of a line the user types over UDP: it is read, recognised as a message, assembled, queued, and sent by
  the next turn of the sender.
\<close>

section \<open>Reading the line\<close>

text \<open>Only the sizes that are asked for matter to the reading loop, and these never exceed the final one.\<close>

lemma bufferResize_allocated: "bufferResize alloc b n = Ok b' \<Longrightarrow> allocated b \<le> allocated b' \<and> n \<le> allocated b'"
  by (auto simp: bufferResize_def split: if_splits)

lemma load_loop_allocated: "load_loop alloc b c inp i = Ok (b', r) \<Longrightarrow> allocated b \<le> allocated b'"
proof (induction alloc b c inp i rule: load_loop.induct)
  case (1 alloc b c inp i)
  show ?case
  proof (cases "isEndingCharacter c = 0")
    case True
    then show ?thesis using "1.prems" by (simp add: load_loop.simps[of _ _ c])
  next
    case False
    then obtain b1 b2 where step: "(if data b = None \<or> allocated b \<le> 0 then bufferResize alloc b INITIAL_BUFFER_SIZE
        else if allocated b - 1 < i then bufferResize alloc b (allocated b * 2) else Ok b) = Ok b1"
      "buf_write b1 i c = Ok b2"
      and rest: "load_loop alloc b2 (fst (getc_char inp)) (snd (getc_char inp)) (Suc i) = Ok (b', r)"
      using "1.prems" by (auto simp: load_loop.simps[of _ _ c] res_bind_eq_Ok)
    have "allocated b \<le> allocated b1" using step(1) by (auto dest: bufferResize_allocated split: if_splits)
    moreover have "allocated b1 = allocated b2" using step(2) by (auto simp: buf_write_def split: option.splits if_splits)
    ultimately show ?thesis using "1.IH"[OF False step rest] by simp
  qed
qed

lemma load_loop_granted:
  assumes "load_loop (\<lambda>_. True) b c inp i = Ok (b', r)" "\<And>n. n \<le> allocated b' \<Longrightarrow> alloc n"
  shows "load_loop alloc b c inp i = Ok (b', r)"
  using assms
proof (induction "\<lambda>_ :: nat. True" b c inp i rule: load_loop.induct)
  case (1 b c inp i)
  show ?case
  proof (cases "isEndingCharacter c = 0")
    case True
    then show ?thesis using "1.prems" by (simp add: load_loop.simps[of _ _ c])
  next
    case False
    let ?grow = "\<lambda>alloc. if data b = None \<or> allocated b \<le> 0 then bufferResize alloc b INITIAL_BUFFER_SIZE
        else if allocated b - 1 < i then bufferResize alloc b (allocated b * 2) else Ok b"
    obtain b1 b2 where step: "?grow (\<lambda>_. True) = Ok b1" "buf_write b1 i c = Ok b2"
      and rest: "load_loop (\<lambda>_. True) b2 (fst (getc_char inp)) (snd (getc_char inp)) (Suc i) = Ok (b', r)"
      using "1.prems"(1) False by (auto simp: load_loop.simps[of _ _ c] res_bind_eq_Ok)
    have "allocated b1 = allocated b2" using step(2) by (auto simp: buf_write_def split: option.splits if_splits)
    then have "alloc n" if "bufferResize (\<lambda>_. True) b n = Ok b1" for n
      using bufferResize_allocated[OF that] load_loop_allocated[OF rest] by (intro "1.prems"(2)) simp
    then have "?grow alloc = Ok b1"
      using step(1) by (auto simp: bufferResize_cong_alloc[of alloc _ "\<lambda>_. True"] split: if_splits)
    then show ?thesis
      using "1.hyps"[OF False step rest "1.prems"(2)] False step(2) by (simp add: load_loop.simps[of _ _ c])
  qed
qed

lemma line_read:
  assumes "buffer_wf b" "line \<noteq> []" "roomy alloc" "\<forall>x \<in> set line. isEndingCharacter x \<noteq> 0"
    and "length line < capacity (allocated b) (length line)" "capacity (allocated b) (length line) < 2 ^ 32"
  shows "\<exists>b'. loadBufferFromStdin alloc b False (line @ 10 # rest) = Ok (b', False, rest, length line) \<and>
    input_line (b'\<lparr>used := length line\<rparr>) line"
proof -
  obtain b' where b': "loadBufferFromStdin (\<lambda>_. True) b False (line @ 10 # rest) = Ok (b', False, rest, length line)"
    "points_to (buf_ptr b') (line @ [0])" "allocated b' = capacity (allocated b) (length line)"
    using load_line[OF assms(1) _ _ _ assms(4), of "\<lambda>_. True" 10 "10 # rest" rest False] assms(2,5,6)
    by (auto simp: isEndingCharacter_def)
  then obtain b1 c1 where b1: "load_loop (\<lambda>_. True) b (fst (getc_char (line @ 10 # rest))) (snd (getc_char (line @ 10 # rest))) 0
      = Ok (b1, c1, rest, length line)" "buf_write b1 (length line) 0 = Ok b'"
    by (auto simp: loadBufferFromStdin_def res_bind_eq_Ok Let_def)
  have "allocated b1 = allocated b'" using b1(2) by (auto simp: buf_write_def split: option.splits if_splits)
  then have "load_loop alloc b (fst (getc_char (line @ 10 # rest))) (snd (getc_char (line @ 10 # rest))) 0
      = Ok (b1, c1, rest, length line)"
    by (intro load_loop_granted[OF b1(1)]) (use roomyD(1)[OF assms(3)] b'(3) assms(6) in simp)
  then have "loadBufferFromStdin alloc b False (line @ 10 # rest) = Ok (b', False, rest, length line)"
    using b'(1) b1(1) by (simp add: loadBufferFromStdin_def)
  then show ?thesis using b'(2) by (auto simp: input_line_def buf_ptr_def)
qed

section \<open>Assembling and queueing\<close>

text \<open>A MSG in the queue; its identifier is set when it is sent.\<close>

definition message_item :: "cell \<Rightarrow> cell \<Rightarrow> byte list \<Rightarrow> byte list \<Rightarrow> qitem" where
  "message_item i1 i2 d m = \<lparr>qi_bytes = Some ([Some (msg_byte msg_MSG), i1, i2] @ map Some (d @ 0 # m @ [0])),
     qi_high = 0, qi_low = 0, qi_type = msg_byte msg_MSG, qi_flags = msg_flag_NONE\<rparr>"

text \<open>MSG and ERR with memory granted as it is asked for.\<close>

lemma assemble_named:
  assumes "roomy alloc" "buffer_wf b" "pb_type pb = cmd_byte c" "c = cmd_MSG \<and> ty = msg_MSG \<or> c = cmd_ERR \<and> ty = msg_ERR"
    and "stores (displayName cd) d" "block_of (zeroth pb) m"
    and "first pb = no_block" "second pb = no_block" "third pb = no_block" "length m + length d < 2 ^ 16"
  shows "\<exists>i1 i2 b'. assembleProtocolUDP alloc cd pb b = Ok (True, pb\<lparr>pb_type := msg_byte ty\<rparr>, b', []) \<and>
    buffer_wf b' \<and> contents b' = [Some (msg_byte ty), i1, i2] @ map Some (d @ 0 # m @ [0]) \<and> used b' < 2 ^ 32"
proof -
  have sum: "size_add (sum_of_lengths pb) 10 = length m + 10" "used (displayName cd) = length d"
    using assms(5-10) by (simp_all add: sum_of_lengths_def block_of_def no_block_def size_add_def stores_def)
  have resize: "bufferResize alloc x (length m + 10) = bufferResize (\<lambda>_. True) x (length m + 10)"
    "bufferResize alloc x (size_add (length m + 10) (length d)) = bufferResize (\<lambda>_. True) x (size_add (length m + 10) (length d))" for x
    using roomyD(1)[OF assms(1)] assms(10) by (simp_all add: bufferResize_def size_add_def)
  have ty: "uchar2CommandType (pb_type pb) = c" unfolding assms(3) by (rule uchar2CommandType_cmd_byte)
  have alloc: "assembleProtocolUDP alloc cd pb b = assembleProtocolUDP (\<lambda>_. True) cd pb b"
    using assms(4) unfolding assembleProtocolUDP_def Let_def sum ty by (elim disjE conjE; simp only: cmd_t.case resize)
  obtain b' i1 i2 where b': "assembleProtocolUDP (\<lambda>_. True) cd pb b = Ok (True, pb\<lparr>pb_type := msg_byte ty\<rparr>, b', [])"
    "buffer_wf b'" "contents b' = [Some (msg_byte ty), i1, i2] @ map Some (d @ 0 # m @ [0])"
    using assembleUDP_message_bytes[OF assms(2) _ assms(3,4,5,6), of "\<lambda>_. True"] assms(7-10)
    by (auto simp: no_block_def)
  have "length (contents b') = length d + length m + 5" unfolding b'(3) by simp
  then have "used b' = length d + length m + 5"
    using b'(2) by (auto simp: contents_def buffer_wf_def split: option.splits)
  then show ?thesis using alloc b' assms(10) by auto
qed

lemma assemble_message:
  assumes "roomy alloc" "buffer_wf b" "pb_type pb = cmd_byte cmd_MSG" "stores (displayName cd) d" "block_of (zeroth pb) m"
    and "first pb = no_block" "second pb = no_block" "third pb = no_block" "length m + length d < 2 ^ 16"
  shows "\<exists>i1 i2 b'. assembleProtocolUDP alloc cd pb b = Ok (True, pb\<lparr>pb_type := msg_byte msg_MSG\<rparr>, b', []) \<and>
    buffer_wf b' \<and> new_item b' msg_flag_NONE (msg_byte msg_MSG) = message_item i1 i2 d m \<and> used b' < 2 ^ 32"
  using assemble_named[OF assms(1-3) _ assms(4-9), of msg_MSG] by (auto simp: new_item_def message_item_def)

lemma runs_isEmpty:
  assumes "state_inv s" "abs_of s = t"
  shows "runs (read_sending (\<lambda>h q. queueIsEmpty (Some q))) s (a_queue t = []) t"
proof (cases "a_queue t")
  case Nil
  then show ?thesis using no_message[OF assms Nil] assms by (simp add: runs_def read_sending_def lift_res_def)
next
  case (Cons it its)
  have "queueIsEmpty (Some (sending s)) = Ok False"
    by (rule first_message[OF assms Cons]) (simp add: queueIsEmpty_def)
  then show ?thesis using assms Cons by (simp add: runs_def read_sending_def lift_res_def)
qed

lemma runs_enqueueMessage:
  assumes "state_inv s" "abs_of s = t" "\<not> a_locked t" "buffer_wf (out_get By_Main s)" "grants alloc (out_get By_Main s)"
  shows "runs (enqueueMessage alloc flags ty) s () (t\<lparr>a_queue := a_queue t @ [new_item (out_get By_Main s) flags ty],
    a_events := a_events t @ (if a_queue t = [] \<or> ty = msg_byte msg_AUTH \<or> ty = cmd_byte cmd_AUTH
      then [Signal senderEmptyQueueCond] else [])\<rparr>)"
proof -
  let ?b = "out_get By_Main s" and ?t1 = "t\<lparr>a_locked := True\<rparr>"
  let ?signal = "a_queue t = [] \<or> ty = msg_byte msg_AUTH \<or> ty = cmd_byte cmd_AUTH"
  obtain s1 where s1: "lockSending s = Done () s1" "state_inv s1" "abs_of s1 = ?t1"
    by (rule runsE[OF runs_locks(1)[OF assms(1-3)]])
  have b: "out_get By_Main s1 = ?b" using s1(1) by (auto simp: lock_defs state_defs split: if_splits)
  have s2: "read_sending (\<lambda>h q. queueIsEmpty (Some q)) s1 = Done (a_queue t = []) s1"
    using runs_isEmpty[OF s1(2,3)] by (auto simp: runs_def read_sending_def lift_res_def split: res.splits)
  have signal: "runs (if ?signal then cond_signal senderEmptyQueueCond else ret ()) s3 ()
      (u\<lparr>a_events := a_events u @ (if ?signal then [Signal senderEmptyQueueCond] else [])\<rparr>)"
    if "state_inv s3" "abs_of s3 = u" for s3 and u :: abs_state
    using runs_cond_signal[OF that] runs_ret[OF that] by (auto intro!: abs_state.equality split: if_splits)
  have "runs (steps [on_sending (\<lambda>h q. queueAddMessage alloc h (Some q) ?b flags ty),
      if ?signal then cond_signal senderEmptyQueueCond else ret (), unlockSending]) s1 ()
    (t\<lparr>a_queue := a_queue t @ [new_item ?b flags ty],
       a_events := a_events t @ (if ?signal then [Signal senderEmptyQueueCond] else [])\<rparr>)"
    by (rule runs_steps_Cons[OF runs_add[OF s1(2,3) assms(4,5)]], rule runs_steps_Cons[OF signal], assumption+,
        rule runs_steps_Cons[OF runs_locks(2)], assumption+, rule runs_steps_Nil, assumption)
      (use assms(3) in \<open>auto intro!: abs_state.equality\<close>)
  then show ?thesis
    using s1(1) s2 b unfolding runs_def enqueueMessage_def
    by (simp add: bind_prog_def asks_def del: steps.simps out_get.simps)
qed

text \<open>What follows when a command was let through and its message assembled.\<close>

lemma assembled_queued:
  assumes "filterCommandsByFSM alloc pb flags s = Done (True, flags') s0" "state_inv s0" "roomy alloc" "is_UDP s0"
    and "\<not> q_locked (sending s0)" "mothers v = f # others" "pb_ok pb"
    and "assembleProtocolUDP alloc (comDetails s0) pb (out_get By_Main s0) = Ok (True, pb\<lparr>pb_type := msg_byte ty\<rparr>, b, [])"
    and "buffer_wf b" "used b < 2 ^ 32" "msg_byte ty \<noteq> cmd_byte cmd_EXIT" "ty \<noteq> msg_BYE"
  shows "\<exists>s2. sendCommand alloc pb flags v s = Done (v\<lparr>mBlocks := pb\<lparr>pb_type := msg_byte ty\<rparr>, mothers := others\<rparr>) (f s2) \<and>
    state_inv s2 \<and> abs_of s2 = (abs_of s0)\<lparr>a_queue := queue_items (memory s0) (sending s0) @ [new_item b flags' (msg_byte ty)],
      a_events := events s0 @ (if queue_items (memory s0) (sending s0) = [] \<or> msg_byte ty = msg_byte msg_AUTH
        \<or> msg_byte ty = cmd_byte cmd_AUTH then [Signal senderEmptyQueueCond] else [])\<rparr>"
proof -
  note abs = absD[of s0, OF refl]
  let ?pb = "pb\<lparr>pb_type := msg_byte ty\<rparr>" and ?s1 = "out_set By_Main b s0"
  have asm: "assemble (assembleProtocolUDP alloc) By_Main pb s0 = Done (True, ?pb) ?s1"
    using assms(8) by (simp add: assemble_def bind_prog_run lift_res_run modify_run ret_run)
  then have variant: "assemble_variant alloc By_Main pb s0 = Done (Some (True, ?pb)) ?s1"
    using assms(4) by (simp add: assemble_variant_def bind_prog_run ret_run)
  have inv: "state_inv ?s1"
    using keepsD[OF keeps_assembleUDP[OF roomyD(2)[OF assms(3)] assms(7)] assms(2)] asm by (metis ensures.simps(1))
  have out: "out_get By_Main ?s1 = b" "abs_of ?s1 = abs_of s0" by (simp_all only: abs_out_set)
  obtain s2 where s2: "enqueueMessage alloc flags' (msg_byte ty) ?s1 = Done () s2" "state_inv s2"
    "abs_of s2 = (abs_of s0)\<lparr>a_queue := queue_items (memory s0) (sending s0) @ [new_item b flags' (msg_byte ty)],
      a_events := events s0 @ (if queue_items (memory s0) (sending s0) = [] \<or> msg_byte ty = msg_byte msg_AUTH
        \<or> msg_byte ty = cmd_byte cmd_AUTH then [Signal senderEmptyQueueCond] else [])\<rparr>"
    using runs_enqueueMessage[OF inv out(2), of alloc flags' "msg_byte ty"] roomy_grants[OF assms(3,10)] out(1) assms(5,9) abs
    unfolding runs_def by fastforce
  have "msg_byte ty \<noteq> msg_byte msg_BYE" using assms(12) by (cases ty) simp_all
  then have "sendCommand alloc pb flags v s = Done (v\<lparr>mBlocks := ?pb, mothers := others\<rparr>) (f s2)"
    using assms(1,6,11) variant s2(1) by (simp add: sendCommand_def bind_prog_run ret_run Let_def)
  then show ?thesis using s2(2,3) by blast
qed

text \<open>The part of a turn of the main thread that follows the recognition of a message.\<close>

lemma message_queued:
  assumes "state_inv s" "roomy alloc" "is_UDP s" "fsm s = fsm_OPEN" "\<not> q_locked (sending s)" "mothers v = f # others"
    and "pb_ok pb" "pb_type pb = cmd_byte cmd_MSG" "stores (displayName (comDetails s)) d" "block_of (zeroth pb) m"
    and "first pb = no_block" "second pb = no_block" "third pb = no_block" "length m + length d < 2 ^ 16"
  shows "\<exists>v' s' i1 i2. sendCommand alloc pb msg_flag_NONE v s = Done v' (f s') \<and> stdin v' = stdin v \<and>
    eofDetected v' = eofDetected v \<and> mothers v' = others \<and> state_inv s' \<and>
    abs_of s' = (abs_of s)\<lparr>a_queue := queue_items (memory s) (sending s) @ [message_item i1 i2 d m],
      a_events := events s @ (if queue_items (memory s) (sending s) = [] then [Signal senderEmptyQueueCond] else [])\<rparr>"
proof -
  have ty: "uchar2CommandType (pb_type pb) = cmd_MSG" unfolding assms(8) by (rule uchar2CommandType_cmd_byte)
  have filter: "filterCommandsByFSM alloc pb msg_flag_NONE s = Done (True, msg_flag_NONE) s"
    using assms(4) ty by (simp add: filterCommandsByFSM_def Let_def bind_prog_def getProgramState_def asks_def ret_def)
  obtain i1 i2 b where b: "assembleProtocolUDP alloc (comDetails s) pb (out_get By_Main s)
      = Ok (True, pb\<lparr>pb_type := msg_byte msg_MSG\<rparr>, b, [])" "buffer_wf b" "used b < 2 ^ 32"
    "new_item b msg_flag_NONE (msg_byte msg_MSG) = message_item i1 i2 d m"
    using assemble_message[OF assms(2) state_inv_bufs(2)[OF assms(1), of By_Main] assms(8-14)] by metis
  show ?thesis
    using assembled_queued[OF filter assms(1-3,5-7) b(1-3)] b(4) by fastforce
qed

section \<open>From the keyboard to the wire\<close>

lemma runs_setClientInput:
  assumes "state_inv s" "abs_of s = t" "buf_ok b"
  shows "runs (setClientInput b) s () t"
  using keepsD[OF keeps_setClientInput[OF assms(3)] assms(1)] assms(2)
  by (auto simp: runs_def setClientInput_def modify_def abs_of_def)

lemma allowed_no_end: "allowed ToW_MessageContent x \<Longrightarrow> isEndingCharacter x \<noteq> 0"
  by (auto simp: allowedCharsInMessage_def isEndingCharacter_def)

text \<open>Reading and recognising the line, for every kind of command.\<close>

lemma line_recognised:
  assumes "state_inv s" "roomy alloc" "\<not> eofDetected v" "stdin v = line @ 10 # rest"
    and "line \<noteq> []" "\<forall>x \<in> set line. isEndingCharacter x \<noteq> 0"
    and "length line < capacity (allocated (clientInput (cleanUp s))) (length line)"
    and "capacity (allocated (clientInput (cleanUp s))) (length line) < 2 ^ 32"
    and "\<And>b. input_line b line \<Longrightarrow>
      \<exists>pb. userInputToCmds b (mBlocks v) msg_flag_NONE = Ok (True, pb, flags, []) \<and> pb_type pb = cmd_byte c \<and> P pb"
    and "c \<noteq> cmd_NONE"
  shows "\<exists>s1 pb. commandTurn alloc v s = sendCommand alloc pb flags (v\<lparr>eofDetected := False, stdin := rest\<rparr>) s1 \<and>
    state_inv s1 \<and> abs_of s1 = abs_of s \<and> pb_ok pb \<and> pb_type pb = cmd_byte c \<and> P pb"
proof -
  let ?b = "clientInput (cleanUp s)"
  have ok: "buf_ok ?b" by (rule state_inv_bufs(5)[OF assms(1)])
  then obtain b' where b': "loadBufferFromStdin alloc ?b False (line @ 10 # rest) = Ok (b', False, rest, length line)"
    "input_line (b'\<lparr>used := length line\<rparr>) line"
    using line_read[OF _ assms(5,2,6-8)] by (auto simp: buf_ok_def)
  let ?b' = "b'\<lparr>used := length line\<rparr>"
  have ok': "buf_ok ?b'" "data ?b' \<noteq> None"
    using loadBufferFromStdin_keeps[OF roomyD(2)[OF assms(2)] ok b'(1)] by simp_all
  obtain s1 where s1: "setClientInput ?b' s = Done () s1" "state_inv s1" "abs_of s1 = abs_of s"
    by (rule runsE[OF runs_setClientInput[OF assms(1) refl ok'(1)]])
  obtain pb where pb: "userInputToCmds ?b' (mBlocks v) msg_flag_NONE = Ok (True, pb, flags, [])" "pb_type pb = cmd_byte c" "P pb"
    using assms(9)[OF b'(2)] by blast
  have "uchar2CommandType (pb_type pb) = c" unfolding pb(2) by (rule uchar2CommandType_cmd_byte)
  then have "pb_ok pb" using userInputToCmds_pb_ok[OF ok' pb(1)] assms(10) by simp
  moreover have "commandTurn alloc v s = sendCommand alloc pb flags (v\<lparr>eofDetected := False, stdin := rest\<rparr>) s1"
    using assms(3,4) b'(1) s1(1) pb(1) by (simp add: commandTurn_def bind_prog_run lift_res_run ret_run)
  ultimately show ?thesis using s1(2,3) pb(2,3) by blast
qed

lemma line_queued:
  assumes "state_inv s" "roomy alloc" "is_UDP s" "fsm s = fsm_OPEN" "\<not> q_locked (sending s)"
    and "\<not> eofDetected v" "stdin v = line @ 10 # rest" "mothers v = f # others"
    and "hd line \<noteq> 47" "\<not> is_blank (hd line)" "valid_word ToW_MessageContent 14000 line"
    and "length line < capacity (allocated (clientInput (cleanUp s))) (length line)"
    and "capacity (allocated (clientInput (cleanUp s))) (length line) < 2 ^ 32"
    and "stores (displayName (comDetails s)) d" "length d < 2 ^ 15"
  shows "\<exists>v' s' i1 i2. commandTurn alloc v s = Done v' (f s') \<and> stdin v' = rest \<and> \<not> eofDetected v' \<and> mothers v' = others \<and>
    state_inv s' \<and> abs_of s' = (abs_of s)\<lparr>a_queue := queue_items (memory s) (sending s) @ [message_item i1 i2 d line],
      a_events := events s @ (if queue_items (memory s) (sending s) = [] then [Signal senderEmptyQueueCond] else [])\<rparr>"
proof -
  let ?P = "\<lambda>pb. block_of (zeroth pb) line \<and> first pb = no_block \<and> second pb = no_block \<and> third pb = no_block"
  have line: "line \<noteq> []" "length line \<le> 14000" "\<forall>x \<in> set line. isEndingCharacter x \<noteq> 0"
    using assms(11) allowed_no_end by (auto simp: valid_word_def)
  have "\<exists>pb. userInputToCmds b (mBlocks v) msg_flag_NONE = Ok (True, pb, msg_flag_NONE, []) \<and> pb_type pb = cmd_byte cmd_MSG \<and> ?P pb"
    if "input_line b line" for b
    using dispatch_message[OF that line(1) assms(9-11)] by blast
  from line_recognised[where P = ?P, OF assms(1,2,6,7) line(1,3) assms(12,13) this] obtain s1 pb where
    turn: "commandTurn alloc v s = sendCommand alloc pb msg_flag_NONE (v\<lparr>eofDetected := False, stdin := rest\<rparr>) s1"
    and s1: "state_inv s1" "abs_of s1 = abs_of s" and pb: "pb_ok pb" "pb_type pb = cmd_byte cmd_MSG" "?P pb" by blast
  have same: "queue_items (memory s1) (sending s1) = queue_items (memory s) (sending s)" "events s1 = events s"
    "is_UDP s1" "fsm s1 = fsm_OPEN" "\<not> q_locked (sending s1)" "stores (displayName (comDetails s1)) d"
    using absD[OF s1(2)] absD[of s, OF refl] assms(3-5,14) by simp_all
  have "length line + length d < 2 ^ 16" using line(2) assms(15) by simp
  with message_queued[OF s1(1) assms(2) same(3-5) _ pb(1,2) same(6), of "v\<lparr>eofDetected := False, stdin := rest\<rparr>" f others line]
  show ?thesis using pb(3) assms(8) turn unfolding same(1,2) s1(2) by fastforce
qed

lemma labelled_message:
  "breakU16IntToBytes n = (high, low) \<Longrightarrow> labelled n (message_item i1 i2 d m) = message_item (Some low) (Some high) d m"
  by (simp add: labelled_def message_item_def)

text \<open>C6: a line the user types while the connection is open over UDP and nothing else waits to be sent. The turn of
  the main thread reads exactly this line, recognises it as a message, queues it and signals the sender;
  the next turn of the sender sends exactly the datagram of the protocol, with the counter as identifier,
  the display name and the line, to the address of the server, and keeps it until it is confirmed.\<close>

theorem typed_line_sent:
  assumes "state_inv s" "roomy alloc" "is_UDP s" "fsm s = fsm_OPEN" "\<not> q_locked (sending s)"
    and "queue_items (memory s) (sending s) = []"
    and "\<not> eofDetected v" "stdin v = line @ 10 # rest" "mothers v = f # others"
    and "hd line \<noteq> 47" "\<not> is_blank (hd line)" "valid_word ToW_MessageContent 14000 line"
    and "length line < capacity (allocated (clientInput (cleanUp s))) (length line)"
    and "capacity (allocated (clientInput (cleanUp s))) (length line) < 2 ^ 32"
    and "stores (displayName (comDetails s)) d" "length d < 2 ^ 15"
    and "breakU16IntToBytes (msgCounter (comDetails s)) = (high, low)"
    and "sendto (server_address (netConfig s)) (map Some (msg_byte msg_MSG # low # high # d @ 0 # line @ [0]))"
  shows "\<exists>v' s1 s2. commandTurn alloc v s = Done v' (f s1) \<and> stdin v' = rest \<and> mothers v' = others \<and>
    senderTurn alloc sendto (g # others') s1 = Done others' (g s2) \<and> state_inv s2 \<and>
    abs_of s2 = (abs_of s)\<lparr>a_queue := [(message_item (Some low) (Some high) d line)\<lparr>qi_high := 1\<rparr>],
      a_events := events s @ [Signal senderEmptyQueueCond,
        Sent (server_address (netConfig s)) (map Some (msg_byte msg_MSG # low # high # d @ 0 # line @ [0]))]\<rparr>"
proof -
  note abs = absD[of s, OF refl]
  let ?bytes = "map Some (msg_byte msg_MSG # low # high # d @ 0 # line @ [0])" and ?e = "events s @ [Signal senderEmptyQueueCond]"
  obtain v' s1 i1 i2 where s1: "commandTurn alloc v s = Done v' (f s1)" "stdin v' = rest" "mothers v' = others" "state_inv s1"
    and t1: "abs_of s1 = (abs_of s)\<lparr>a_queue := [message_item i1 i2 d line], a_events := ?e\<rparr>"
    using line_queued[OF assms(1-5,7-16)] assms(6) by auto
  note abs1 = absD[OF t1]
  let ?it = "message_item i1 i2 d line"
  have it: "labelled (msgCounter (comDetails s1)) ?it = message_item (Some low) (Some high) d line"
    using labelled_message[OF assms(17)] abs1(7) abs(7) by simp
  have ty: "uchar2msgType (qi_type ?it) = msg_MSG"
    unfolding message_item_def qitem.select_convs by (rule uchar2msgType_msg_byte) simp
  have q: "queue_items (memory s1) (sending s1) = [?it]" using abs1(2) by simp
  then have drop: "dropWhile finished (queue_items (memory s1) (sending s1)) = [?it]"
    by (simp add: message_item_def finished_def)
  have "\<exists>s2. senderTurn alloc sendto (g # others') s1 = Done others' (g s2) \<and> state_inv s2 \<and> abs_of s2 = spec_send (abs_of s1)"
  proof (rule open_sends[where sendto = sendto, OF s1(4) _ _ _ _ drop])
    show "is_UDP s1" "\<not> q_locked (sending s1)" "fsm s1 = fsm_OPEN" using abs1 abs assms(3-5) by simp_all
    show "list_all (in_time (abs_of s1)) (queue_items (memory s1) (sending s1))"
      unfolding q by (simp add: in_time_def message_item_def)
    show "qi_bytes ?it = Some ([Some (msg_byte msg_MSG), i1, i2] @ map Some (d @ 0 # line @ [0]))" by (simp add: message_item_def)
    show "sendto (server_address (netConfig s1)) (the (qi_bytes (labelled (msgCounter (comDetails s1)) ?it)))"
      unfolding it using assms(18) abs1(8) abs(8) by (simp add: message_item_def)
  qed (simp_all add: ty)
  moreover have "spec_send (abs_of s1) = (abs_of s)\<lparr>
      a_queue := [(message_item (Some low) (Some high) d line)\<lparr>qi_high := 1\<rparr>],
      a_events := ?e @ [Sent (server_address (netConfig s)) ?bytes]\<rparr>"
    using drop[unfolded abs1(2)] it[unfolded abs1(7)] abs
    by (intro abs_state.equality) (simp_all add: spec_send_def t1 Let_def sent_once_def message_item_def)
  ultimately show ?thesis using s1 by auto
qed

text \<open>An open connection of a user with the name \<open>B\<close>, who types \<open>hi\<close>.\<close>

definition typing_state :: ProgramInterface where
  "typing_state = open_state\<lparr>comDetails := (comDetails open_state)\<lparr>displayName := sample_buffer [66]\<rparr>\<rparr>"

lemma typing_state_simps:
  "fsm typing_state = fsm_OPEN" "is_UDP typing_state" "sending typing_state = queueInit" "memory typing_state = memory open_state"
  "confirmedMsgs typing_state = queueInit" "clientInput (cleanUp typing_state) = bufferInit"
  "displayName (comDetails typing_state) = sample_buffer [66]" "msgCounter (comDetails typing_state) = 0"
  by (simp_all add: typing_state_def) (simp_all add: open_state_def initial_interface_def)

lemma typing_state_inv: "state_inv typing_state"
  using open_state_inv sample_buffer_wf[of "[66]"]
  by (simp add: typing_state_def state_inv_def buffers_def buf_ok_def sample_buffer_def)

theorem typed_line_sent_witness:
  "\<exists>v' s1 s2. commandTurn grants_small (sample_input\<lparr>stdin := [104, 105] @ 10 # [], mothers := [\<lambda>s. s]\<rparr>) typing_state = Done v' s1 \<and>
    stdin v' = [] \<and> senderTurn grants_small (\<lambda>_ _. True) [\<lambda>s. s] s1 = Done [] s2 \<and> state_inv s2 \<and>
    events s2 = events typing_state @ [Signal senderEmptyQueueCond,
      Sent (server_address (netConfig typing_state)) (map Some [msg_byte msg_MSG, 0, 0, 66, 0, 104, 105, 0])]"
proof -
  let ?v = "sample_input\<lparr>stdin := [104, 105] @ 10 # [], mothers := [\<lambda>s. s]\<rparr>"
  have "\<exists>v' s1 s2. commandTurn grants_small ?v typing_state = Done v' ((\<lambda>s. s) s1) \<and> stdin v' = [] \<and> mothers v' = [] \<and>
    senderTurn grants_small (\<lambda>_ _. True) ((\<lambda>s. s) # []) s1 = Done [] ((\<lambda>s. s) s2) \<and> state_inv s2 \<and>
    abs_of s2 = (abs_of typing_state)\<lparr>a_queue := [(message_item (Some 0) (Some 0) [66] [104, 105])\<lparr>qi_high := 1\<rparr>],
      a_events := events typing_state @ [Signal senderEmptyQueueCond,
        Sent (server_address (netConfig typing_state)) (map Some (msg_byte msg_MSG # 0 # 0 # [66] @ 0 # [104, 105] @ [0]))]\<rparr>"
    by (rule typed_line_sent[OF typing_state_inv roomy_grants_small])
      (simp_all add: typing_state_simps queueInit_items sample_input_def is_blank_def valid_word_def allowedCharsInMessage_def
        bufferInit_def INITIAL_BUFFER_SIZE_def stores_def sample_buffer_def points_to_def buf_ptr_def breakU16IntToBytes_def,
       simp_all add: queueInit_def)
  then show ?thesis by (auto dest: absD(10))
qed

end
