(* ===== verification/Chat_Login.thy ===== *)
theory Chat_Login
  imports Chat_Typing
begin

text \<open>
  The authentication over UDP as a whole, from the \<open>/auth\<close> line the user types to the open connection: the turn of
  the main thread, the turn of the sender that sends the AUTH, the two datagrams of the server and the
  turn of the sender that confirms the reply.
\<close>

section \<open>Storing the display name\<close>

lemma name_stored:
  assumes "buffer_wf b" "roomy alloc" "block_of blk d" "length d < 2 ^ 16"
  shows "\<exists>b'. store_name alloc blk b = Ok b' \<and> stores b' d"
proof -
  obtain src off where src: "bb_start blk = Some (src, off)" using assms(3) by (auto simp: block_of_def points_to_def split: option.splits)
  have bytes: "off + length d \<le> length src" "take (length d) (drop off src) = map Some d" "bb_len blk = length d"
    using assms(3) src by (simp_all add: block_of_def points_to_def)
  have n: "size_add (bb_len blk) 1 = Suc (length d)" using bytes(3) assms(4) by (simp add: size_add_def)
  have "alloc (Suc (length d))" using roomyD(1)[OF assms(2)] assms(4) by simp
  then obtain b1 where b1: "bufferResize alloc b (Suc (length d)) = Ok b1" "buffer_wf b1"
    "allocated b1 = max (allocated b) (Suc (length d))"
    by (rule bufferResize_ok[OF assms(1)]) (use assms(4) in auto)
  then obtain m where m: "data b1 = Some m" "length m = allocated b1" "length m < 2 ^ 64" "length d < length m"
    by (auto simp: buffer_wf_def split: option.splits)
  have "copy_bytes m 0 src off (length d) = Ok (overlay m 0 (map Some d))"
    using bytes m(4) by (simp add: copy_bytes_ok)
  then have "store_name alloc blk b = Ok (b1\<lparr>data := Some ((overlay m 0 (map Some d))[length d := Some 0]), used := length d\<rparr>)"
    using b1(1) n m src bytes(3) by (simp add: store_name_def stringReplace_def buf_write_def overlay_def)
  moreover have "stores (b1\<lparr>data := Some ((overlay m 0 (map Some d))[length d := Some 0]), used := length d\<rparr>) d"
    using m(3,4) by (simp add: stores_def points_to_def buf_ptr_def overlay_def take_update_swap list_update_beyond)
  ultimately show ?thesis by blast
qed

section \<open>Assembling the AUTH\<close>

text \<open>An AUTH in the queue; its identifier is set when it is sent.\<close>

definition auth_item :: "cell \<Rightarrow> cell \<Rightarrow> byte list \<Rightarrow> byte list \<Rightarrow> byte list \<Rightarrow> qitem" where
  "auth_item i1 i2 u d secret = \<lparr>qi_bytes = Some ([Some (msg_byte msg_AUTH), i1, i2] @ map Some (u @ 0 # d @ 0 # secret @ [0])),
     qi_high = 0, qi_low = 0, qi_type = msg_byte msg_AUTH, qi_flags = msg_flag_AUTH\<rparr>"

lemma assemble_auth:
  assumes "roomy alloc" "buffer_wf b" "pb_type pb = cmd_byte cmd_AUTH"
    and "block_of (cmd_auth_username pb) u" "block_of (cmd_auth_displayname pb) d" "block_of (cmd_auth_secret pb) secret"
    and "bb_len (zeroth pb) + length u + length secret + length d < 2 ^ 16"
  shows "\<exists>i1 i2 b'. assembleProtocolUDP alloc cd pb b = Ok (True, pb\<lparr>pb_type := msg_byte msg_AUTH\<rparr>, b', []) \<and>
    buffer_wf b' \<and> new_item b' msg_flag_AUTH (msg_byte msg_AUTH) = auth_item i1 i2 u d secret \<and> used b' < 2 ^ 32"
proof -
  let ?n = "bb_len (zeroth pb) + length u + length secret + length d + 10"
  have sum: "size_add (sum_of_lengths pb) 10 = ?n"
    using assms(4-7) by (simp add: sum_of_lengths_def block_of_def size_add_def)
  have resize: "bufferResize alloc x ?n = bufferResize (\<lambda>_. True) x ?n" for x
    using roomyD(1)[OF assms(1)] assms(7) by (simp add: bufferResize_def)
  have ty: "uchar2CommandType (pb_type pb) = cmd_AUTH" unfolding assms(3) by (rule uchar2CommandType_cmd_byte)
  have alloc: "assembleProtocolUDP alloc cd pb b = assembleProtocolUDP (\<lambda>_. True) cd pb b"
    unfolding assembleProtocolUDP_def Let_def sum ty cmd_t.case resize ..
  obtain b' i1 i2 where b': "assembleProtocolUDP (\<lambda>_. True) cd pb b = Ok (True, pb\<lparr>pb_type := msg_byte msg_AUTH\<rparr>, b', [])"
    "buffer_wf b'" "contents b' = [Some (msg_byte msg_AUTH), i1, i2] @ map Some (u @ 0 # d @ 0 # secret @ [0])"
    using assembleUDP_auth_bytes[OF assms(2) _ assms(3-6), of "\<lambda>_. True" cd] assms(7) by auto
  have "length (contents b') = length u + length d + length secret + 6" unfolding b'(3) by simp
  then have "used b' = length u + length d + length secret + 6"
    using b'(2) by (auto simp: contents_def buffer_wf_def split: option.splits)
  then show ?thesis using alloc b' assms(7) by (auto simp: new_item_def auth_item_def)
qed

text \<open>The part of a turn of the main thread that follows the recognition of an \<open>/auth\<close>.\<close>

lemma auth_filtered:
  assumes "state_inv s" "roomy alloc" "fsm s = fsm_START"
    and "pb_type pb = cmd_byte cmd_AUTH" "block_of (cmd_auth_displayname pb) d" "length d < 2 ^ 16"
  shows "\<exists>s1. filterCommandsByFSM alloc pb flags s = Done (True, msg_flag_AUTH) s1 \<and> state_inv s1 \<and>
    stores (displayName (comDetails s1)) d \<and> abs_of s1 = (abs_of s)\<lparr>a_details := comDetails s1, a_fsm := fsm_AUTH_W82_BE_SENDED\<rparr> \<and>
    msgCounter (comDetails s1) = msgCounter (comDetails s)"
proof -
  obtain b where b: "store_name alloc (cmd_auth_displayname pb) (displayName (comDetails s)) = Ok b" "stores b d"
    using name_stored[OF _ assms(2,5,6)] state_inv_bufs(3)[OF assms(1)] by (auto simp: buf_ok_def)
  let ?s1 = "s\<lparr>comDetails := (comDetails s)\<lparr>displayName := b\<rparr>\<rparr>"
  have name: "store_displayName alloc (cmd_auth_displayname pb) s = Done () ?s1"
    using b(1) by (simp add: store_displayName_def bind_prog_def lift_res_def modify_def)
  have inv: "state_inv ?s1"
    using keepsD[OF keeps_store_displayName[OF roomyD(2)[OF assms(2)]] assms(1)] name by (metis ensures.simps(1))
  have "abs_of ?s1 = (abs_of s)\<lparr>a_details := (comDetails s)\<lparr>displayName := b\<rparr>\<rparr>" by (simp add: abs_of_def)
  from runsE[OF runs_setProgramState[OF inv this, of fsm_AUTH_W82_BE_SENDED]] obtain s2 where s2:
    "setProgramState fsm_AUTH_W82_BE_SENDED ?s1 = Done () s2" "state_inv s2"
    "abs_of s2 = (abs_of s)\<lparr>a_details := (comDetails s)\<lparr>displayName := b\<rparr>, a_fsm := fsm_AUTH_W82_BE_SENDED\<rparr>" by auto
  have ty: "uchar2CommandType (pb_type pb) = cmd_AUTH" unfolding assms(4) by (rule uchar2CommandType_cmd_byte)
  have "filterCommandsByFSM alloc pb flags s = Done (True, msg_flag_AUTH) s2"
    using name s2(1) ty assms(3)
    by (simp add: filterCommandsByFSM_def Let_def bind_prog_def getProgramState_def asks_def ret_def)
  then show ?thesis using s2 b(2) absD(7)[OF s2(3)] by simp
qed

lemma auth_queued:
  assumes "state_inv s" "roomy alloc" "is_UDP s" "fsm s = fsm_START" "\<not> q_locked (sending s)" "mothers v = f # others"
    and "pb_ok pb" "pb_type pb = cmd_byte cmd_AUTH"
    and "block_of (cmd_auth_username pb) u" "block_of (cmd_auth_displayname pb) d" "block_of (cmd_auth_secret pb) secret"
    and "bb_len (zeroth pb) + length u + length secret + length d < 2 ^ 16"
  shows "\<exists>v' s' i1 i2. sendCommand alloc pb flags v s = Done v' (f s') \<and> stdin v' = stdin v \<and> mothers v' = others \<and>
    state_inv s' \<and> stores (displayName (comDetails s')) d \<and> msgCounter (comDetails s') = msgCounter (comDetails s) \<and>
    abs_of s' = (abs_of s)\<lparr>a_details := comDetails s', a_fsm := fsm_AUTH_W82_BE_SENDED,
      a_queue := queue_items (memory s) (sending s) @ [auth_item i1 i2 u d secret],
      a_events := events s @ [Signal senderEmptyQueueCond]\<rparr>"
proof -
  note abs = absD[of s, OF refl]
  have d: "length d < 2 ^ 16" using assms(12) by simp
  obtain s0 where s0: "filterCommandsByFSM alloc pb flags s = Done (True, msg_flag_AUTH) s0" "state_inv s0"
    "stores (displayName (comDetails s0)) d" "msgCounter (comDetails s0) = msgCounter (comDetails s)"
    and t0: "abs_of s0 = (abs_of s)\<lparr>a_details := comDetails s0, a_fsm := fsm_AUTH_W82_BE_SENDED\<rparr>"
    using auth_filtered[OF assms(1,2,4,8,10) d] by blast
  note abs0 = absD[OF t0]
  obtain i1 i2 b where b: "assembleProtocolUDP alloc (comDetails s0) pb (out_get By_Main s0)
      = Ok (True, pb\<lparr>pb_type := msg_byte msg_AUTH\<rparr>, b, [])" "buffer_wf b" "used b < 2 ^ 32"
    "new_item b msg_flag_AUTH (msg_byte msg_AUTH) = auth_item i1 i2 u d secret"
    using assemble_auth[OF assms(2) state_inv_bufs(2)[OF s0(2), of By_Main] assms(8-12)] by metis
  have "is_UDP s0" "\<not> q_locked (sending s0)" using abs0 abs assms(3,5) by simp_all
  from assembled_queued[OF s0(1,2) assms(2) this assms(6,7) b(1-3)] obtain s2 where
    s2: "sendCommand alloc pb flags v s = Done (v\<lparr>mBlocks := pb\<lparr>pb_type := msg_byte msg_AUTH\<rparr>, mothers := others\<rparr>) (f s2)"
    "state_inv s2" "abs_of s2 = (abs_of s0)\<lparr>a_queue := queue_items (memory s0) (sending s0) @ [auth_item i1 i2 u d secret],
      a_events := events s0 @ [Signal senderEmptyQueueCond]\<rparr>"
    using b(4) by auto
  have "comDetails s2 = comDetails s0" using absD(7)[OF s2(3)] t0 by simp
  moreover have "abs_of s2 = (abs_of s)\<lparr>a_details := comDetails s0, a_fsm := fsm_AUTH_W82_BE_SENDED,
      a_queue := queue_items (memory s) (sending s) @ [auth_item i1 i2 u d secret], a_events := events s @ [Signal senderEmptyQueueCond]\<rparr>"
    unfolding s2(3) t0 using abs0 abs by simp
  ultimately show ?thesis using s2(1,2) s0(3,4) by fastforce
qed

section \<open>The typed line\<close>

lemma credential_no_end:
  "allowedCharsInCredentials x \<Longrightarrow> isEndingCharacter x \<noteq> 0" "allowedCharsInName x \<Longrightarrow> isEndingCharacter x \<noteq> 0"
  "x = 32 \<or> x = 9 \<Longrightarrow> isEndingCharacter x \<noteq> 0"
  by (auto simp: allowedCharsInCredentials_def allowedCharsInName_def isEndingCharacter_def)

text \<open>An \<open>/auth\<close> line with three valid words.\<close>

definition auth_line :: "byte list \<Rightarrow> byte list \<Rightarrow> byte list \<Rightarrow> byte list \<Rightarrow> bool" where
  "auth_line line u secret d \<longleftrightarrow> valid_word ToW_Username 20 u \<and> valid_word ToW_Secret 128 secret \<and> valid_word ToW_DisplayName 20 d \<and>
     (\<exists>b1 b2 b3. blanks b1 \<and> blanks b2 \<and> blanks b3 \<and> line = bytes_of ''/auth'' @ b1 @ u @ b2 @ secret @ b3 @ d)"

lemma auth_line_no_end:
  assumes "auth_line line u secret d"
  shows "line \<noteq> []" "\<forall>x \<in> set line. isEndingCharacter x \<noteq> 0"
    "length u \<le> 20" "length secret \<le> 128" "length d \<le> 20"
proof -
  have "\<forall>x \<in> set (bytes_of ''/auth''). isEndingCharacter x \<noteq> 0" by (simp add: bytes_of_def isEndingCharacter_def)
  moreover have "\<forall>x \<in> set u \<union> set secret \<union> set d. isEndingCharacter x \<noteq> 0"
    using assms credential_no_end(1,2) by (auto simp: auth_line_def valid_word_def)
  moreover have "\<forall>x \<in> set b. isEndingCharacter x \<noteq> 0" if "blanks b" for b
    using that credential_no_end(3) by (auto simp: blanks_def)
  ultimately show "\<forall>x \<in> set line. isEndingCharacter x \<noteq> 0"
    using assms unfolding auth_line_def by auto
qed (use assms in \<open>auto simp: auth_line_def valid_word_def bytes_of_def\<close>)

lemma auth_line_queued:
  assumes "state_inv s" "roomy alloc" "is_UDP s" "fsm s = fsm_START" "\<not> q_locked (sending s)"
    and "\<not> eofDetected v" "stdin v = line @ 10 # rest" "mothers v = f # others" "auth_line line u secret d"
    and "length line < capacity (allocated (clientInput (cleanUp s))) (length line)"
    and "capacity (allocated (clientInput (cleanUp s))) (length line) < 2 ^ 32"
  shows "\<exists>v' s' i1 i2. commandTurn alloc v s = Done v' (f s') \<and> stdin v' = rest \<and> mothers v' = others \<and> state_inv s' \<and>
    stores (displayName (comDetails s')) d \<and> msgCounter (comDetails s') = msgCounter (comDetails s) \<and>
    abs_of s' = (abs_of s)\<lparr>a_details := comDetails s', a_fsm := fsm_AUTH_W82_BE_SENDED,
      a_queue := queue_items (memory s) (sending s) @ [auth_item i1 i2 u d secret],
      a_events := events s @ [Signal senderEmptyQueueCond]\<rparr>"
proof -
  let ?P = "\<lambda>pb. block_of (cmd_auth_username pb) u \<and> block_of (cmd_auth_secret pb) secret \<and>
    block_of (cmd_auth_displayname pb) d \<and> bb_len (zeroth pb) = 5"
  note line = auth_line_no_end[OF assms(9)]
  have "\<exists>pb. userInputToCmds b (mBlocks v) msg_flag_NONE = Ok (True, pb, msg_flag_AUTH, []) \<and> pb_type pb = cmd_byte cmd_AUTH \<and> ?P pb"
    if "input_line b line" for b
    using auth_words that assms(9) unfolding auth_line_def by fastforce
  from line_recognised[where P = ?P, OF assms(1,2,6,7) line(1,2) assms(10,11) this] obtain s1 pb where
    turn: "commandTurn alloc v s = sendCommand alloc pb msg_flag_AUTH (v\<lparr>eofDetected := False, stdin := rest\<rparr>) s1"
    and s1: "state_inv s1" "abs_of s1 = abs_of s" and pb: "pb_ok pb" "pb_type pb = cmd_byte cmd_AUTH" "?P pb" by blast
  have same: "queue_items (memory s1) (sending s1) = queue_items (memory s) (sending s)" "events s1 = events s"
    "is_UDP s1" "fsm s1 = fsm_START" "\<not> q_locked (sending s1)" "msgCounter (comDetails s1) = msgCounter (comDetails s)"
    using absD[OF s1(2)] absD[of s, OF refl] assms(3-5) by simp_all
  have "bb_len (zeroth pb) + length u + length secret + length d < 2 ^ 16" using line(3-5) pb(3) by simp
  with auth_queued[OF s1(1) assms(2) same(3-5) _ pb(1,2), of "v\<lparr>eofDetected := False, stdin := rest\<rparr>" f others u d secret]
  show ?thesis using pb(3) assms(8) turn unfolding same(1,2,6) s1(2) by fastforce
qed

section \<open>Sending the AUTH\<close>

lemma logicFSM_auth:
  assumes "state_inv s" "abs_of s = t" "a_queue t = it # its" "a_fsm t = fsm_AUTH_W82_BE_SENDED"
    and "uchar2msgType (qi_type it) = msg_AUTH" "qi_flags it = msg_flag_AUTH" "qi_low it = 0"
  shows "runs (logicFSM others) s others (t\<lparr>a_fsm := fsm_AUTH_SENDED\<rparr>)"
proof -
  obtain a m as where m: "cells (memory s) a = Some m" "view m = it" "q_first (sending s) = Some a"
    "q_len (sending s) = Suc (length (as :: addr list))"
    by (rule first_message[OF assms(1-3)]) blast
  have reads: "queueGetMessage (Some (sending s)) = Ok (Some a)"
    "queueGetMessageMsgType (memory s) (Some (sending s)) = Ok msg_AUTH"
    "queueGetMessageFlags (memory s) (Some (sending s)) = Ok msg_flag_AUTH" "\<not> confirmed m"
    using m assms(5-7) by (auto simp: queueGetMessage_def queueGetMessageMsgType_def queueGetMessageFlags_def deref_def view_def)
  obtain s1 where s1: "setProgramState fsm_AUTH_SENDED s = Done () s1" "state_inv s1" "abs_of s1 = t\<lparr>a_fsm := fsm_AUTH_SENDED\<rparr>"
    by (rule runsE[OF runs_setProgramState[OF assms(1,2)]])
  have "deref (memory s1) (Some a) = Ok m" using s1(1) m(1) by (auto simp: setProgramState_def modify_def state_defs deref_def)
  then have "logicBody again others s = Done others s1" for again
    using reads assms(4) absD(1)[OF assms(2)] s1(1)
    by (auto simp: logicBody_def bind_prog_def read_sending_def lift_res_def getProgramState_def asks_def ret_def when_state_def)
  then show ?thesis using s1(2,3) by (cases others) (simp_all add: runs_def)
qed

abbreviation "auth_datagram low high u d secret \<equiv>
  map Some (msg_byte msg_AUTH # low # high # u @ 0 # d @ 0 # secret @ [0])"

lemma labelled_auth:
  "breakU16IntToBytes n = (high, low) \<Longrightarrow> labelled n (auth_item i1 i2 u d secret) = auth_item (Some low) (Some high) u d secret"
  by (simp add: labelled_def auth_item_def)

lemma auth_sent:
  assumes "state_inv s" "is_UDP s" "fsm s = fsm_AUTH_W82_BE_SENDED" "\<not> q_locked (sending s)"
    and "queue_items (memory s) (sending s) = [auth_item i1 i2 u d secret]"
    and "breakU16IntToBytes (msgCounter (comDetails s)) = (high, low)"
    and "sendto (server_address (netConfig s)) (auth_datagram low high u d secret)"
  shows "\<exists>s'. senderTurn alloc sendto (f # others) s = Done others (f s') \<and> state_inv s' \<and>
    abs_of s' = (abs_of s)\<lparr>a_fsm := fsm_AUTH_SENDED, a_queue := [(auth_item (Some low) (Some high) u d secret)\<lparr>qi_high := 1\<rparr>],
      a_events := events s @ [Sent (server_address (netConfig s)) (auth_datagram low high u d secret)]\<rparr>"
proof -
  note abs = absD[of s, OF refl]
  let ?it = "auth_item i1 i2 u d secret"
  note it = labelled_auth[OF assms(6), of i1 i2 u d secret]
  have drop: "dropWhile finished (queue_items (memory s) (sending s)) = [?it]"
    using assms(5) by (simp add: auth_item_def finished_def)
  have "\<exists>s'. senderTurn alloc sendto (f # others) s = Done others (f s') \<and> state_inv s' \<and>
      abs_of s' = spec_send ((abs_of s)\<lparr>a_fsm := fsm_AUTH_SENDED, a_events := events s\<rparr>)"
  proof (rule sender_sends[where sendto = sendto, OF assms(1,2,4) _ drop])
    show "list_all (in_time (abs_of s)) (queue_items (memory s) (sending s))"
      unfolding assms(5) by (simp add: in_time_def auth_item_def)
    show "qi_bytes ?it = Some ([Some (msg_byte msg_AUTH), i1, i2] @ map Some (u @ 0 # d @ 0 # secret @ [0]))" by (simp add: auth_item_def)
    show "sendto (server_address (netConfig s)) (the (qi_bytes (labelled (msgCounter (comDetails s)) ?it)))"
      unfolding it using assms(7) by (simp add: auth_item_def)
    fix s4 assume s4: "state_inv s4" "abs_of s4 = (abs_of s)\<lparr>a_queue := [?it], a_locked := True\<rparr>"
    have "uchar2msgType (msg_byte msg_AUTH) = msg_AUTH" by (rule uchar2msgType_msg_byte) simp
    then have ty: "uchar2msgType (qi_type ?it) = msg_AUTH" "qi_flags ?it = msg_flag_AUTH" "qi_low ?it = 0"
      by (simp_all add: auth_item_def)
    have "(abs_of s)\<lparr>a_queue := [?it], a_locked := True, a_fsm := fsm_AUTH_SENDED\<rparr>
        = (abs_of s)\<lparr>a_queue := [?it], a_locked := True, a_fsm := fsm_AUTH_SENDED, a_events := events s\<rparr>"
      using abs by (intro abs_state.equality) simp_all
    then show "runs (logicFSM (f # others)) s4 (f # others)
        ((abs_of s)\<lparr>a_queue := [?it], a_locked := True, a_fsm := fsm_AUTH_SENDED, a_events := events s\<rparr>)"
      using logicFSM_auth[OF s4 _ _ ty, of "[]" "f # others"] assms(3) abs by simp
  qed simp
  moreover have "spec_send ((abs_of s)\<lparr>a_fsm := fsm_AUTH_SENDED, a_events := events s\<rparr>) = (abs_of s)\<lparr>a_fsm := fsm_AUTH_SENDED,
      a_queue := [(auth_item (Some low) (Some high) u d secret)\<lparr>qi_high := 1\<rparr>],
      a_events := events s @ [Sent (server_address (netConfig s)) (auth_datagram low high u d secret)]\<rparr>"
    using drop it abs by (intro abs_state.equality) (simp_all add: spec_send_def Let_def sent_once_def auth_item_def)
  ultimately show ?thesis by simp
qed

section \<open>The login\<close>

text \<open>C7: logging in over UDP. The user types an \<open>/auth\<close> line with valid words before anything else was sent; the turn of
  the main thread stores the display name and queues the AUTH, the sender sends exactly the datagram of the
  protocol, the server confirms it and replies positively from its address, and the next turn of the
  sender confirms the reply to that address. Then the connection is open under the name that was typed, the user
  was told, and no message but the finished AUTH is queued. Nothing else was sent or printed on the way.\<close>

theorem login_completes:
  assumes "state_inv s" "roomy alloc" "listening source (abs_of s)" "fsm s = fsm_START" "1 \<le> udpMaxRetries (netConfig s)"
    and "queue_items (memory s) (sending s) = []"
    and "\<not> eofDetected v" "stdin v = line @ 10 # rest" "mothers v = f # others" "auth_line line u secret d"
    and "length line < capacity (allocated (clientInput (cleanUp s))) (length line)"
    and "capacity (allocated (clientInput (cleanUp s))) (length line) < 2 ^ 32"
    and "breakU16IntToBytes (msgCounter (comDetails s)) = (high, low)"
    and "sendto (server_address (netConfig s)) (auth_datagram low high u d secret)"
    and "\<not> already_seen high' low' (msg_byte msg_REPLY) (abs_of s)"
    and "length c + 7 \<le> allocated (serverResponse (cleanUp s))" "c \<noteq> []" "0 \<notin> set c"
    and "sendto (Some source) (map Some [msg_byte msg_CONF, low', high'])"
  shows "\<exists>v' s1 s2 w1 s3 w2 s4 s5 auth. commandTurn alloc v s = Done v' (f s1) \<and> stdin v' = rest \<and>
    senderTurn alloc sendto (g # gs) s1 = Done gs (g s2) \<and>
    receiveOne alloc source [msg_byte msg_CONF, low, high] w s2 = Done w1 s3 \<and>
    receiveOne alloc source (msg_byte msg_REPLY # low' # high' # 1 # rl # rh # c @ [0]) w1 s3 = Done w2 s4 \<and>
    senderTurn alloc sendto (k # ks) s4 = Done ks (k s5) \<and>
    state_inv s5 \<and> fsm s5 = fsm_OPEN \<and> stores (displayName (comDetails s5)) d \<and> server_address (netConfig s5) = Some source \<and>
    queue_items (memory s5) (sending s5) = [auth] \<and> finished auth \<and>
    events s5 = events s @ [Signal senderEmptyQueueCond, Sent (server_address (netConfig s)) (auth_datagram low high u d secret),
      Signal rec2SenderCond, Signal senderEmptyQueueCond, Signal rec2SenderCond,
      Stderr (bytes_of ''Success: '' @ c @ [10]), Signal mainCond, Sent (Some source) (map Some [msg_byte msg_CONF, low', high'])]"
proof -
  note abs = absD[of s, OF refl]
  have start: "is_UDP s" "\<not> q_locked (sending s)" using assms(3) abs by (simp_all add: listening_def)
  obtain v' s1 i1 i2 where s1: "commandTurn alloc v s = Done v' (f s1)" "stdin v' = rest" "state_inv s1"
    "stores (displayName (comDetails s1)) d" "msgCounter (comDetails s1) = msgCounter (comDetails s)"
    "abs_of s1 = (abs_of s)\<lparr>a_details := comDetails s1, a_fsm := fsm_AUTH_W82_BE_SENDED,
      a_queue := [auth_item i1 i2 u d secret], a_events := events s @ [Signal senderEmptyQueueCond]\<rparr>"
    using auth_line_queued[OF assms(1,2) start(1) assms(4) start(2) assms(7-12)] assms(6) by auto
  note abs1 = absD[OF s1(6)]
  let ?auth = "(auth_item (Some low) (Some high) u d secret)\<lparr>qi_high := 1\<rparr>"
  let ?sent = "Sent (server_address (netConfig s)) (auth_datagram low high u d secret)"
  have "is_UDP s1" "fsm s1 = fsm_AUTH_W82_BE_SENDED" "\<not> q_locked (sending s1)"
    "queue_items (memory s1) (sending s1) = [auth_item i1 i2 u d secret]"
    "breakU16IntToBytes (msgCounter (comDetails s1)) = (high, low)"
    "sendto (server_address (netConfig s1)) (auth_datagram low high u d secret)"
    using abs1 abs start assms(13,14) s1(5) by simp_all
  from auth_sent[where sendto = sendto, OF s1(3) this] obtain s2 where
    s2: "senderTurn alloc sendto (g # gs) s1 = Done gs (g s2)" "state_inv s2"
    and t2: "abs_of s2 = (abs_of s1)\<lparr>a_fsm := fsm_AUTH_SENDED, a_queue := [?auth],
      a_events := events s1 @ [Sent (server_address (netConfig s1)) (auth_datagram low high u d secret)]\<rparr>" by blast
  note abs2 = absD[OF t2]
  have l2: "listening source (abs_of s2)" "\<not> already_seen high' low' (msg_byte msg_REPLY) (abs_of s2)"
    using assms(3,15) by (simp_all add: t2 s1(6) listening_def already_seen_def)
  have state2: "fsm s2 = fsm_AUTH_SENDED" "queue_items (memory s2) (sending s2) = [?auth]"
    "comDetails s2 = comDetails s1" "events s2 = events s @ [Signal senderEmptyQueueCond, ?sent]"
    "length c + 7 \<le> allocated (serverResponse (cleanUp s2))"
    using abs2 abs1 abs assms(16) by (simp_all add: s1(6))
  have auth: "qi_type ?auth = msg_byte msg_AUTH" "item_id ?auth \<noteq> None" "list_all (in_time (abs_of s2)) [?auth]"
    using assms(5) abs by (simp_all add: auth_item_def in_time_def t2 s1(6))
  show ?thesis
    using handshake_completes[where sendto = sendto and low = low and high = high and v = w and rl = rl and rh = rh and f = k
        and others = ks, OF s2(2) assms(2) l2(1) state2(1,2) auth l2(2) state2(5) assms(17-19)]
      s1(1,2,4) s2(1) state2(3,4) by fastforce
qed

text \<open>The state after the program was started.\<close>

definition start_state :: ProgramInterface where
  "start_state = open_state\<lparr>threads := (threads open_state)\<lparr>fsmState := fsm_START\<rparr>\<rparr>"

lemma start_state_simps:
  "fsm start_state = fsm_START" "sending start_state = queueInit" "confirmedMsgs start_state = queueInit"
  "netConfig start_state = netConfig open_state" "serverResponse (cleanUp start_state) = serverResponse (cleanUp open_state)"
  "buffers start_state = buffers open_state" "stdoutMutex (threads start_state) = False" "memory start_state = memory open_state"
  "udpMaxRetries (netConfig open_state) = 3" "clientInput (cleanUp start_state) = bufferInit" "msgCounter (comDetails start_state) = 0"
  using open_state_simps
  by (simp_all add: start_state_def buffers_def) (simp_all add: open_state_def initial_interface_def defaultNetworkConfig_def)

definition login_input :: main_vars where
  "login_input = sample_input\<lparr>stdin := bytes_of ''/auth'' @ [32] @ [97] @ [32] @ [98] @ [32] @ [67] @ 10 # [], mothers := [\<lambda>s. s]\<rparr>"

theorem login_completes_witness:
  "\<exists>v' s1 s2 w1 s3 w2 s4 s5 auth. commandTurn grants_small login_input start_state = Done v' s1 \<and> stdin v' = [] \<and>
    senderTurn grants_small (\<lambda>_ _. True) [\<lambda>s. s] s1 = Done [] s2 \<and>
    receiveOne grants_small sample_source [msg_byte msg_CONF, 0, 0] (sample_msg cmd_NONE, 0) s2 = Done w1 s3 \<and>
    receiveOne grants_small sample_source (msg_byte msg_REPLY # 0 # 0 # 1 # 0 # 0 # [79, 75] @ [0]) w1 s3 = Done w2 s4 \<and>
    senderTurn grants_small (\<lambda>_ _. True) [\<lambda>s. s] s4 = Done [] s5 \<and>
    state_inv s5 \<and> fsm s5 = fsm_OPEN \<and> stores (displayName (comDetails s5)) [67] \<and>
    server_address (netConfig s5) = Some sample_source \<and> queue_items (memory s5) (sending s5) = [auth] \<and> finished auth \<and>
    events s5 = events start_state @ [Signal senderEmptyQueueCond,
      Sent (server_address (netConfig start_state)) (auth_datagram 0 0 [97] [67] [98]),
      Signal rec2SenderCond, Signal senderEmptyQueueCond, Signal rec2SenderCond,
      Stderr (bytes_of ''Success: '' @ [79, 75] @ [10]), Signal mainCond, Sent (Some sample_source) (map Some [msg_byte msg_CONF, 0, 0])]"
proof (rule login_completes[where f = "\<lambda>s. s" and g = "\<lambda>s. s" and k = "\<lambda>s. s" and others = "[]"
      and line = "bytes_of ''/auth'' @ [32] @ [97] @ [32] @ [98] @ [32] @ [67]"])
  show "state_inv start_state" using open_state_inv by (simp add: state_inv_def start_state_simps)
  show "listening sample_source (abs_of start_state)"
    using absD[of start_state, OF refl] open_state_simps
    by (simp add: start_state_simps listening_def sample_source_def sizeof_sockaddr_in_def queueInit_def)
  show "\<not> already_seen 0 0 (msg_byte msg_REPLY) (abs_of start_state)"
    by (simp add: abs_of_def already_seen_def start_state_simps queueInit_items)
  show "auth_line (bytes_of ''/auth'' @ [32] @ [97] @ [32] @ [98] @ [32] @ [67]) [97] [98] [67]"
    unfolding auth_line_def
    by (intro conjI exI[of _ "[32]"]) (simp_all add: word_simps)
qed (simp_all add: roomy_grants_small start_state_simps queueInit_items login_input_def sample_input_def bytes_of_def
    breakU16IntToBytes_def bufferInit_def INITIAL_BUFFER_SIZE_def Let_def)

end
