(* ===== verification/Chat_Unknown.thy ===== *)
theory Chat_Unknown
  imports Chat_Typing
begin

text \<open>
  A datagram of a type the protocol does not have: the client tells the server of the error and ends the
  conversation.
\<close>

section \<open>Sending an error\<close>

text \<open>The type of the item is the one of the command, not of the message.\<close>

definition error_item :: "cell \<Rightarrow> cell \<Rightarrow> byte list \<Rightarrow> byte list \<Rightarrow> qitem" where
  "error_item i1 i2 d m = \<lparr>qi_bytes = Some ([Some (msg_byte msg_ERR), i1, i2] @ map Some (d @ 0 # m @ [0])),
     qi_high = 0, qi_low = 0, qi_type = cmd_byte cmd_ERR, qi_flags = msg_flag_ERR\<rparr>"

abbreviation error_blocks :: "string \<Rightarrow> ProtocolBlocks" where
  "error_blocks m \<equiv> (fresh_blocks cmd_ERR)\<lparr>zeroth := \<lparr>bb_start = literal m, bb_len = length m\<rparr>\<rparr>"

lemma assemble_error:
  assumes "roomy alloc" "buffer_wf b" "stores (displayName cd) d" "length m + length d < 2 ^ 16"
  shows "\<exists>i1 i2 pb' b'. assembleProtocolUDP alloc cd (error_blocks m) b = Ok (True, pb', b', []) \<and>
    buffer_wf b' \<and> new_item b' msg_flag_ERR (cmd_byte cmd_ERR) = error_item i1 i2 d (bytes_of m) \<and> used b' < 2 ^ 32"
proof -
  have "block_of (zeroth (error_blocks m)) (bytes_of m)" using text_block_of[of m] assms(4) by (simp add: text_block_def)
  then show ?thesis
    using assemble_named[OF assms(1,2) _ _ assms(3), of "error_blocks m" cmd_ERR msg_ERR "bytes_of m"] assms(4)
    by (fastforce simp: fresh_blocks_def resetProtocolBlocks_def new_item_def error_item_def)
qed

lemma resized_out:
  assumes "state_inv s" "abs_of s = t" "roomy alloc" "n < 2 ^ 32"
  obtains b where "resize_out alloc ob n s = Done () (out_set ob b s)" "state_inv (out_set ob b s)" "abs_of (out_set ob b s) = t"
proof -
  obtain b where b: "bufferResize alloc (out_get ob s) n = Ok b"
    using bufferResize_grant[of alloc n] roomyD(1)[OF assms(3,4)] by auto
  have run: "resize_out alloc ob n s = Done () (out_set ob b s)"
    using b by (simp add: resize_out_def bind_prog_run lift_res_run modify_run)
  have "state_inv (out_set ob b s)"
    using keepsD[OF keeps_resize_out[OF roomyD(2)[OF assms(3)]] assms(1)] run by (metis ensures.simps(1))
  then show thesis using that run assms(2) by (simp only: abs_out_set)
qed

lemma error_assembled:
  assumes "state_inv s" "abs_of s = t" "roomy alloc" "protocol (a_net t) = prot_UDP"
    and "stores (displayName (a_details t)) d" "length m + length d < 2 ^ 16"
  obtains i1 i2 pb' b where "assemble_variant alloc ob (error_blocks m) s = Done (Some (True, pb')) (out_set ob b s)"
    "state_inv (out_set ob b s)" "abs_of (out_set ob b s) = t" "buffer_wf b" "used b < 2 ^ 32"
    "new_item b msg_flag_ERR (cmd_byte cmd_ERR) = error_item i1 i2 d (bytes_of m)"
proof -
  have s: "stores (displayName (comDetails s)) d" "is_UDP s" using absD(7,8)[OF assms(2)] assms(4,5) by simp_all
  obtain i1 i2 pb' b where b: "assembleProtocolUDP alloc (comDetails s) (error_blocks m) (out_get ob s) = Ok (True, pb', b, [])"
    "buffer_wf b" "new_item b msg_flag_ERR (cmd_byte cmd_ERR) = error_item i1 i2 d (bytes_of m)" "used b < 2 ^ 32"
    using assemble_error[OF assms(3) state_inv_bufs(2)[OF assms(1), of ob] s(1) assms(6)] by metis
  have asm: "assemble (assembleProtocolUDP alloc) ob (error_blocks m) s = Done (True, pb') (out_set ob b s)"
    using b(1) by (simp add: assemble_def bind_prog_run lift_res_run modify_run ret_run)
  have "pb_ok (error_blocks m)" using assms(6) by (intro pb_ok_control(3)) simp
  then have "state_inv (out_set ob b s)"
    using keepsD[OF keeps_assembleUDP[OF roomyD(2)[OF assms(3)]] assms(1)] asm by (metis ensures.simps(1))
  then show thesis
    using that b(2-4) asm s(2) assms(2) by (simp add: assemble_variant_def bind_prog_run ret_run abs_out_set del: out_set.simps)
qed

lemma lockSending_out: "lockSending s = Done () s' \<Longrightarrow> out_get ob s' = out_get ob s"
  by (cases ob) (auto simp: lockSending_def set_sending_def split: res.splits option.splits)

lemma runs_sendError:
  assumes "state_inv s" "abs_of s = t" "roomy alloc" "protocol (a_net t) = prot_UDP" "\<not> a_locked t"
    and "stores (displayName (a_details t)) d" "length m + length d < 2 ^ 16"
  shows "\<exists>i1 i2. runs (sendError alloc By_Receiver m) s () (t\<lparr>a_queue := a_queue t @ [error_item i1 i2 d (bytes_of m)]\<rparr>)"
proof -
  let ?n = "size_add (size_add (length m) (used (displayName (comDetails s)))) 5"
  have "?n < 2 ^ 32" using absD(7)[OF assms(2)] assms(6,7) by (simp add: stores_def size_add_def)
  then obtain b1 where s1: "resize_out alloc By_Receiver ?n s = Done () (out_set By_Receiver b1 s)"
    "state_inv (out_set By_Receiver b1 s)" "abs_of (out_set By_Receiver b1 s) = t"
    by (rule resized_out[OF assms(1-3)])
  let ?s1 = "out_set By_Receiver b1 s"
  obtain i1 i2 pb' b where s2: "assemble_variant alloc By_Receiver (error_blocks m) ?s1 = Done (Some (True, pb')) (out_set By_Receiver b ?s1)"
    "state_inv (out_set By_Receiver b ?s1)" "abs_of (out_set By_Receiver b ?s1) = t"
    and b: "buffer_wf b" "used b < 2 ^ 32" "new_item b msg_flag_ERR (cmd_byte cmd_ERR) = error_item i1 i2 d (bytes_of m)"
    by (rule error_assembled[OF s1(2,3) assms(3,4,6,7)])
  obtain s3 where s3: "lockSending (out_set By_Receiver b ?s1) = Done () s3" "state_inv s3" "abs_of s3 = t\<lparr>a_locked := True\<rparr>"
    by (rule runsE[OF runs_locks(1)[OF s2(2,3) assms(5)]])
  have out: "out_get By_Receiver s3 = b" using lockSending_out[OF s3(1), of By_Receiver] by simp
  from runsE[OF runs_add[OF s3(2,3) b(1) roomy_grants[OF assms(3) b(2)], of msg_flag_ERR "cmd_byte cmd_ERR"]] obtain s4 where s4:
    "on_sending (\<lambda>h q. queueAddMessage alloc h (Some q) b msg_flag_ERR (cmd_byte cmd_ERR)) s3 = Done () s4"
    "state_inv s4" "abs_of s4 = t\<lparr>a_locked := True, a_queue := a_queue t @ [error_item i1 i2 d (bytes_of m)]\<rparr>"
    using b(3) by auto
  from runsE[OF runs_locks(2)[OF s4(2,3)]] obtain s5 where
    "unlockSending s4 = Done () s5" "state_inv s5" "abs_of s5 = t\<lparr>a_queue := a_queue t @ [error_item i1 i2 d (bytes_of m)]\<rparr>"
    using unlock_again[OF assms(5)] by auto
  then show ?thesis
    using s1(1) s2(1) s3(1) s4(1) out unfolding runs_def sendError_def
    by (auto simp: bind_prog_run asks_run simp del: out_set.simps out_get.simps)
qed

section \<open>The unknown datagram\<close>

abbreviation unknown_text :: string where
  "unknown_text \<equiv> ''Unknown message format''"

definition spec_unknown :: "qitem \<Rightarrow> qitem \<Rightarrow> byte \<Rightarrow> byte \<Rightarrow> abs_state \<Rightarrow> abs_state" where
  "spec_unknown err bye low high t =
     (seen_now high low msg_UNKNOWN t)\<lparr>a_fsm := fsm_ERR, a_queue := [confirm_item low high msg_flag_CONFIRM, err, bye],
       a_events := a_events t @ [Signal senderEmptyQueueCond, Signal rec2SenderCond,
         Stderr (bytes_of ''ERR: Received unknown message from server. Ending program'' @ [10]), Signal mainCond]\<rparr>"

lemma runs_unknown_steps:
  assumes "state_inv s" "abs_of s = seen_now high low msg_UNKNOWN t" "listening source t" "roomy alloc"
    and "received (a_response t) (x # low # high # rest)" "stores (displayName (a_details t)) d" "length d < 2 ^ 15"
  shows "\<exists>i1 i2 j1 j2. runs (steps [setProgramState fsm_ERR, lockSending, popAll, unlockSending,
      sendConfirm alloc msg_flag_CONFIRM, sendError alloc By_Receiver unknown_text, sendBye alloc, wakeSender,
      safePrintStderr (bytes_of ''ERR: Received unknown message from server. Ending program'' @ [10]), cond_signal mainCond]) s ()
    (spec_unknown (error_item i1 i2 d (bytes_of unknown_text)) (bye_item j1 j2) low high t)"
proof -
  have t: "protocol (a_net t) = prot_UDP" "\<not> a_locked t" "\<not> a_stdoutLocked t" using assms(3) by (simp_all add: listening_def)
  let ?t = "seen_now high low msg_UNKNOWN t"
  let ?t1 = "?t\<lparr>a_fsm := fsm_ERR, a_locked := True, a_queue := [confirm_item low high msg_flag_CONFIRM], a_locked := False\<rparr>"
  have resp: "points_to (buf_ptr (a_response t)) (x # low # high # rest)" using assms(5) by (simp add: received_def)
  have "runs (steps [setProgramState fsm_ERR, lockSending, popAll, unlockSending, sendConfirm alloc msg_flag_CONFIRM]) s () ?t1"
    by (rule runs_steps_Cons[OF runs_setProgramState[OF assms(1,2)]],
        rule runs_steps_Cons[OF runs_locks(1)], assumption+, (use t(2) in simp),
        rule runs_steps_Cons[OF runs_popAll], assumption+,
        rule runs_steps_Cons[OF runs_locks(2)], assumption+,
        rule runs_steps_Cons[OF runs_sendConfirm[where x = x and low = low and high = high and rest = rest]], assumption+,
        rule assms(4), (use resp in simp), rule runs_steps_Nil, assumption) simp
  then obtain s1 where s1: "steps [setProgramState fsm_ERR, lockSending, popAll, unlockSending, sendConfirm alloc msg_flag_CONFIRM] s
      = Done () s1" "state_inv s1" "abs_of s1 = ?t1" by (rule runsE)
  obtain i1 i2 s2 where s2: "sendError alloc By_Receiver unknown_text s1 = Done () s2" "state_inv s2"
    "abs_of s2 = ?t1\<lparr>a_queue := a_queue ?t1 @ [error_item i1 i2 d (bytes_of unknown_text)]\<rparr>"
    using runs_sendError[OF s1(2,3) assms(4), of d unknown_text] t assms(6,7) by (auto simp: runs_def)
  obtain j1 j2 where bye: "runs (sendBye alloc) s2 () (?t1\<lparr>a_queue := a_queue ?t1 @ [error_item i1 i2 d (bytes_of unknown_text), bye_item j1 j2]\<rparr>)"
    using runs_sendBye[OF s2(2,3) assms(4)] t by auto
  have "runs (steps [sendBye alloc, wakeSender,
      safePrintStderr (bytes_of ''ERR: Received unknown message from server. Ending program'' @ [10]), cond_signal mainCond]) s2 ()
      (spec_unknown (error_item i1 i2 d (bytes_of unknown_text)) (bye_item j1 j2) low high t)"
    by (rule runs_steps_Cons[OF bye], rule runs_steps_Cons[OF runs_wakeSender], assumption+,
        rule runs_steps_Cons[OF runs_safePrintStderr], assumption+, (use t(3) in simp),
        rule runs_steps_Cons[OF runs_cond_signal], assumption+, rule runs_steps_Nil, assumption)
      (use t(2) in \<open>auto intro!: abs_state.equality simp: spec_unknown_def\<close>)
  then show ?thesis
    using steps_append[OF s1(1)] s2(1) unfolding runs_def
    by (fastforce simp: steps_run(2)[of "sendError _ _ _"] bind_prog_def simp del: steps.simps)
qed

lemma runs_receiverFSM_unknown:
  assumes "state_inv s" "abs_of s = t" "listening source t" "roomy alloc"
    and "received (a_response t) (x # low # high # rest)" "stores (displayName (a_details t)) d" "length d < 2 ^ 15"
    and "pb_type pb = msg_byte msg_UNKNOWN"
  shows "\<exists>i1 i2 j1 j2. runs (receiverFSM alloc msgID pb) s ()
    (spec_unknown (error_item i1 i2 d (bytes_of unknown_text)) (bye_item j1 j2) low high t)"
proof -
  have t: "protocol (a_net t) = prot_UDP" "\<not> a_locked t" "\<not> a_seenLocked t" using assms(3) by (simp_all add: listening_def)
  obtain s1 where s1: "filterRepeated alloc pb s = Done (already_seen high low (msg_byte msg_UNKNOWN) t) s1" "state_inv s1"
    "abs_of s1 = seen_now high low msg_UNKNOWN t" "is_UDP s"
    by (rule receiverFSM_filter[OF assms(1,2) t assms(4,5,8)])
  have ty: "uchar2msgType (pb_type pb) = msg_UNKNOWN" unfolding assms(8) by (rule uchar2msgType_msg_byte) simp
  show ?thesis
    using runs_unknown_steps[OF s1(2,3) assms(3-7)] s1(1,4) ty
    by (simp add: runs_def receiverFSM_def bind_prog_def del: steps.simps)
qed

lemma decodeUDP_unknown:
  assumes "received b (x # low # high # rest)" "uchar2msgType x = msg_UNKNOWN"
  shows "\<exists>pb'. disassebleProtocolUDP b pb = Ok (pb', convert2BytesToU16Int low high) \<and> pb_type pb' = msg_byte msg_UNKNOWN"
proof -
  have "ptr_read (buf_ptr b) 0 = Ok x" "ptr_read (buf_ptr b) 1 = Ok low" "ptr_read (buf_ptr b) 2 = Ok high"
    using assms(1) points_to_read[of "buf_ptr b" "x # low # high # rest"] by (simp_all add: received_def)
  moreover have "uchar2msgType (msg_byte msg_UNKNOWN) = msg_UNKNOWN" by (rule uchar2msgType_msg_byte) simp
  ultimately show ?thesis using assms(2) by (simp add: disassebleProtocolUDP_def Let_def)
qed

text \<open>C12: a datagram of a type the protocol does not have, received over UDP after the start, whatever follows its
  identifier. Everything that waited to be sent is dropped; the queue is a confirmation of the
  datagram, an ERR under the user's display name that says so, and a BYE; the program is in the error
  state, the user is told, and the sender and the main thread are signalled. It does not matter whether the
  datagram was received before.\<close>

theorem unknown_received:
  assumes "state_inv s" "roomy alloc" "listening source (abs_of s)" "fsm s \<noteq> fsm_START"
    and "uchar2msgType x = msg_UNKNOWN" "length rest + 3 \<le> allocated (serverResponse (cleanUp s))"
    and "stores (displayName (comDetails s)) d" "length d < 2 ^ 15"
  shows "\<exists>v' s' b i1 i2 j1 j2. receiveOne alloc source (x # low # high # rest) v s = Done v' s' \<and> state_inv s' \<and>
    received b (x # low # high # rest) \<and>
    abs_of s' = spec_unknown (error_item i1 i2 d (bytes_of unknown_text)) (bye_item j1 j2) low high (arrived source b (abs_of s))"
proof -
  let ?bs = "x # low # high # rest"
  let ?P = "\<lambda>b w. \<exists>i1 i2 j1 j2. w = spec_unknown (error_item i1 i2 d (bytes_of unknown_text)) (bye_item j1 j2) low high
    (arrived source b (abs_of s))"
  note abs = absD[of s, OF refl]
  obtain address where address: "serverAddress (a_net (abs_of s)) = Some address" "length address = length source"
    using assms(3) by (auto simp: listening_def)
  have "\<exists>v' b w. received b ?bs \<and> allocated b = allocated (a_response (abs_of s)) \<and> ?P b w \<and>
      runs (receiveOne alloc source ?bs v) s v' w"
  proof (rule receive_some[OF assms(1) refl _ _ _ address, where Q = "\<lambda>b pb'. pb_type pb' = msg_byte msg_UNKNOWN"
        and mid = "convert2BytesToU16Int low high"])
    show "\<exists>pb'. disassebleProtocolUDP b pb = Ok (pb', convert2BytesToU16Int low high) \<and> pb_type pb' = msg_byte msg_UNKNOWN"
      if "received b ?bs" for b pb
      using decodeUDP_unknown[OF that assms(5)] .
    show "\<exists>w. ?P b w \<and> runs (receiverFSM alloc (convert2BytesToU16Int low high) pb') s1 () w"
      if "state_inv s1" "abs_of s1 = (answering source (abs_of s))\<lparr>a_response := b\<rparr>" "received b ?bs"
        "pb_type pb' = msg_byte msg_UNKNOWN" for s1 b pb'
    proof -
      have "stores (displayName (a_details (arrived source b (abs_of s)))) d"
        using abs assms(7) by (simp add: arrived_def answering_def)
      then show ?thesis
        using runs_receiverFSM_unknown[OF that(1) that(2)[folded arrived_def] listening_arrived[OF assms(3)] assms(2) _ _ assms(8) that(4)]
          that(3) by fastforce
    qed
  qed (use assms(3,4,6) abs in \<open>auto simp: listening_def\<close>)
  then show ?thesis unfolding runs_def by blast
qed

lemma typing_listens: "listening sample_source (abs_of typing_state)"
  using absD[of typing_state, OF refl] open_state_simps
  by (simp add: typing_state_def listening_def sample_source_def sizeof_sockaddr_in_def queueInit_def)

theorem unknown_received_witness:
  "\<exists>v' s' b i1 i2 j1 j2. receiveOne grants_small sample_source (5 # 1 # 0 # [9, 9]) (sample_msg cmd_NONE, 0) typing_state = Done v' s' \<and>
    state_inv s' \<and> received b (5 # 1 # 0 # [9, 9]) \<and>
    abs_of s' = spec_unknown (error_item i1 i2 [66] (bytes_of unknown_text)) (bye_item j1 j2) 1 0
      (arrived sample_source b (abs_of typing_state))"
proof (rule unknown_received[OF typing_state_inv roomy_grants_small typing_listens])
  show "length [9, 9 :: byte] + 3 \<le> allocated (serverResponse (cleanUp typing_state))"
    using open_state_simps by (simp add: typing_state_def)
qed (simp_all add: typing_state_simps uchar2msgType_def sample_buffer_stores)

end
