(* ===== verification/Spec2Isabelle.thy ===== *)
theory Spec2Isabelle
  imports Chat_Login Chat_Unknown
begin

text \<open>
  A verification development of the IPK24-CHAT client (\<open>src/src\<close>), a chat client for UDP and TCP with
  three threads: the main thread reads the commands of the user, the sender sends what is queued and
  sends it again until it is confirmed, the receiver handles what the server sends. They share one
  structure, the program interface, with a queue of messages to be sent, a queue of the identifiers
  already received, a few buffers and the state of the program.

  \<^bold>\<open>The machine\<close> (\<open>Chat_Prelude\<close>). Bytes are \<open>8 word\<close>; a memory cell is a byte or indeterminate; a
  pointer into an object is the cells of the object and a position (\<open>ptr\<close>), and reading an
  indeterminate cell or outside the object is a fault. A function that does not touch the shared state
  returns a \<open>res\<close>: \<open>Ok\<close>, \<open>Err c\<close> for a call of \<open>errHandling\<close> with code \<open>c\<close>, or \<open>Fault\<close> for undefined
  behaviour. A function of a thread is a state transformer with an \<open>outcome\<close>: \<open>Done\<close>, \<open>Exits c\<close>,
  \<open>Crashes\<close>, or \<open>Blocked\<close> when it waits for ever. \<open>size_t\<close> arithmetic wraps at \<open>2 ^ 64\<close>, identifiers are
  \<open>16 word\<close>, the counter of retries is \<open>8 word\<close>; \<open>char\<close> is signed. The allocator is a predicate on the
  sizes that are granted.

  \<^bold>\<open>The components.\<close>

  \<^item> \<open>Chat_Utils\<close>: \<open>libs/utils.c\<close> and the enumerations of \<open>libs/utils.h\<close>; the scans find the first character
    of their kind, \<open>getWord\<close> returns the word, the two identifier functions are inverse for low bytes below 128.
  \<^item> \<open>Chat_Buffer\<close>: \<open>libs/buffer.c\<close>; copying and reading a line, with the line that is written past the buffer.
  \<^item> \<open>Chat_Queue\<close>: \<open>libs/msgQueue.c\<close> on a heap of messages. \<open>Chat_Queue_Refinement\<close> shows that the linked
    structure implements a list of messages; the locale \<open>message_queue\<close> is the interface the threads use,
    interpreted on these functions, and the first-in first-out behaviour is proved in it.
  \<^item> \<open>Chat_Protocol\<close>: \<open>libs/ipk24protocol.c\<close>. \<open>Chat_Protocol_Encoding\<close> gives the bytes of every message that is
    assembled, \<open>Chat_Protocol_Decoding\<close> what is read out of a message of the server and the round trips,
    \<open>Chat_Input\<close> what becomes of a line of the user.
  \<^item> \<open>Chat_ProgramInterface\<close>: \<open>libs/programInterface.c\<close>, \<open>libs/programInterface.h\<close> and the structures of
    \<open>libs/networkCom.h\<close>: the record \<open>ProgramInterface\<close> is the state of all threads. It also has the heap of
    messages and the list of what was printed and signalled. The mutexes of the queues and of
    the standard output are flags; a thread that takes one that is taken is \<open>Blocked\<close>, as the mutexes are not recursive.
  \<^item> \<open>Chat_Receiver\<close>, \<open>Chat_Sender\<close>, \<open>Chat_Main\<close>: \<open>protocolReceiver.c\<close>, \<open>protocolSender.c\<close>, \<open>main.c\<close> and
    \<open>libs/networkCom.c\<close>; \<open>Chat_CleanUp\<close>: \<open>libs/cleanUpMaster.c\<close> and \<open>errHandling\<close>. One turn of the loop of a
    thread is a definition of its own (\<open>receiveOne\<close>, \<open>senderTurnWith\<close>, \<open>commandTurn\<close>); \<open>senderTurn\<close> is the turn in which
    nobody uses the room the sender makes by releasing the mutex of the queue.

  \<^bold>\<open>Loops and waiting.\<close> The loops of the buffers, queues and scans are total functions. The loops of the
  threads run until another thread changes the state: the receiver's is observed over a list of receptions, the
  sender's and the main thread's for a number of turns. Their result is whether the loop was left, so that a loop that
  still runs (\<open>Done False\<close>) is told from a thread that waits for ever (\<open>Blocked\<close>). For the main thread \<open>input_loop_ends\<close>
  shows which number of turns is enough, for every input. Where a thread waits on a condition, the other threads act: the functions take a
  list of what they do then, and a wait with nothing left in it is \<open>Blocked\<close>.

  \<^bold>\<open>The system.\<close> \<open>Chat_Invariant\<close>, \<open>Chat_Invariant_Threads\<close> and \<open>Chat_Invariant_Main\<close> show that every function of every
  thread keeps the invariant \<open>state_inv\<close> of the shared state. \<open>Chat_Guarantees\<close> shows what the functions guarantee between
  the states before and after them: the locale \<open>quiet\<close> is the interface of a relation that the queues, buffers and the
  output do not leave, \<open>stepping\<close> extends it by the moves of the state machine (\<open>fsm_move\<close>) and gives the
  guarantee for every function of the threads. \<open>Chat_System\<close> puts the threads together: the relation \<open>reachable\<close> closes
  the state after start-up under whole turns of the threads and runs of the two handlers, in any order and with turns of
  the others inside their waits and where the sender makes room; between these points a turn is atomic. A turn may be taken in any program state, since a thread tests the state before it blocks
  in reading or receiving. The locale \<open>system_invariant\<close> states what each part promises for an invariant and gives it for
  every reachable state; it is interpreted on \<open>state_inv\<close>. So in every reachable state both queues are well-formed and
  every message is in one of them, and the final clean-up frees them all. \<open>Chat_States\<close> interprets \<open>stepping\<close> on the program
  state and on the configuration: a turn that begins in a state in which the program ends does not leave these states, and in
  every reachable state one protocol is chosen, a socket is open and the address of the server has its room.

  \<^bold>\<open>Behaviour.\<close> \<open>Chat_Behaviour\<close> maps the shared state to an abstract one with lists for queues; \<open>runs\<close> says that a function
  ends and how it changes the abstract state, and the specifications are functions on that state.

  \<^item> \<open>Chat_Behaviour\<close> shows this for a received message (\<open>spec_msg\<close>), \<open>Chat_Delivery\<close> for confirmations
    (\<open>spec_confirm\<close>) and the removal of confirmed messages, \<open>Chat_Sending\<close> for a turn of the sender (\<open>spec_send\<close>):
    together they are the way of a message from the queue to its confirmation, with the address of the server
    following the one the server answers from.
  \<^item> \<open>Chat_Replies\<close> and \<open>Chat_Authentication\<close> have the CONFIRM datagram, the replies to AUTH and JOIN (\<open>spec_reply_datagram\<close>), the
    run of the receiver and the sender from an AUTH that was sent to the open connection, and the rejected JOIN that
    reads through a null pointer.
  \<^item> \<open>Chat_Ending\<close> has BYE and ERR of the server (\<open>spec_bye\<close>, \<open>spec_error\<close>), \<open>Chat_Unknown\<close> a datagram of a type the
    protocol does not have, which is answered with ERR and BYE (\<open>spec_unknown\<close>).
  \<^item> \<open>Chat_Stream\<close> has the client over TCP: a received message; a received reply, which is printed together with what earlier
    messages left in the buffer, and reads indeterminate memory when they left no zero; and the sender, which
    empties the queue in order.
  \<^item> \<open>Chat_Commands\<close> has the commands of the user, the end of the input, the timeout, and the error handler called with the
    mutex of the queue held, which for internal errors waits for its own mutex; \<open>Chat_Typing\<close> follows a typed line through reading, recognition, assembling, the queue and the sender
    to the datagram that is sent; \<open>Chat_Login\<close> follows an \<open>/auth\<close> line the same way and on through the answers of the
    server to the open connection, over five turns of the three threads.

  \<^bold>\<open>Assumptions.\<close> \<open>sane\<close> allocators refuse a quarter of the address space and more; \<open>roomy\<close> ones also grant
  everything below \<open>2 ^ 32\<close>. Both are instantiated by \<open>grants_small\<close>. The system calls \<open>socket\<close>,
  \<open>gethostbyname\<close>, \<open>connect\<close>, \<open>sendto\<close> and the received data are parameters without assumptions; \<open>getopt\<close> is
  given by the options it returns.

  \<^bold>\<open>Not modelled.\<close> The debug output, which is compiled out; the memory of the structures, mutexes and condition
  variables themselves (only whether their allocation succeeded); the mutex around the program state,
  which the two accessors take and release; the buffer of a queued message as an object of its own, which is freed with
  the message; the two stand-alone test servers under \<open>tests\<close>. Thread switches inside a turn are modelled only where the
  code waits on a condition and where the sender makes room. Elsewhere they matter in three ways that the
  theorems do not cover: a few accesses to the sending queue do not hold its mutex; the program state is tested and
  changed in separate critical sections, so that a turn under way can overwrite a state set in between, an ending
  state too; and functions that take the mutex of the queue several times, such as the handler of unknown
  messages, leave it to others in between.
\<close>

end
